(* ===== verification/Prelude.thy ===== *)
theory Prelude
  imports Main "HOL-Library.Word"
begin

text \<open>
  Shared vocabulary of the development: Go error values and \<open>errors.Is\<close>, the outcome of a
  call that may return an error or panic, byte strings (Go's \<open>string\<close> and \<open>[]byte\<close> are both
  lists of bytes, and \<open>char\<close> is exactly a byte), the locale of machines that keep an
  invariant along a run, and the list and map lemmas the component theories share.
\<close>

section \<open>Error values and outcomes\<close>

type_synonym bytes = string

text \<open>
  Errors are compared with \<open>errors.Is\<close>, so the sentinels the sources compare with have
  constructors of their own; every other error is a message. \<open>ErrWrap\<close> is
  \<open>fmt.Errorf\<close> with a \<open>%w\<close> verb.
\<close>

datatype goerror =
    ErrMsg string
  | ErrBucketExists
  | ErrBucketNotFound
  | ErrNotExist
  | ErrCanceled
  | ErrEOF
  | ErrWrap string goerror

fun errors_is :: "goerror \<Rightarrow> goerror \<Rightarrow> bool" where
  "errors_is (ErrWrap m e) t = (ErrWrap m e = t \<or> errors_is e t)"
| "errors_is e t = (e = t)"

text \<open>\<open>err.Error()\<close>.\<close>

fun errText :: "goerror \<Rightarrow> string" where
  "errText (ErrMsg m) = m"
| "errText ErrBucketExists = ''bucket already exists''"
| "errText ErrBucketNotFound = ''bucket not found''"
| "errText ErrNotExist = ''file does not exist''"
| "errText ErrCanceled = ''context canceled''"
| "errText ErrEOF = ''EOF''"
| "errText (ErrWrap m e) = m @ errText e"

text \<open>
  \<open>Panic\<close> is a run-time panic: unlike an \<open>Err\<close> no caller in the repository recovers it,
  so it ends the computation it happens in.
\<close>

datatype 'a res = Ok (the_ok: 'a) | Err (the_err: goerror) | Panic string

fun is_ok :: "'a res \<Rightarrow> bool" where
  "is_ok (Ok _) = True"
| "is_ok (Err _) = False"
| "is_ok (Panic _) = False"

lemma is_ok_iff: "is_ok r \<longleftrightarrow> (\<exists>a. r = Ok a)"
  by (cases r) auto

section \<open>Hint collections\<close>

named_theorems go_simps \<open>unfolding rules for the fragments of the Go library\<close>
named_theorems frame_simps \<open>fields an operation leaves alone\<close>

section \<open>Machines that keep an invariant\<close>

text \<open>
  Most components are a state with a handful of operations. An operation together with its
  arguments is an event; \<open>ok\<close> is the side condition under which it may happen. What every event
  keeps, every run keeps.
\<close>

fun runOk :: "('e \<Rightarrow> 's \<Rightarrow> 's) \<Rightarrow> ('e \<Rightarrow> 's \<Rightarrow> bool) \<Rightarrow> 'e list \<Rightarrow> 's \<Rightarrow> bool" where
  "runOk step ok [] s = True"
| "runOk step ok (e # es) s = (ok e s \<and> runOk step ok es (step e s))"

lemma runOk_const: "runOk step (\<lambda>e _. ok e) es s = list_all ok es"
  by (induction es arbitrary: s) auto

lemma runOk_append: "runOk step ok (xs @ ys) s \<longleftrightarrow> runOk step ok xs s \<and> runOk step ok ys (fold step xs s)"
  by (induction xs arbitrary: s) auto

locale invariant_machine =
  fixes step :: "'e \<Rightarrow> 's \<Rightarrow> 's"
    and ok :: "'e \<Rightarrow> 's \<Rightarrow> bool"
    and inv :: "'s \<Rightarrow> bool"
  assumes inv_step: "ok e s \<Longrightarrow> inv s \<Longrightarrow> inv (step e s)"
begin

lemma inv_run: "runOk step ok es s \<Longrightarrow> inv s \<Longrightarrow> inv (fold step es s)"
proof (induction es arbitrary: s)
  case Nil
  then show ?case by simp
next
  case (Cons e es)
  then have "inv (step e s)" by (auto intro: inv_step)
  with Cons show ?case by simp
qed

lemma inv_prefix:
  assumes "runOk step ok (xs @ ys) s" and "inv s"
  shows "inv (fold step xs s)"
  using assms by (intro inv_run) (auto simp: runOk_append)

end

text \<open>The same for components whose operations are the rules of a step relation.\<close>

locale stable_relation =
  fixes step :: "'s \<Rightarrow> 's \<Rightarrow> bool"
    and inv :: "'s \<Rightarrow> bool"
  assumes stable: "step s t \<Longrightarrow> inv s \<Longrightarrow> inv t"
begin

lemma reachable: "step\<^sup>*\<^sup>* s t \<Longrightarrow> inv s \<Longrightarrow> inv t"
  by (induction rule: rtranclp_induct) (auto intro: stable)

end

section \<open>Lists\<close>

lemma case_unit_any [simp]: "case_unit a u = a"
  by (cases u) (simp only: unit.case)

lemma find_SomeD: "find P xs = Some x \<Longrightarrow> x \<in> set xs \<and> P x"
  by (induction xs) (auto split: if_splits)

lemma find_None_iff': "find P xs = None \<longleftrightarrow> (\<forall>x \<in> set xs. \<not> P x)"
  by (induction xs) auto

lemma takeWhile_id_if: "(\<And>x. x \<in> set xs \<Longrightarrow> P x) \<Longrightarrow> takeWhile P xs = xs"
  by (induction xs) auto

end
