(* ===== verification/GoStd.thy ===== *)
theory GoStd
  imports Prelude
begin

text \<open>
  The fragments of the Go standard library the sources call: \<open>strings\<close> (Split, TrimSpace,
  Contains, Cut, LastIndexByte), \<open>strconv\<close> (Itoa, Atoi), \<open>encoding/hex\<close> and
  \<open>encoding/binary\<close>, \<open>time\<close> (instants and durations), \<open>float64\<close> rounding, \<open>http.Header\<close> and
  \<open>http.ResponseWriter\<close>. Strings are byte lists, so \<open>length\<close> is Go's \<open>len\<close>.
\<close>

section \<open>Package strings\<close>

definition asciiString :: "string \<Rightarrow> bool" where
  "asciiString s \<longleftrightarrow> list_all (\<lambda>c. (of_char c :: nat) < 128) s"

text \<open>\<open>strings.Split\<close> with a separator of one byte; the empty string splits into one piece.\<close>

fun splitOn :: "char \<Rightarrow> string \<Rightarrow> string list" where
  "splitOn c [] = [[]]"
| "splitOn c (x # xs) =
     (if x = c then [] # splitOn c xs
      else (case splitOn c xs of [] \<Rightarrow> [[x]] | y # ys \<Rightarrow> (x # y) # ys))"

lemma splitOn_nonempty [simp]: "splitOn c s \<noteq> []"
  by (cases s) (auto split: list.splits)

lemma splitOn_no_sep: "c \<notin> set s \<Longrightarrow> splitOn c s = [s]"
  by (induction s) auto

lemma splitOn_append: "c \<notin> set p \<Longrightarrow> splitOn c (p @ c # s) = p # splitOn c s"
  by (induction p) auto

lemma splitOn_pieces: "p \<in> set (splitOn c s) \<Longrightarrow> c \<notin> set p"
  by (induction s arbitrary: p) (auto split: list.splits if_splits)

lemma length_splitOn: "length (splitOn c s) = Suc (count_list s c)"
  by (induction s) (auto split: list.splits)

text \<open>\<open>strings.TrimSpace\<close> on ASCII text (tab, newline, vertical tab, form feed, return, blank).\<close>

definition isSpace :: "char \<Rightarrow> bool" where
  "isSpace c \<longleftrightarrow> c \<in> {CHR 0x09, CHR 0x0A, CHR 0x0B, CHR 0x0C, CHR 0x0D, CHR 0x20}"

definition trimSpace :: "string \<Rightarrow> string" where
  "trimSpace s = rev (dropWhile isSpace (rev (dropWhile isSpace s)))"

lemma trimSpace_id:
  assumes "s = [] \<or> (\<not> isSpace (hd s) \<and> \<not> isSpace (last s))"
  shows "trimSpace s = s"
proof (cases s rule: rev_cases)
  case Nil
  then show ?thesis by (simp add: trimSpace_def)
next
  case (snoc ys y)
  with assms have *: "\<not> isSpace (hd s)" "\<not> isSpace y" by auto
  have "dropWhile isSpace s = s"
    using *(1) by (cases s) auto
  then show ?thesis using *(2) snoc by (simp add: trimSpace_def)
qed

text \<open>\<open>strings.Contains\<close> and the part after the separator of \<open>strings.Cut\<close>.\<close>

fun hasPrefix :: "string \<Rightarrow> string \<Rightarrow> bool" where
  "hasPrefix [] s = True"
| "hasPrefix (p # ps) [] = False"
| "hasPrefix (p # ps) (x # xs) = (p = x \<and> hasPrefix ps xs)"

fun contains :: "string \<Rightarrow> string \<Rightarrow> bool" where
  "contains p [] = hasPrefix p []"
| "contains p (x # xs) = (hasPrefix p (x # xs) \<or> contains p xs)"

fun cutAfter :: "char \<Rightarrow> string \<Rightarrow> string" where
  "cutAfter c [] = []"
| "cutAfter c (x # xs) = (if x = c then xs else cutAfter c xs)"

lemma hasPrefix_append [simp]: "hasPrefix p (p @ s)"
  by (induction p) auto

lemma hasPrefix_iff: "hasPrefix p s \<longleftrightarrow> (\<exists>t. s = p @ t)"
  by (induction p s rule: hasPrefix.induct) auto

lemma contains_prefix: "hasPrefix p s \<Longrightarrow> contains p s"
  by (cases s) auto

lemma cutAfter_append: "c \<notin> set p \<Longrightarrow> cutAfter c (p @ c # s) = s"
  by (induction p) auto

text \<open>\<open>path[:strings.LastIndexByte(path, c)]\<close>; a string without the byte panics (index -1).\<close>

fun beforeLast :: "char \<Rightarrow> string \<Rightarrow> string option" where
  "beforeLast c [] = None"
| "beforeLast c (x # xs) =
     (case beforeLast c xs of
        Some p \<Rightarrow> Some (x # p)
      | None \<Rightarrow> if x = c then Some [] else None)"

lemma beforeLast_None: "c \<notin> set s \<Longrightarrow> beforeLast c s = None"
  by (induction s) auto

lemma beforeLast_append: "c \<notin> set s \<Longrightarrow> beforeLast c (p @ c # s) = Some p"
  by (induction p) (auto simp: beforeLast_None)

section \<open>Package strconv\<close>

definition digitChar :: "nat \<Rightarrow> char" where
  "digitChar d = char_of (48 + d)"

definition isDigit :: "char \<Rightarrow> bool" where
  "isDigit c \<longleftrightarrow> 48 \<le> (of_char c :: nat) \<and> (of_char c :: nat) \<le> 57"

definition digitVal :: "char \<Rightarrow> nat" where
  "digitVal c = of_char c - 48"

lemma of_char_digitChar: "d < 10 \<Longrightarrow> (of_char (digitChar d) :: nat) = 48 + d"
  by (simp add: digitChar_def of_char_of)

lemma digit_simps [simp]: "d < 10 \<Longrightarrow> isDigit (digitChar d)" "d < 10 \<Longrightarrow> digitVal (digitChar d) = d"
  by (simp_all add: isDigit_def digitVal_def of_char_digitChar)

text \<open>\<open>strconv.Itoa\<close> of a value that is not negative.\<close>

fun goItoa :: "nat \<Rightarrow> string" where
  "goItoa n = (if n < 10 then [digitChar n] else goItoa (n div 10) @ [digitChar (n mod 10)])"

declare goItoa.simps [simp del]

text \<open>
  \<open>strconv.ParseUint\<close> in base 10 and 64 bits: the overflow test comes digit by digit, so a
  number too long is a range error even when junk follows it.
\<close>

datatype uintRes = UVal nat | USyntax | URange

fun parseUintLoop :: "nat \<Rightarrow> string \<Rightarrow> uintRes" where
  "parseUintLoop n [] = UVal n"
| "parseUintLoop n (c # cs) =
     (if \<not> isDigit c then USyntax
      else if 1844674407370955162 \<le> n then URange
      else if 18446744073709551615 < n * 10 + digitVal c then URange
      else parseUintLoop (n * 10 + digitVal c) cs)"

definition parseUint :: "string \<Rightarrow> uintRes" where
  "parseUint s = (if s = [] then USyntax else parseUintLoop 0 s)"

text \<open>
  The value part of \<open>strconv.Atoi\<close>, the only one the sources use (\<open>age, _ := strconv.Atoi(t)\<close>):
  0 on a syntax error, the nearest bound of \<open>int64\<close> on a range error.
\<close>

definition signedOf :: "bool \<Rightarrow> uintRes \<Rightarrow> int" where
  "signedOf neg u =
     (case u of
        USyntax \<Rightarrow> 0
      | URange \<Rightarrow> (if neg then - (2 ^ 63) else 2 ^ 63 - 1)
      | UVal un \<Rightarrow>
          (if \<not> neg \<and> 2 ^ 63 \<le> un then 2 ^ 63 - 1
           else if neg \<and> 2 ^ 63 < un then - (2 ^ 63)
           else if neg then - int un else int un))"

definition goAtoi :: "string \<Rightarrow> int" where
  "goAtoi s =
     (case s of
        [] \<Rightarrow> 0
      | c # cs \<Rightarrow>
          if c = CHR ''+'' then signedOf False (parseUint cs)
          else if c = CHR ''-'' then signedOf True (parseUint cs)
          else signedOf False (parseUint s))"

lemma goItoa_small: "n < 10 \<Longrightarrow> goItoa n = [digitChar n]"
  by (simp add: goItoa.simps)

lemma goItoa_nonempty [simp]: "goItoa n \<noteq> []"
  by (subst goItoa.simps) simp

lemma goItoa_digits: "c \<in> set (goItoa n) \<Longrightarrow> isDigit c"
proof (induction n arbitrary: c rule: goItoa.induct)
  case (1 n)
  show ?case
  proof (cases "n < 10")
    case True
    with "1.prems" show ?thesis by (simp add: goItoa_small)
  next
    case False
    with "1.prems" have "c \<in> set (goItoa (n div 10)) \<or> c = digitChar (n mod 10)"
      by (subst (asm) goItoa.simps) auto
    with "1.IH" False show ?thesis by auto
  qed
qed

lemma parseUintLoop_snoc:
  "parseUintLoop n cs = UVal m \<Longrightarrow> parseUintLoop n (cs @ [c]) = parseUintLoop m [c]"
  by (induction n cs rule: parseUintLoop.induct) (auto split: if_splits)

lemma parseUintLoop_range: "parseUintLoop n cs = URange \<Longrightarrow> parseUintLoop n (cs @ ds) = URange"
  by (induction n cs rule: parseUintLoop.induct) (auto split: if_splits)

lemma parseUintLoop_goItoa:
  "parseUintLoop 0 (goItoa n) = (if n \<le> 18446744073709551615 then UVal n else URange)"
proof (induction n rule: goItoa.induct)
  case (1 n)
  show ?case
  proof (cases "n < 10")
    case True
    then show ?thesis by (simp add: goItoa_small)
  next
    case False
    have split: "goItoa n = goItoa (n div 10) @ [digitChar (n mod 10)]"
      using False by (subst goItoa.simps) simp
    show ?thesis
    proof (cases "n div 10 \<le> 18446744073709551615")
      case True
      with "1.IH" False have "parseUintLoop 0 (goItoa (n div 10)) = UVal (n div 10)" by simp
      from parseUintLoop_snoc [OF this] show ?thesis by (auto simp: split mult.commute)
    next
      case big: False
      with "1.IH" False have "parseUintLoop 0 (goItoa (n div 10)) = URange" by simp
      from parseUintLoop_range [OF this] big show ?thesis by (simp add: split)
    qed
  qed
qed

text \<open>Atoi reads back what Itoa prints, and gives the largest \<open>int64\<close> for a number beyond.\<close>

lemma goAtoi_goItoa_min: "goAtoi (goItoa n) = min (int n) (2 ^ 63 - 1)"
proof -
  obtain c cs where s: "goItoa n = c # cs"
    by (cases "goItoa n") auto
  have "isDigit c" using goItoa_digits [of c n] s by simp
  then have "c \<noteq> CHR ''+''" "c \<noteq> CHR ''-''" by (auto simp: isDigit_def)
  moreover have "parseUint (goItoa n) = (if n \<le> 18446744073709551615 then UVal n else URange)"
    using parseUintLoop_goItoa [of n] by (simp add: parseUint_def)
  ultimately show ?thesis
    using s by (auto simp: goAtoi_def signedOf_def min_def)
qed

lemma goAtoi_goItoa: "n < 2 ^ 63 \<Longrightarrow> goAtoi (goItoa n) = int n"
  by (simp add: goAtoi_goItoa_min)

lemma goAtoi_range: "- (2 ^ 63) \<le> goAtoi s \<and> goAtoi s < 2 ^ 63"
  by (auto simp: goAtoi_def signedOf_def split: list.splits uintRes.splits)

section \<open>Packages encoding/hex and encoding/binary\<close>

definition hexDigit :: "nat \<Rightarrow> char" where
  "hexDigit d = (if d < 10 then char_of (48 + d) else char_of (87 + d))"

definition hexEncode :: "bytes \<Rightarrow> string" where
  "hexEncode bs =
     concat (map (\<lambda>b. [hexDigit (of_char b div 16), hexDigit (of_char b mod 16)]) bs)"

lemma length_hexEncode [simp]: "length (hexEncode bs) = 2 * length bs"
  by (induction bs) (auto simp: hexEncode_def)

lemma of_char_less_256: "(of_char c :: nat) < 256"
  by (metis mod_less_divisor of_char_mod_256 zero_less_numeral)

lemma hexDigit_code:
  "d < 16 \<Longrightarrow> (of_char (hexDigit d) :: nat) = (if d < 10 then 48 + d else 87 + d)"
  by (auto simp: hexDigit_def of_char_of)

lemma hexEncode_codes:
  assumes "c \<in> set (hexEncode bs)"
  shows "48 \<le> (of_char c :: nat) \<and> (of_char c :: nat) < 103"
proof -
  from assms obtain b :: char where
      "c = hexDigit (of_char b div 16) \<or> c = hexDigit (of_char b mod 16)"
    by (auto simp: hexEncode_def)
  moreover have "(of_char b :: nat) div 16 < 16" and "(of_char b :: nat) mod 16 < 16"
    using of_char_less_256 [of b] by (simp_all add: less_mult_imp_div_less)
  ultimately obtain d where "c = hexDigit d" and "d < 16"
    by blast
  then show ?thesis by (auto simp: hexDigit_code)
qed

text \<open>\<open>binary.LittleEndian.PutUint32\<close> into a fresh slice, and \<open>Uint32\<close>, which panics on fewer
  than four bytes.\<close>

type_synonym uint32 = "32 word"

definition putUint32 :: "uint32 \<Rightarrow> bytes" where
  "putUint32 v =
     (let n = unat v
      in [char_of (n mod 256), char_of (n div 256 mod 256), char_of (n div 65536 mod 256),
          char_of (n div 16777216 mod 256)])"

fun getUint32 :: "bytes \<Rightarrow> uint32 option" where
  "getUint32 (a # b # c # d # _) =
     Some (of_nat (of_char a + 256 * of_char b + 65536 * of_char c + 16777216 * of_char d))"
| "getUint32 _ = None"

lemma length_putUint32 [simp]: "length (putUint32 v) = 4"
  by (simp add: putUint32_def Let_def)

lemma getUint32_isSome: "getUint32 bs \<noteq> None \<longleftrightarrow> 4 \<le> length bs"
  by (induction bs rule: getUint32.induct) auto

lemma base256_digits:
  fixes n :: nat
  shows "n mod 256 + 256 * (n div 256 mod 256) + 65536 * (n div 65536 mod 256)
      + 16777216 * (n div 16777216) = n"
proof -
  define a where "a = n div 256"
  define b where "b = a div 256"
  define c where "c = b div 256"
  have e: "n div 256 = a" "n div 65536 = b" "n div 16777216 = c"
    by (simp_all add: a_def b_def c_def div_mult2_eq [symmetric])
  have "n mod 256 + 256 * a = n" "a mod 256 + 256 * b = a" "b mod 256 + 256 * c = b"
    by (simp_all add: a_def b_def c_def)
  then show ?thesis unfolding e by linarith
qed

lemma getUint32_putUint32 [simp]: "getUint32 (putUint32 v) = Some v"
proof -
  have "unat v < 4294967296"
    using unsigned_less [of v, where ?'a = nat] by simp
  with base256_digits [of "unat v"] show ?thesis
    by (simp del: of_nat_add of_nat_mult add: putUint32_def Let_def)
qed

lemma replicate_4: "replicate 4 x = [x, x, x, x]"
  by (simp add: numeral_eq_Suc)

lemma getUint32_zero [simp]: "getUint32 (replicate 4 (CHR 0x00)) = Some 0"
  by (simp add: replicate_4)

section \<open>Package time\<close>

text \<open>
  An instant is the number of nanoseconds since the zero \<open>time.Time\<close> (January 1 of year 1,
  UTC), so \<open>time.Time{}\<close> is 0. A \<open>time.Duration\<close> is an \<open>int64\<close> of nanoseconds, with its
  wrap-around. \<open>time.Unix(0, 0)\<close> is in the local zone, taken to be UTC (the container of the
  Dockerfile sets none).
\<close>

type_synonym time = int
type_synonym int64 = "64 word"

definition nsPerSec :: int where
  "nsPerSec = 1000000000"

definition timeAdd :: "time \<Rightarrow> int64 \<Rightarrow> time" where
  "timeAdd t d = t + sint d"

definition timeAfter :: "time \<Rightarrow> time \<Rightarrow> bool" where
  "timeAfter t u \<longleftrightarrow> u < t"

definition isZeroTime :: "time \<Rightarrow> bool" where
  "isZeroTime t \<longleftrightarrow> t = 0"

text \<open>\<open>time.Duration(n) * time.Second\<close> on an \<open>int\<close> value.\<close>

definition durSeconds :: "int \<Rightarrow> int64" where
  "durSeconds n = of_int n * of_int nsPerSec"

text \<open>\<open>time.Date\<close> at midnight UTC with the month and day normalised, as \<open>AddDate\<close> does.\<close>

definition leapYear :: "int \<Rightarrow> bool" where
  "leapYear y \<longleftrightarrow> y mod 4 = 0 \<and> (y mod 100 \<noteq> 0 \<or> y mod 400 = 0)"

definition monthDays :: "int \<Rightarrow> int list" where
  "monthDays y = [31, if leapYear y then 29 else 28, 31, 30, 31, 30, 31, 31, 30, 31, 30, 31]"

definition goDate :: "int \<Rightarrow> int \<Rightarrow> int \<Rightarrow> time" where
  "goDate y m d =
     (let y' = y + (m - 1) div 12; m' = (m - 1) mod 12;
          days = 365 * (y' - 1) + (y' - 1) div 4 - (y' - 1) div 100 + (y' - 1) div 400
                 + sum_list (take (nat m') (monthDays y')) + (d - 1)
      in days * 86400 * nsPerSec)"

text \<open>The multiplication by a second wraps around.\<close>

lemma sint_durSeconds: "sint (durSeconds n) = (n * nsPerSec + 2 ^ 63) mod 2 ^ 64 - 2 ^ 63"
proof -
  have "sint (durSeconds n) = sint (of_int (n * nsPerSec) :: int64)"
    by (simp add: durSeconds_def)
  also have "\<dots> = signed_take_bit 63 (n * nsPerSec)"
    by (simp only: signed_of_int) simp
  also have "\<dots> = (n * nsPerSec + 2 ^ 63) mod 2 ^ 64 - 2 ^ 63"
    by (simp add: signed_take_bit_eq_take_bit_shift take_bit_eq_mod)
  finally show ?thesis .
qed

lemma sint_durSeconds_small:
  assumes "0 \<le> n" and "n \<le> 9223372036"
  shows "sint (durSeconds n) = n * nsPerSec"
proof -
  have "sint (durSeconds n) = sint (of_int (n * nsPerSec) :: int64)"
    by (simp add: durSeconds_def)
  moreover have "- (2 ^ 63) \<le> n * nsPerSec" and "n * nsPerSec < 2 ^ 63"
    using assms by (auto simp: nsPerSec_def)
  ultimately show ?thesis
    by (simp only: signed_of_int) (simp add: signed_take_bit_int_eq_self)
qed

lemma sint_durSeconds_wrapped:
  assumes "9223372036 < n" and "n \<le> 18446744073"
  shows "sint (durSeconds n) = n * nsPerSec - 2 ^ 64"
proof -
  have "(of_int (n * nsPerSec) :: int64) = of_int (n * nsPerSec - 2 ^ 64)"
    by (simp only: word_of_int_eq_iff) (simp add: take_bit_eq_mod)
  then have "sint (durSeconds n) = sint (of_int (n * nsPerSec - 2 ^ 64) :: int64)"
    by (simp only: durSeconds_def of_int_mult)
  moreover have "- (2 ^ 63) \<le> n * nsPerSec - 2 ^ 64" and "n * nsPerSec - 2 ^ 64 < 2 ^ 63"
    using assms by (auto simp: nsPerSec_def)
  ultimately show ?thesis
    by (simp only: signed_of_int) (simp add: signed_take_bit_int_eq_self)
qed

end
