(* ===== verification/GoJson.thy ===== *)
theory GoJson
  imports GoStd
begin

text \<open>
  \<open>encoding/json\<close> as far as the sources use it: reading one JSON value, decoding it into a struct
  with fields of the types \<open>string\<close>, \<open>bool\<close>, \<open>int\<close> and \<open>int32\<close>, and writing such structs. Text is
  bytes in UTF-8, so a string literal is checked and repaired byte by byte as Go does. Numbers
  keep their text, because the field decides what it means. The texts of syntax errors are not
  kept apart.
\<close>

section \<open>Values\<close>

datatype json =
    JNull
  | JBool bool
  | JNum string
  | JStr string
  | JArr "json list"
  | JObj "(string \<times> json) list"

definition jsonSpace :: "char \<Rightarrow> bool" where
  "jsonSpace c \<longleftrightarrow> c \<in> {CHR 0x20, CHR 0x09, CHR 0x0D, CHR 0x0A}"

definition skipSpace :: "string \<Rightarrow> string" where
  "skipSpace s = dropWhile jsonSpace s"

lemma length_skipSpace: "length (skipSpace s) \<le> length s"
  by (simp add: skipSpace_def length_dropWhile_le)

section \<open>String literals\<close>

definition byteIn :: "nat \<Rightarrow> nat \<Rightarrow> char \<Rightarrow> bool" where
  "byteIn lo hi c \<longleftrightarrow> lo \<le> of_char c \<and> of_char c \<le> hi"

text \<open>\<open>utf8.DecodeRune\<close> on a first byte of at least 0x80: the length of the rune, 0 when invalid.\<close>

fun runeLen :: "string \<Rightarrow> nat" where
  "runeLen (a # b # s) =
     (if byteIn 0xC2 0xDF a then (if byteIn 0x80 0xBF b then 2 else 0)
      else if byteIn 0xE0 0xEF a then
        (if byteIn (if a = CHR 0xE0 then 0xA0 else 0x80) (if a = CHR 0xED then 0x9F else 0xBF) b \<and>
            s \<noteq> [] \<and> byteIn 0x80 0xBF (hd s) then 3 else 0)
      else if byteIn 0xF0 0xF4 a then
        (if byteIn (if a = CHR 0xF0 then 0x90 else 0x80) (if a = CHR 0xF4 then 0x8F else 0xBF) b \<and>
            2 \<le> length s \<and> byteIn 0x80 0xBF (s ! 0) \<and> byteIn 0x80 0xBF (s ! 1) then 4 else 0)
      else 0)"
| "runeLen _ = 0"

text \<open>The replacement rune U+FFFD, and \<open>utf8.AppendRune\<close>.\<close>

definition runeError :: string where
  "runeError = [CHR 0xEF, CHR 0xBF, CHR 0xBD]"

definition encodeRune :: "nat \<Rightarrow> string" where
  "encodeRune r =
     (if r < 0x80 then [char_of r]
      else if r < 0x800 then [char_of (0xC0 + r div 64), char_of (0x80 + r mod 64)]
      else if r < 0x10000 then
        [char_of (0xE0 + r div 4096), char_of (0x80 + r div 64 mod 64), char_of (0x80 + r mod 64)]
      else [char_of (0xF0 + r div 262144), char_of (0x80 + r div 4096 mod 64),
            char_of (0x80 + r div 64 mod 64), char_of (0x80 + r mod 64)])"

definition hexValue :: "char \<Rightarrow> nat option" where
  "hexValue c =
     (if isDigit c then Some (digitVal c)
      else if byteIn 97 102 c then Some (of_char c - 87)
      else if byteIn 65 70 c then Some (of_char c - 55)
      else None)"

text \<open>The four hexadecimal digits of an escape.\<close>

definition hex4 :: "string \<Rightarrow> nat option" where
  "hex4 s =
     (if length s < 4 then None
      else case map hexValue (take 4 s) of
        [Some a, Some b, Some c, Some d] \<Rightarrow> Some (((a * 16 + b) * 16 + c) * 16 + d)
      | _ \<Rightarrow> None)"

text \<open>After the digits of an escape: a surrogate pair is one rune, a lone surrogate is invalid.
  The second component is the number of bytes the rune takes after these digits.\<close>

definition escapedRune :: "nat \<Rightarrow> string \<Rightarrow> string \<times> nat" where
  "escapedRune u s =
     (if \<not> (0xD800 \<le> u \<and> u < 0xE000) then (encodeRune u, 0)
      else case (if hasPrefix [CHR 0x5C, CHR ''u''] s then hex4 (drop 2 s) else None) of
        Some v \<Rightarrow>
          if u < 0xDC00 \<and> 0xDC00 \<le> v \<and> v < 0xE000
          then (encodeRune ((u - 0xD800) * 1024 + (v - 0xDC00) + 0x10000), 6)
          else (runeError, 0)
      | None \<Rightarrow> (runeError, 0))"

definition simpleEscape :: "char \<Rightarrow> char option" where
  "simpleEscape c =
     (if c \<in> {CHR 0x22, CHR 0x5C, CHR ''/''} then Some c
      else if c = CHR ''b'' then Some (CHR 0x08)
      else if c = CHR ''f'' then Some (CHR 0x0C)
      else if c = CHR ''n'' then Some (CHR 0x0A)
      else if c = CHR ''r'' then Some (CHR 0x0D)
      else if c = CHR ''t'' then Some (CHR 0x09)
      else None)"

text \<open>
  One step through a string literal: the closing quote with what follows it, or the bytes of the
  next piece with what follows that.
\<close>

datatype strStep = StrBad | StrEnd string | StrMore string string

definition escapeStep :: "string \<Rightarrow> strStep" where
  "escapeStep s =
     (case s of
        [] \<Rightarrow> StrBad
      | e # t \<Rightarrow>
          if e = CHR ''u'' then
            (case hex4 t of
               None \<Rightarrow> StrBad
             | Some u \<Rightarrow>
                 let (rune, more) = escapedRune u (drop 4 t)
                 in StrMore rune (drop more (drop 4 t)))
          else (case simpleEscape e of None \<Rightarrow> StrBad | Some x \<Rightarrow> StrMore [x] t))"

definition stringStep :: "string \<Rightarrow> strStep" where
  "stringStep s =
     (case s of
        [] \<Rightarrow> StrBad
      | c # t \<Rightarrow>
          if c = CHR 0x22 then StrEnd t
          else if c = CHR 0x5C then escapeStep t
          else if (of_char c :: nat) < 32 then StrBad
          else if (of_char c :: nat) < 128 then StrMore [c] t
          else if runeLen s = 0 then StrMore runeError t
          else StrMore (take (runeLen s) s) (drop (runeLen s) s))"

lemma stringStep_shorter:
  "stringStep s = StrEnd r \<Longrightarrow> length r < length s"
  "stringStep s = StrMore p r \<Longrightarrow> length r < length s"
  by (auto simp: stringStep_def escapeStep_def split: list.splits if_splits option.splits prod.splits)

text \<open>A string literal after its opening quote: its value and what follows the closing quote.\<close>

function parseString :: "string \<Rightarrow> (string \<times> string) option" where
  "parseString s =
     (case stringStep s of
        StrBad \<Rightarrow> None
      | StrEnd r \<Rightarrow> Some ([], r)
      | StrMore p r \<Rightarrow> map_option (\<lambda>(v, s). (p @ v, s)) (parseString r))"
  by pat_completeness auto
termination
  by (relation "measure length") (auto dest: stringStep_shorter)

declare parseString.simps [simp del]

lemma parseString_shorter: "parseString s = Some (v, r) \<Longrightarrow> length r < length s"
proof (induction s arbitrary: v r rule: parseString.induct)
  case (1 s)
  show ?case
  proof (cases "stringStep s")
    case (StrMore p t)
    with "1.prems" obtain w where "parseString t = Some (w, r)" by (subst (asm) parseString.simps) auto
    with "1.IH" [OF StrMore] stringStep_shorter(2) [OF StrMore] show ?thesis by fastforce
  next
    case (StrEnd t)
    with "1.prems" stringStep_shorter(1) [OF StrEnd] show ?thesis by (subst (asm) parseString.simps) simp
  qed (use "1.prems" in \<open>subst (asm) parseString.simps, simp\<close>)
qed

section \<open>Reading a value\<close>

text \<open>A number literal: sign, integer part without a leading zero, fraction, exponent.\<close>

definition numSign :: "string \<Rightarrow> string" where
  "numSign s = (if hasPrefix ''-'' s then ''-'' else [])"

definition numInt :: "string \<Rightarrow> string option" where
  "numInt s =
     (if hasPrefix ''0'' s then Some ''0''
      else let ds = takeWhile isDigit s in if ds = [] then None else Some ds)"

definition numFrac :: "string \<Rightarrow> string option" where
  "numFrac s =
     (if hasPrefix ''.'' s then
        let ds = takeWhile isDigit (tl s) in if ds = [] then None else Some (CHR ''.'' # ds)
      else Some [])"

definition expSign :: "string \<Rightarrow> string" where
  "expSign s = (if hasPrefix ''+'' s \<or> hasPrefix ''-'' s then [hd s] else [])"

definition numExp :: "string \<Rightarrow> string option" where
  "numExp s =
     (if hasPrefix ''e'' s \<or> hasPrefix ''E'' s then
        let sg = expSign (tl s);
            ds = takeWhile isDigit (drop (length sg) (tl s))
        in if ds = [] then None else Some (hd s # sg @ ds)
      else Some [])"

text \<open>The pieces one after the other; the literal is what they cover.\<close>

fun scanPieces :: "(string \<Rightarrow> string option) list \<Rightarrow> string \<Rightarrow> (string \<times> string) option" where
  "scanPieces [] s = Some ([], s)"
| "scanPieces (f # fs) s =
     (case f s of
        None \<Rightarrow> None
      | Some p \<Rightarrow> map_option (\<lambda>(lit, r). (p @ lit, r)) (scanPieces fs (drop (length p) s)))"

definition parseNumber :: "string \<Rightarrow> (string \<times> string) option" where
  "parseNumber s = scanPieces [Some \<circ> numSign, numInt, numFrac, numExp] s"

text \<open>A value that is neither an array nor an object.\<close>

definition parseScalar :: "string \<Rightarrow> (json \<times> string) option" where
  "parseScalar s =
     (if hasPrefix [CHR 0x22] s then map_option (\<lambda>(v, r). (JStr v, r)) (parseString (tl s))
      else if hasPrefix ''true'' s then Some (JBool True, drop 4 s)
      else if hasPrefix ''false'' s then Some (JBool False, drop 5 s)
      else if hasPrefix ''null'' s then Some (JNull, drop 4 s)
      else map_option (\<lambda>(lit, r). (JNum lit, r)) (parseNumber s))"

text \<open>What follows an element of an array or of an object: a comma and more, or the end.\<close>

definition listTail ::
  "char \<Rightarrow> (string \<Rightarrow> ('a list \<times> string) option) \<Rightarrow> 'a \<Rightarrow> string \<Rightarrow> ('a list \<times> string) option" where
  "listTail close more x s =
     (case skipSpace s of
        [] \<Rightarrow> None
      | c # r \<Rightarrow>
          if c = CHR '','' then map_option (\<lambda>(xs, r). (x # xs, r)) (more r)
          else if c = close then Some ([x], r)
          else None)"

text \<open>The key of a member with its colon.\<close>

definition parseKey :: "string \<Rightarrow> (string \<times> string) option" where
  "parseKey s =
     (case skipSpace s of
        [] \<Rightarrow> None
      | q # s \<Rightarrow>
          if q \<noteq> CHR 0x22 then None
          else case parseString s of
            None \<Rightarrow> None
          | Some (k, r) \<Rightarrow>
              (case skipSpace r of
                 [] \<Rightarrow> None
               | c # r \<Rightarrow> if c = CHR '':'' then Some (k, r) else None))"

text \<open>
  One value, with what follows it. Each call takes one unit of fuel, and twice the length of the
  text is always enough.
\<close>

fun parseValue :: "nat \<Rightarrow> string \<Rightarrow> (json \<times> string) option"
and parseElems :: "nat \<Rightarrow> string \<Rightarrow> (json list \<times> string) option"
and parseMembers :: "nat \<Rightarrow> string \<Rightarrow> ((string \<times> json) list \<times> string) option" where
  "parseValue 0 s = None"
| "parseValue (Suc n) s =
     (case skipSpace s of
        [] \<Rightarrow> None
      | c # cs \<Rightarrow>
          if c = CHR ''['' then
            (if hasPrefix '']'' (skipSpace cs) then Some (JArr [], tl (skipSpace cs))
             else map_option (\<lambda>(vs, r). (JArr vs, r)) (parseElems n cs))
          else if c = CHR ''{'' then
            (if hasPrefix ''}'' (skipSpace cs) then Some (JObj [], tl (skipSpace cs))
             else map_option (\<lambda>(kvs, r). (JObj kvs, r)) (parseMembers n cs))
          else parseScalar (c # cs))"
| "parseElems 0 s = None"
| "parseElems (Suc n) s =
     (case parseValue n s of
        None \<Rightarrow> None
      | Some (v, r) \<Rightarrow> listTail (CHR '']'') (parseElems n) v r)"
| "parseMembers 0 s = None"
| "parseMembers (Suc n) s =
     (case parseKey s of
        None \<Rightarrow> None
      | Some (k, r) \<Rightarrow>
          (case parseValue n r of
             None \<Rightarrow> None
           | Some (v, r) \<Rightarrow> listTail (CHR ''}'') (parseMembers n) (k, v) r))"

declare parseValue.simps [simp del] parseElems.simps [simp del] parseMembers.simps [simp del]

text \<open>Every piece of a number is a prefix, and the integer part is not empty.\<close>

lemma takeWhile_prefix: "hasPrefix (takeWhile P s) s"
  using takeWhile_dropWhile_id [of P s] by (metis hasPrefix_append)

lemma num_prefixes:
  "hasPrefix (numSign s) s" "numInt s = Some p \<Longrightarrow> hasPrefix p s \<and> p \<noteq> []"
  "numFrac s = Some p \<Longrightarrow> hasPrefix p s" "numExp s = Some p \<Longrightarrow> hasPrefix p s"
proof -
  show "hasPrefix (numSign s) s" by (simp add: numSign_def)
  show "numInt s = Some p \<Longrightarrow> hasPrefix p s \<and> p \<noteq> []"
    by (auto simp: numInt_def Let_def takeWhile_prefix split: if_splits)
  show "numFrac s = Some p \<Longrightarrow> hasPrefix p s"
    by (cases s) (auto simp: numFrac_def Let_def takeWhile_prefix split: if_splits)
  show "hasPrefix p s" if exp: "numExp s = Some p"
  proof (cases "hasPrefix ''e'' s \<or> hasPrefix ''E'' s")
    case False
    with exp show ?thesis by (simp add: numExp_def)
  next
    case True
    define sg where "sg = expSign (tl s)"
    have "tl s = sg @ drop (length sg) (tl s)"
      by (cases "tl s") (auto simp: sg_def expSign_def)
    also have "\<dots> = sg @ takeWhile isDigit (drop (length sg) (tl s)) @ dropWhile isDigit (drop (length sg) (tl s))"
      by simp
    finally have "tl s = (sg @ takeWhile isDigit (drop (length sg) (tl s))) @ dropWhile isDigit (drop (length sg) (tl s))"
      by simp
    moreover have "s = hd s # tl s" using True by (cases s) auto
    moreover have "p = hd s # sg @ takeWhile isDigit (drop (length sg) (tl s))"
      using exp True by (simp add: numExp_def Let_def sg_def split: if_splits)
    ultimately show ?thesis unfolding hasPrefix_iff by (metis append_Cons)
  qed
qed

lemma hasPrefix_drop: "hasPrefix p s \<Longrightarrow> p @ drop (length p) s = s"
  by (auto simp: hasPrefix_iff)

lemma scanPieces_head:
  assumes "scanPieces (f # fs) s = Some (lit, r)"
  obtains p q where "f s = Some p" "lit = p @ q" "scanPieces fs (drop (length p) s) = Some (q, r)"
  using assms by (auto split: option.splits)

lemma scanPieces_append:
  assumes "scanPieces fs s = Some (lit, r)" and "\<forall>f \<in> set fs. \<forall>u p. f u = Some p \<longrightarrow> hasPrefix p u"
  shows "s = lit @ r"
  using assms
proof (induction fs arbitrary: s lit)
  case Nil
  then show ?case by simp
next
  case (Cons f fs)
  then obtain p lit' where p: "f s = Some p" "scanPieces fs (drop (length p) s) = Some (lit', r)" "lit = p @ lit'"
    by (auto split: option.splits)
  then have "drop (length p) s = lit' @ r" using Cons by auto
  moreover have "hasPrefix p s" using p(1) Cons.prems(2) by simp
  ultimately show ?case using p(3) hasPrefix_drop [of p s] by simp
qed

lemma parseNumber_append: "parseNumber s = Some (lit, r) \<Longrightarrow> s = lit @ r"
  unfolding parseNumber_def using num_prefixes by (elim scanPieces_append) auto

lemma parseNumber_shorter:
  assumes "parseNumber s = Some (lit, r)"
  shows "length r < length s"
proof -
  from scanPieces_head [OF assms [unfolded parseNumber_def]] obtain p q where
    1: "lit = p @ q" "scanPieces [numInt, numFrac, numExp] (drop (length p) s) = Some (q, r)" by blast
  from scanPieces_head [OF 1(2)] obtain i w where
    2: "numInt (drop (length p) s) = Some i" "q = i @ w" by blast
  then have "lit \<noteq> []" using num_prefixes(2) [OF 2(1)] 1(1) by simp
  then show ?thesis using parseNumber_append [OF assms] by simp
qed

lemma skipSpace_shorter: "skipSpace s = c # cs \<Longrightarrow> length cs < length s"
  using length_skipSpace [of s] by simp

lemma parseKey_shorter: "parseKey s = Some (k, r) \<Longrightarrow> length r < length s"
  by (auto simp: parseKey_def split: list.splits option.splits if_splits
      dest!: skipSpace_shorter parseString_shorter)

lemma listTail_shorter:
  assumes "listTail close more x s = Some (xs, r)"
    and "\<And>q xs r. more q = Some (xs, r) \<Longrightarrow> length r < length q"
  shows "length r < length s"
  using assms(1)
  by (auto simp: listTail_def split: list.splits if_splits dest!: skipSpace_shorter assms(2))

lemma listTail_cong:
  "(\<And>q. length q < length s \<Longrightarrow> more q = more' q) \<Longrightarrow> listTail close more x s = listTail close more' x s"
  by (auto simp: listTail_def skipSpace_shorter split: list.split)

lemma parseScalar_shorter: "parseScalar s = Some (v, r) \<Longrightarrow> length r < length s"
  by (cases s) (auto simp: parseScalar_def split: if_splits
      dest!: parseString_shorter parseNumber_shorter)

lemma parseValue_head_shorter:
  assumes "parseValue (Suc n) s = Some (v, r)"
    and "\<And>q vs r. parseElems n q = Some (vs, r) \<Longrightarrow> length r < length q"
    and "\<And>q kvs r. parseMembers n q = Some (kvs, r) \<Longrightarrow> length r < length q"
  shows "length r < length s"
proof (cases "skipSpace s")
  case Nil
  with assms(1) show ?thesis by (simp add: parseValue.simps)
next
  case (Cons c cs)
  have tl: "length (tl (skipSpace cs)) \<le> length cs" using length_skipSpace [of cs] by simp
  have "length r \<le> length cs" if "parseScalar (c # cs) = Some (v, r)"
    using parseScalar_shorter [OF that] by simp
  then have "length r \<le> length cs"
    using assms(1) Cons tl assms(2,3)
    by (auto simp: parseValue.simps(2) less_imp_le split: if_splits)
  with skipSpace_shorter [OF Cons] show ?thesis by simp
qed

lemma parse_shorter:
  "(\<forall>v r. parseValue n s = Some (v, r) \<longrightarrow> length r < length s) \<and>
   (\<forall>vs r. parseElems n s = Some (vs, r) \<longrightarrow> length r < length s) \<and>
   (\<forall>kvs r. parseMembers n s = Some (kvs, r) \<longrightarrow> length r < length s)"
proof (induction n arbitrary: s)
  case 0
  then show ?case by (simp add: parseValue.simps parseElems.simps parseMembers.simps)
next
  case (Suc n)
  then have val: "\<And>q v r. parseValue n q = Some (v, r) \<Longrightarrow> length r < length q"
    and els: "\<And>q v r. parseElems n q = Some (v, r) \<Longrightarrow> length r < length q"
    and mem: "\<And>q v r. parseMembers n q = Some (v, r) \<Longrightarrow> length r < length q" by blast+
  have "length r < length s" if "parseValue (Suc n) s = Some (v, r)" for v r
    by (rule parseValue_head_shorter [OF that els mem])
  moreover have "length r < length s" if "parseElems (Suc n) s = Some (vs, r)" for vs r
    using that
    by (auto simp: parseElems.simps(2) split: option.splits dest!: val listTail_shorter [OF _ els])
  moreover have "length r < length s" if "parseMembers (Suc n) s = Some (kvs, r)" for kvs r
    using that
    by (auto simp: parseMembers.simps(2) split: option.splits
        dest!: val parseKey_shorter listTail_shorter [OF _ mem])
  ultimately show ?case by blast
qed

section \<open>Enough fuel\<close>

lemma parse_fuel:
  "(2 * length s < n \<longrightarrow> parseValue (Suc n) s = parseValue n s) \<and>
   (2 * length s + 1 < n \<longrightarrow> parseElems (Suc n) s = parseElems n s) \<and>
   (2 * length s + 1 < n \<longrightarrow> parseMembers (Suc n) s = parseMembers n s)"
proof (induction n arbitrary: s)
  case 0
  then show ?case by simp
next
  case (Suc n)
  have val: "parseValue (Suc n) r = parseValue n r" if "2 * length r < n" for r
    using Suc.IH [of r] that by blast
  have els: "parseElems (Suc n) r = parseElems n r" if "2 * length r + 1 < n" for r
    using Suc.IH [of r] that by blast
  have mem: "parseMembers (Suc n) r = parseMembers n r" if "2 * length r + 1 < n" for r
    using Suc.IH [of r] that by blast
  have "parseValue (Suc (Suc n)) s = parseValue (Suc n) s" if "2 * length s < Suc n"
  proof (cases "skipSpace s")
    case Nil
    then show ?thesis by (simp add: parseValue.simps)
  next
    case (Cons c cs)
    then have "2 * length cs + 1 < n" using that skipSpace_shorter by fastforce
    then have "parseElems (Suc n) cs = parseElems n cs" "parseMembers (Suc n) cs = parseMembers n cs"
      using els mem by blast+
    then show ?thesis using Cons by (simp only: parseValue.simps(2) list.case)
  qed
  moreover have "parseElems (Suc (Suc n)) s = parseElems (Suc n) s" if "2 * length s + 1 < Suc n"
  proof -
    have "listTail close (parseElems (Suc n)) v r = listTail close (parseElems n) v r"
      if "parseValue n s = Some (v, r)" for close v r
      using that \<open>2 * length s + 1 < Suc n\<close> parse_shorter [of n s]
      by (intro listTail_cong els) fastforce
    then show ?thesis
      using val [of s] that
      by (simp only: parseElems.simps(2)) (simp split: option.split)
  qed
  moreover have "parseMembers (Suc (Suc n)) s = parseMembers (Suc n) s" if "2 * length s + 1 < Suc n"
  proof (cases "parseKey s")
    case None
    then show ?thesis by (simp add: parseMembers.simps(2))
  next
    case (Some kr)
    obtain k q where kr: "kr = (k, q)" by force
    with Some have q: "length q < length s" by (simp add: parseKey_shorter)
    have "listTail close (parseMembers (Suc n)) (k, v) r = listTail close (parseMembers n) (k, v) r"
      if "parseValue n q = Some (v, r)" for close v r
      using that q \<open>2 * length s + 1 < Suc n\<close> parse_shorter [of n q]
      by (intro listTail_cong mem) fastforce
    then show ?thesis
      using val [of q] that q Some kr
      by (simp only: parseMembers.simps(2)) (simp split: option.split)
  qed
  ultimately show ?case by blast
qed

lemma parseValue_fuel:
  assumes "2 * length s < n" and "n \<le> m"
  shows "parseValue m s = parseValue n s"
  using assms(2,1)
proof (induction m rule: dec_induct)
  case base
  show ?case by simp
next
  case (step m)
  then show ?case using parse_fuel [of s m] by simp
qed

text \<open>\<open>Decoder.Decode\<close> reads the first value of the body and leaves the rest; \<open>json.Unmarshal\<close>
  wants nothing but space after it.\<close>

definition decodeFirst :: "bytes \<Rightarrow> goerror + json" where
  "decodeFirst s =
     (if skipSpace s = [] then Inl ErrEOF
      else case parseValue (2 * length s + 1) s of
        None \<Rightarrow> Inl (ErrMsg ''invalid JSON'')
      | Some (v, r) \<Rightarrow> Inr v)"

definition decodeWhole :: "bytes \<Rightarrow> goerror + json" where
  "decodeWhole s =
     (case parseValue (2 * length s + 1) s of
        None \<Rightarrow> Inl (ErrMsg ''invalid JSON'')
      | Some (v, r) \<Rightarrow> if skipSpace r = [] then Inr v else Inl (ErrMsg ''invalid JSON''))"

section \<open>Decoding into a struct\<close>

text \<open>\<open>strconv.ParseInt(lit, 10, 64)\<close>; \<open>None\<close> is an error.\<close>

definition signedExact :: "bool \<Rightarrow> uintRes \<Rightarrow> int option" where
  "signedExact neg u =
     (case u of
        UVal n \<Rightarrow>
          (if neg then (if n \<le> 2 ^ 63 then Some (- int n) else None)
           else (if n < 2 ^ 63 then Some (int n) else None))
      | _ \<Rightarrow> None)"

definition parseInt64 :: "string \<Rightarrow> int option" where
  "parseInt64 s =
     (if hasPrefix ''+'' s then signedExact False (parseUint (tl s))
      else if hasPrefix ''-'' s then signedExact True (parseUint (tl s))
      else signedExact False (parseUint s))"

text \<open>
  A field is its name and what a value does to the struct. A value of the wrong type leaves the
  field alone and is an error, which decoding remembers while it goes on; \<open>null\<close> leaves it alone
  without an error.
\<close>

definition typeErr :: goerror where
  "typeErr = ErrMsg ''json: cannot unmarshal''"

type_synonym 'r field = "string \<times> (json \<Rightarrow> 'r \<Rightarrow> goerror option \<times> 'r)"

definition strField :: "(string \<Rightarrow> 'r \<Rightarrow> 'r) \<Rightarrow> json \<Rightarrow> 'r \<Rightarrow> goerror option \<times> 'r" where
  "strField upd v r =
     (case v of JStr s \<Rightarrow> (None, upd s r) | JNull \<Rightarrow> (None, r) | _ \<Rightarrow> (Some typeErr, r))"

definition intField :: "nat \<Rightarrow> (int \<Rightarrow> 'r \<Rightarrow> 'r) \<Rightarrow> json \<Rightarrow> 'r \<Rightarrow> goerror option \<times> 'r" where
  "intField width upd v r =
     (case v of
        JNum lit \<Rightarrow>
          (case parseInt64 lit of
             None \<Rightarrow> (Some typeErr, r)
           | Some i \<Rightarrow>
               if - (2 ^ (width - 1)) \<le> i \<and> i < 2 ^ (width - 1) then (None, upd i r)
               else (Some typeErr, r))
      | JNull \<Rightarrow> (None, r)
      | _ \<Rightarrow> (Some typeErr, r))"

definition boolField :: "(bool \<Rightarrow> 'r \<Rightarrow> 'r) \<Rightarrow> json \<Rightarrow> 'r \<Rightarrow> goerror option \<times> 'r" where
  "boolField upd v r =
     (case v of JBool b \<Rightarrow> (None, upd b r) | JNull \<Rightarrow> (None, r) | _ \<Rightarrow> (Some typeErr, r))"

text \<open>
  A key selects the field of the same name, or else the first one that equals it up to the case
  of letters; the Kelvin sign and the long s fold to k and s.
\<close>

definition lowerCode :: "char \<Rightarrow> nat" where
  "lowerCode c = (if byteIn 65 90 c then of_char c + 32 else of_char c)"

definition foldByte :: "char \<Rightarrow> char \<Rightarrow> bool" where
  "foldByte a b \<longleftrightarrow> a = b \<or> (byteIn 97 122 (char_of (lowerCode a)) \<and> lowerCode a = lowerCode b)"

fun foldEq :: "string \<Rightarrow> string \<Rightarrow> bool" where
  "foldEq [] t = (t = [])"
| "foldEq (a # s) t =
     (if hasPrefix [CHR 0xE2, CHR 0x84, CHR 0xAA] t then a \<in> {CHR ''k'', CHR ''K''} \<and> foldEq s (drop 3 t)
      else if hasPrefix [CHR 0xC5, CHR 0xBF] t then a \<in> {CHR ''s'', CHR ''S''} \<and> foldEq s (drop 2 t)
      else (case t of [] \<Rightarrow> False | b # t \<Rightarrow> foldByte a b \<and> foldEq s t))"

definition selectField :: "'r field list \<Rightarrow> string \<Rightarrow> 'r field option" where
  "selectField fs k =
     (case find (\<lambda>f. fst f = k) fs of
        Some f \<Rightarrow> Some f
      | None \<Rightarrow> find (\<lambda>f. foldEq (fst f) k) fs)"

definition bindMember :: "'r field list \<Rightarrow> string \<times> json \<Rightarrow> goerror option \<times> 'r \<Rightarrow> goerror option \<times> 'r" where
  "bindMember fs kv er =
     (case selectField fs (fst kv) of
        None \<Rightarrow> er
      | Some f \<Rightarrow>
          (let (e, r) = snd f (snd kv) (snd er)
           in (if fst er = None then e else fst er, r)))"

definition bindStruct :: "'r field list \<Rightarrow> json \<Rightarrow> 'r \<Rightarrow> goerror option \<times> 'r" where
  "bindStruct fs v r =
     (case v of
        JObj kvs \<Rightarrow> fold (bindMember fs) kvs (None, r)
      | JNull \<Rightarrow> (None, r)
      | _ \<Rightarrow> (Some typeErr, r))"

text \<open>\<open>json.NewDecoder(body).Decode(&r)\<close>: the error and what has been filled in by then.\<close>

definition decodeBody :: "'r field list \<Rightarrow> 'r \<Rightarrow> bytes \<Rightarrow> goerror option \<times> 'r" where
  "decodeBody fs r body =
     (case decodeFirst body of Inl e \<Rightarrow> (Some e, r) | Inr v \<Rightarrow> bindStruct fs v r)"

section \<open>Writing\<close>

text \<open>\<open>json.Marshal\<close> escapes quotes, control bytes, and the three bytes that matter to HTML.\<close>

definition escapeByte :: "char \<Rightarrow> string" where
  "escapeByte c =
     (if c \<in> {CHR 0x22, CHR 0x5C} then [CHR 0x5C, c]
      else if c = CHR 0x0A then [CHR 0x5C, CHR ''n'']
      else if c = CHR 0x0D then [CHR 0x5C, CHR ''r'']
      else if c = CHR 0x09 then [CHR 0x5C, CHR ''t'']
      else if (of_char c :: nat) < 32 \<or> c \<in> {CHR ''<'', CHR ''>'', CHR ''&''} then
        [CHR 0x5C, CHR ''u'', CHR ''0'', CHR ''0'', hexDigit (of_char c div 16), hexDigit (of_char c mod 16)]
      else [c])"

text \<open>Beyond ASCII: invalid bytes become the replacement rune, U+2028 and U+2029 are escaped.\<close>

definition quoteStep :: "string \<Rightarrow> string \<times> string" where
  "quoteStep s =
     (if (of_char (hd s) :: nat) < 128 then (escapeByte (hd s), tl s)
      else if runeLen s = 0 then (CHR 0x5C # ''ufffd'', tl s)
      else if hasPrefix [CHR 0xE2, CHR 0x80, CHR 0xA8] s then (CHR 0x5C # ''u2028'', drop 3 s)
      else if hasPrefix [CHR 0xE2, CHR 0x80, CHR 0xA9] s then (CHR 0x5C # ''u2029'', drop 3 s)
      else (take (runeLen s) s, drop (runeLen s) s))"

function quoteBytes :: "string \<Rightarrow> string" where
  "quoteBytes s = (if s = [] then [] else fst (quoteStep s) @ quoteBytes (snd (quoteStep s)))"
  by pat_completeness auto
termination
  by (relation "measure length") (auto simp: quoteStep_def)

declare quoteBytes.simps [simp del]

definition quoteString :: "string \<Rightarrow> string" where
  "quoteString s = CHR 0x22 # quoteBytes s @ [CHR 0x22]"

definition printInt :: "int \<Rightarrow> string" where
  "printInt i = (if i < 0 then CHR ''-'' # goItoa (nat (- i)) else goItoa (nat i))"

fun commas :: "string list \<Rightarrow> string" where
  "commas [] = []"
| "commas [s] = s"
| "commas (s # ss) = s @ CHR '','' # commas ss"

fun printJson :: "json \<Rightarrow> string" where
  "printJson JNull = ''null''"
| "printJson (JBool b) = (if b then ''true'' else ''false'')"
| "printJson (JNum lit) = lit"
| "printJson (JStr s) = quoteString s"
| "printJson (JArr vs) = ''['' @ commas (map printJson vs) @ '']''"
| "printJson (JObj kvs) =
     ''{'' @ commas (map (\<lambda>(k, v). quoteString k @ CHR '':'' # printJson v) kvs) @ ''}''"

section \<open>Reading what was written\<close>

lemma hexValue_hexDigit: "d < 16 \<Longrightarrow> hexValue (hexDigit d) = Some d"
  by (auto simp: hexValue_def byteIn_def isDigit_def digitVal_def hexDigit_code)

lemma hex4_byte:
  "n < 256 \<Longrightarrow> hex4 (CHR ''0'' # CHR ''0'' # hexDigit (n div 16) # hexDigit (n mod 16) # s) = Some n"
proof -
  assume "n < 256"
  then have "hexValue (hexDigit (n div 16)) = Some (n div 16)" "hexValue (hexDigit (n mod 16)) = Some (n mod 16)"
    by (auto intro: hexValue_hexDigit)
  moreover have "hexValue (CHR ''0'') = Some 0" by (simp add: hexValue_def isDigit_def digitVal_def)
  ultimately show ?thesis by (simp add: hex4_def)
qed

lemma stringStep_escape:
  assumes "(of_char c :: nat) < 128"
  shows "stringStep (escapeByte c @ s) = StrMore [c] s"
proof (cases "(of_char c :: nat) < 32 \<or> c \<in> {CHR ''<'', CHR ''>'', CHR ''&''}")
  case True
  let ?n = "of_char c :: nat"
  have "hex4 (CHR ''0'' # CHR ''0'' # hexDigit (?n div 16) # hexDigit (?n mod 16) # s) = Some ?n"
    using assms by (intro hex4_byte) simp
  with assms True show ?thesis
    by (auto simp: escapeByte_def stringStep_def escapeStep_def escapedRune_def encodeRune_def
        simpleEscape_def Let_def)
next
  case False
  then show ?thesis
    using assms by (auto simp: escapeByte_def stringStep_def escapeStep_def simpleEscape_def)
qed

lemma quoteBytes_ascii:
  "(of_char c :: nat) < 128 \<Longrightarrow> quoteBytes (c # s) = escapeByte c @ quoteBytes s"
  by (subst quoteBytes.simps) (simp add: quoteStep_def)

lemma parseString_quoteBytes:
  "asciiString s \<Longrightarrow> parseString (quoteBytes s @ CHR 0x22 # rest) = Some (s, rest)"
proof (induction s)
  case Nil
  show ?case by (subst parseString.simps) (simp add: quoteBytes.simps stringStep_def)
next
  case (Cons c s)
  then have c: "(of_char c :: nat) < 128" and "asciiString s" by (auto simp: asciiString_def)
  with Cons.IH show ?case
    by (subst parseString.simps)
      (simp add: quoteBytes_ascii [OF c] stringStep_escape [OF c])
qed

text \<open>An integer is one number literal as long as what follows cannot continue it.\<close>

definition numberStop :: "string \<Rightarrow> bool" where
  "numberStop s \<longleftrightarrow> s = [] \<or> (\<not> isDigit (hd s) \<and> hd s \<notin> {CHR ''.'', CHR ''e'', CHR ''E''})"

lemma goItoa_hd: "0 < n \<Longrightarrow> hd (goItoa n) \<noteq> CHR ''0''"
proof (induction n rule: goItoa.induct)
  case (1 n)
  show ?case
  proof (cases "n < 10")
    case True
    with "1.prems" have "(of_char (digitChar n) :: nat) \<noteq> 48" by (simp add: of_char_digitChar)
    then show ?thesis using True by (auto simp: goItoa_small)
  next
    case False
    with "1.IH" have "hd (goItoa (n div 10)) \<noteq> CHR ''0''" by simp
    then show ?thesis using False by (subst goItoa.simps) simp
  qed
qed

lemma takeWhile_digits:
  "numberStop rest \<Longrightarrow> takeWhile isDigit (goItoa n @ rest) = goItoa n"
  using goItoa_digits by (auto simp: numberStop_def takeWhile_append intro: takeWhile_id_if) (cases rest; auto)+

lemma numInt_goItoa:
  assumes "numberStop rest"
  shows "numInt (goItoa n @ rest) = Some (goItoa n)"
proof (cases "n = 0")
  case True
  moreover have "digitChar 0 = CHR ''0''" by code_simp
  ultimately show ?thesis by (simp add: goItoa_small numInt_def)
next
  case False
  then have "\<not> hasPrefix ''0'' (goItoa n @ rest)"
    using goItoa_hd [of n] by (cases "goItoa n") auto
  with assms show ?thesis by (simp add: numInt_def Let_def takeWhile_digits)
qed

lemma numStop_parts: "numberStop rest \<Longrightarrow> numFrac rest = Some [] \<and> numExp rest = Some []"
  by (cases rest) (auto simp: numberStop_def numFrac_def numExp_def)

lemma parseNumber_printInt:
  assumes "numberStop rest"
  shows "parseNumber (printInt i @ rest) = Some (printInt i, rest)"
proof (cases "i < 0")
  case True
  then show ?thesis
    using numInt_goItoa [OF assms, of "nat (- i)"] numStop_parts [OF assms]
    by (simp add: parseNumber_def printInt_def numSign_def)
next
  case False
  obtain c cs where s: "goItoa (nat i) = c # cs" by (cases "goItoa (nat i)") auto
  have "isDigit c" using goItoa_digits [of c "nat i"] s by simp
  then have "numSign (goItoa (nat i) @ rest) = []" using s by (auto simp: numSign_def isDigit_def)
  then show ?thesis
    using False numInt_goItoa [OF assms, of "nat i"] numStop_parts [OF assms]
    by (simp add: parseNumber_def printInt_def)
qed

lemma parseInt64_printInt:
  assumes "- (2 ^ 63) \<le> i" and "i < 2 ^ 63"
  shows "parseInt64 (printInt i) = Some i"
proof -
  have digits: "parseUint (goItoa n) = UVal n" if "n \<le> 2 ^ 63" for n
    using that parseUintLoop_goItoa [of n] by (simp add: parseUint_def)
  obtain c cs where s: "goItoa (nat i) = c # cs" by (cases "goItoa (nat i)") auto
  have "isDigit c" using goItoa_digits [of c "nat i"] s by simp
  then have "\<not> hasPrefix ''+'' (goItoa (nat i))" "\<not> hasPrefix ''-'' (goItoa (nat i))"
    using s by (auto simp: isDigit_def)
  then show ?thesis
    using assms digits [of "nat i"] digits [of "nat (- i)"]
    by (auto simp: parseInt64_def printInt_def signedExact_def nat_le_iff)
qed

text \<open>Values whose strings are ASCII and whose numbers are integers.\<close>

fun plainJson :: "json \<Rightarrow> bool" where
  "plainJson (JNum lit) \<longleftrightarrow> lit = printInt (the (parseInt64 lit))"
| "plainJson (JStr s) \<longleftrightarrow> asciiString s"
| "plainJson (JArr vs) \<longleftrightarrow> list_all plainJson vs"
| "plainJson (JObj kvs) \<longleftrightarrow> list_all (\<lambda>(k, v). asciiString k \<and> plainJson v) kvs"
| "plainJson _ \<longleftrightarrow> True"

lemma plainJson_int: "- (2 ^ 63) \<le> i \<Longrightarrow> i < 2 ^ 63 \<Longrightarrow> plainJson (JNum (printInt i))"
  by (simp add: parseInt64_printInt)

lemma printInt_Cons:
  obtains c cs where "printInt i = c # cs" "isDigit c \<or> c = CHR ''-''"
proof -
  obtain d ds where s: "goItoa (nat i) = d # ds" by (cases "goItoa (nat i)") auto
  moreover have "isDigit d" using goItoa_digits [of d "nat i"] s by simp
  ultimately show thesis
    using that [of d ds] that [of "CHR ''-''" "goItoa (nat (- i))"] by (cases "i < 0") (auto simp: printInt_def)
qed

text \<open>The first byte of a printed value starts a value.\<close>

definition startsValue :: "string \<Rightarrow> bool" where
  "startsValue s \<longleftrightarrow> s \<noteq> [] \<and> \<not> jsonSpace (hd s) \<and> hd s \<notin> {CHR '']'', CHR ''}'', CHR '',''}"

lemma startsValue_printJson: "plainJson v \<Longrightarrow> startsValue (printJson v @ rest)"
proof (cases v)
  case (JNum lit)
  moreover assume "plainJson v"
  ultimately obtain c cs where "lit = c # cs" "isDigit c \<or> c = CHR ''-''"
    by (metis plainJson.simps(1) printInt_Cons)
  with JNum show ?thesis by (auto simp: startsValue_def jsonSpace_def isDigit_def)
qed (auto simp: startsValue_def jsonSpace_def quoteString_def)

lemma skipSpace_starts: "startsValue s \<Longrightarrow> skipSpace s = s"
  by (cases s) (auto simp: startsValue_def skipSpace_def)

definition parsesTo :: "(nat \<Rightarrow> string \<Rightarrow> ('a \<times> string) option) \<Rightarrow> string \<Rightarrow> 'a \<Rightarrow> string \<Rightarrow> bool" where
  "parsesTo p s v rest \<longleftrightarrow> (\<exists>N. \<forall>n \<ge> N. p n s = Some (v, rest))"

lemma parsesTo_SucI:
  assumes "\<exists>N. \<forall>n \<ge> N. p (Suc n) s = Some (v, rest)"
  shows "parsesTo p s v rest"
proof -
  from assms obtain N where "\<forall>n \<ge> N. p (Suc n) s = Some (v, rest)" ..
  then have "\<forall>n \<ge> Suc N. p n s = Some (v, rest)" by (metis Suc_le_D Suc_le_mono)
  then show ?thesis unfolding parsesTo_def by blast
qed

lemma listTail_simps [simp]:
  "listTail close more x (CHR '','' # q) = map_option (\<lambda>(xs, r). (x # xs, r)) (more q)"
  "listTail (CHR '']'') more x (CHR '']'' # r) = Some ([x], r)"
  "listTail (CHR ''}'') more x (CHR ''}'' # r) = Some ([x], r)"
  by (simp_all add: listTail_def skipSpace_def jsonSpace_def)

lemma parse_elems:
  assumes "\<And>v rest. v \<in> set vs \<Longrightarrow> numberStop rest \<Longrightarrow> parsesTo parseValue (printJson v @ rest) v rest"
    and "vs \<noteq> []"
  shows "parsesTo parseElems (commas (map printJson vs) @ CHR '']'' # rest) vs rest"
  using assms
proof (induction vs)
  case Nil
  then show ?case by simp
next
  case (Cons v vs)
  show ?case
  proof (cases vs)
    case Nil
    have "parsesTo parseValue (printJson v @ CHR '']'' # rest) v (CHR '']'' # rest)"
      using Cons.prems(1) by (simp add: numberStop_def isDigit_def)
    then obtain N where "\<forall>n \<ge> N. parseValue n (printJson v @ CHR '']'' # rest) = Some (v, CHR '']'' # rest)"
      unfolding parsesTo_def by blast
    with Nil show ?thesis by (intro parsesTo_SucI exI [of _ N]) (simp add: parseElems.simps(2))
  next
    case (Cons w ws)
    let ?more = "commas (map printJson vs) @ CHR '']'' # rest"
    have "parsesTo parseValue (printJson v @ CHR '','' # ?more) v (CHR '','' # ?more)"
      using Cons.prems(1) by (simp add: numberStop_def isDigit_def)
    then obtain M where M: "\<forall>n \<ge> M. parseValue n (printJson v @ CHR '','' # ?more) = Some (v, CHR '','' # ?more)"
      unfolding parsesTo_def by blast
    have "parsesTo parseElems ?more vs rest"
      using Cons.IH Cons.prems(1) \<open>vs = w # ws\<close> by simp
    then obtain N where N: "\<forall>n \<ge> N. parseElems n ?more = Some (vs, rest)"
      unfolding parsesTo_def by blast
    have "commas (map printJson (v # vs)) @ CHR '']'' # rest = printJson v @ CHR '','' # ?more"
      using Cons by simp
    with M N show ?thesis
      by (intro parsesTo_SucI exI [of _ "max M N"]) (simp add: parseElems.simps(2))
  qed
qed

lemma parseKey_quote:
  assumes "asciiString k"
  shows "parseKey (quoteString k @ CHR '':'' # rest) = Some (k, rest)"
  using parseString_quoteBytes [OF assms, of "CHR '':'' # rest"]
  by (simp add: parseKey_def quoteString_def skipSpace_def jsonSpace_def)

definition printMember :: "string \<times> json \<Rightarrow> string" where
  "printMember kv = quoteString (fst kv) @ CHR '':'' # printJson (snd kv)"

lemma parse_members:
  assumes "\<And>kv rest. kv \<in> set kvs \<Longrightarrow> numberStop rest \<Longrightarrow>
      parsesTo parseValue (printJson (snd kv) @ rest) (snd kv) rest"
    and "\<And>kv. kv \<in> set kvs \<Longrightarrow> asciiString (fst kv)" and "kvs \<noteq> []"
  shows "parsesTo parseMembers (commas (map printMember kvs) @ CHR ''}'' # rest) kvs rest"
  using assms
proof (induction kvs)
  case Nil
  then show ?case by simp
next
  case (Cons kv kvs)
  obtain k v where kv: "kv = (k, v)" by force
  have key: "parseKey (quoteString k @ CHR '':'' # q) = Some (k, q)" for q
    using Cons.prems(2) [of kv] kv by (intro parseKey_quote) simp
  have val: "parsesTo parseValue (printJson v @ q) v q" if "numberStop q" for q
    using Cons.prems(1) [of kv q] kv that by simp
  show ?case
  proof (cases kvs)
    case Nil
    from val [of "CHR ''}'' # rest"] obtain N where
      "\<forall>n \<ge> N. parseValue n (printJson v @ CHR ''}'' # rest) = Some (v, CHR ''}'' # rest)"
      unfolding parsesTo_def by (auto simp: numberStop_def isDigit_def)
    with Nil kv key show ?thesis
      by (intro parsesTo_SucI exI [of _ N]) (simp add: parseMembers.simps(2) printMember_def)
  next
    case (Cons w ws)
    let ?more = "commas (map printMember kvs) @ CHR ''}'' # rest"
    from val [of "CHR '','' # ?more"] obtain M where
      M: "\<forall>n \<ge> M. parseValue n (printJson v @ CHR '','' # ?more) = Some (v, CHR '','' # ?more)"
      unfolding parsesTo_def by (auto simp: numberStop_def isDigit_def)
    have "parsesTo parseMembers ?more kvs rest"
      using Cons.prems(1,2) \<open>kvs = w # ws\<close> by (intro Cons.IH) auto
    then obtain N where N: "\<forall>n \<ge> N. parseMembers n ?more = Some (kvs, rest)"
      unfolding parsesTo_def by blast
    have "commas (map printMember (kv # kvs)) @ CHR ''}'' # rest =
        quoteString k @ CHR '':'' # printJson v @ CHR '','' # ?more"
      using Cons kv by (simp add: printMember_def)
    with M N key kv show ?thesis
      by (intro parsesTo_SucI exI [of _ "max M N"]) (simp add: parseMembers.simps(2))
  qed
qed

text \<open>Reading a printed value gives the value and leaves the rest.\<close>

text \<open>Arrays and objects, once their elements and members parse.\<close>

lemma parse_array:
  assumes "plainJson (JArr vs)" "vs \<noteq> []" "parsesTo parseElems (commas (map printJson vs) @ CHR '']'' # rest) vs rest"
  shows "parsesTo parseValue (printJson (JArr vs) @ rest) (JArr vs) rest"
proof -
  let ?s = "commas (map printJson vs) @ CHR '']'' # rest"
  obtain N where N: "\<forall>n \<ge> N. parseElems n ?s = Some (vs, rest)" using assms(3) unfolding parsesTo_def by blast
  obtain v ws where vs: "vs = v # ws" using assms(2) by (cases vs) auto
  have "startsValue ?s"
    using startsValue_printJson [of v] assms(1) vs by (cases ws) auto
  then have "skipSpace ?s = ?s" "\<not> hasPrefix '']'' ?s"
    by (auto simp: skipSpace_starts startsValue_def hasPrefix_iff)
  then have "parseValue (Suc n) (printJson (JArr vs) @ rest) = map_option (\<lambda>(vs, r). (JArr vs, r)) (parseElems n ?s)" for n
    by (simp add: parseValue.simps(2)) (simp add: skipSpace_def jsonSpace_def)
  with N show ?thesis by (intro parsesTo_SucI exI [of _ N]) simp
qed

lemma parse_object:
  assumes "kvs \<noteq> []" "parsesTo parseMembers (commas (map printMember kvs) @ CHR ''}'' # rest) kvs rest"
  shows "parsesTo parseValue (printJson (JObj kvs) @ rest) (JObj kvs) rest"
proof -
  let ?s = "commas (map printMember kvs) @ CHR ''}'' # rest"
  obtain N where N: "\<forall>n \<ge> N. parseMembers n ?s = Some (kvs, rest)" using assms(2) unfolding parsesTo_def by blast
  obtain kv ws where kvs: "kvs = kv # ws" using assms(1) by (cases kvs) auto
  have "hd ?s = CHR 0x22" "?s \<noteq> []"
    using kvs by (cases ws; simp add: printMember_def quoteString_def)+
  then have "skipSpace ?s = ?s" "\<not> hasPrefix ''}'' ?s"
    by (cases ?s; auto simp: skipSpace_def jsonSpace_def)+
  moreover have "printJson (JObj kvs) = CHR ''{'' # commas (map printMember kvs) @ [CHR ''}'']"
    by (simp add: printMember_def [abs_def] case_prod_beta')
  ultimately have "parseValue (Suc n) (printJson (JObj kvs) @ rest) =
      map_option (\<lambda>(kvs, r). (JObj kvs, r)) (parseMembers n ?s)" for n
    by (simp add: parseValue.simps(2)) (simp add: skipSpace_def jsonSpace_def)
  with N show ?thesis by (intro parsesTo_SucI exI [of _ N]) simp
qed

lemma parse_empty:
  "parsesTo parseValue (printJson (JArr []) @ rest) (JArr []) rest"
  "parsesTo parseValue (printJson (JObj []) @ rest) (JObj []) rest"
  by (intro parsesTo_SucI, simp add: parseValue.simps(2) skipSpace_def jsonSpace_def)+

lemma parseValue_printJson:
  "plainJson v \<Longrightarrow> numberStop rest \<Longrightarrow> parsesTo parseValue (printJson v @ rest) v rest"
proof (induction v arbitrary: rest)
  case JNull
  then show ?case
    by (intro parsesTo_SucI)
      (simp add: parseValue.simps(2) parseScalar_def skipSpace_def jsonSpace_def)
next
  case (JBool b)
  then show ?case
    by (intro parsesTo_SucI)
      (simp add: parseValue.simps(2) parseScalar_def skipSpace_def jsonSpace_def)
next
  case (JNum lit)
  define i where "i = the (parseInt64 lit)"
  obtain c cs where c: "printInt i = c # cs" "isDigit c \<or> c = CHR ''-''" by (rule printInt_Cons)
  have lit: "lit = printInt i" using JNum.prems(1) by (simp add: i_def)
  have "skipSpace (c # cs @ rest) = c # cs @ rest" "c \<notin> {CHR ''['', CHR ''{'', CHR 0x22, CHR ''t'', CHR ''f'', CHR ''n''}"
    using c(2) by (auto simp: skipSpace_def jsonSpace_def isDigit_def)
  moreover have "parseNumber (c # cs @ rest) = Some (c # cs, rest)"
    using parseNumber_printInt [OF JNum.prems(2), of i] c(1) by simp
  ultimately show ?case
    unfolding lit by (intro parsesTo_SucI) (auto simp: c(1) parseValue.simps(2) parseScalar_def)
next
  case (JStr s)
  then show ?case
    using parseString_quoteBytes [of s rest]
    by (intro parsesTo_SucI)
      (simp add: parseValue.simps(2) parseScalar_def quoteString_def skipSpace_def jsonSpace_def)
next
  case (JArr vs)
  show ?case
  proof (cases "vs = []")
    case True
    then show ?thesis using parse_empty(1) by simp
  next
    case False
    with JArr show ?thesis by (intro parse_array parse_elems) (auto simp: list_all_iff)
  qed
next
  case (JObj kvs)
  have member: "parsesTo parseValue (printJson (snd kv) @ q) (snd kv) q" if "kv \<in> set kvs" "numberStop q" for kv q
  proof -
    obtain k v where "kv = (k, v)" by force
    with that JObj.prems(1) JObj.IH [of kv v q] show ?thesis by (auto simp: list_all_iff)
  qed
  show ?case
  proof (cases "kvs = []")
    case True
    then show ?thesis using parse_empty(2) by simp
  next
    case False
    with JObj.prems(1) show ?thesis by (intro parse_object parse_members member) (auto simp: list_all_iff)
  qed
qed

lemma decode_printJson:
  assumes "plainJson v"
  shows "decodeFirst (printJson v) = Inr v" and "decodeWhole (printJson v) = Inr v"
proof -
  let ?s = "printJson v"
  from parseValue_printJson [OF assms, of "[]"] obtain N where
    N: "\<forall>n \<ge> N. parseValue n ?s = Some (v, [])" by (auto simp: parsesTo_def numberStop_def)
  have "parseValue (max N (2 * length ?s + 1)) ?s = parseValue (2 * length ?s + 1) ?s"
    by (rule parseValue_fuel) simp_all
  with N have "parseValue (2 * length ?s + 1) ?s = Some (v, [])" by simp
  moreover have "skipSpace ?s \<noteq> []"
    using startsValue_printJson [OF assms, of "[]"] skipSpace_starts by (auto simp: startsValue_def)
  ultimately show "decodeFirst ?s = Inr v" "decodeWhole ?s = Inr v"
    by (simp_all add: decodeFirst_def decodeWhole_def skipSpace_def)
qed

declare printJson.simps [simp del]

text \<open>So a struct decodes from what was printed as from the value.\<close>

lemma decodeBody_print: "plainJson v \<Longrightarrow> decodeBody fs r (printJson v) = bindStruct fs v r"
  by (simp add: decodeBody_def decode_printJson)

lemma bindStruct_obj [simp]: "bindStruct fs (JObj kvs) r = fold (bindMember fs) kvs (None, r)"
  by (simp add: bindStruct_def)

lemmas bind_simps = bindMember_def selectField_def strField_def intField_def boolField_def

text \<open>Machine integers, which always fit.\<close>

lemma sint64_bounds: "- (2 ^ 63) \<le> sint (w :: int64) \<and> sint w < 2 ^ 63"
  using sint_greater_eq [of w] sint_less [of w] by simp

lemma plainJson_sint: "plainJson (JNum (printInt (sint (w :: int64))))"
  using sint64_bounds [of w] by (intro plainJson_int) auto

lemma parseInt64_sint [simp]: "parseInt64 (printInt (sint (w :: int64))) = Some (sint w)"
  using sint64_bounds [of w] by (intro parseInt64_printInt) auto

lemma intField_sint [simp]:
  "intField 64 upd (JNum (printInt (sint (w :: int64)))) r = (None, upd (sint w) r)"
  using sint64_bounds [of w] by (simp add: intField_def)

lemma sint32_bounds: "- (2 ^ 31) \<le> sint (v :: 32 word) \<and> sint v < 2 ^ 31"
  using sint_greater_eq [of v] sint_less [of v] by simp

lemma plainJson_sint32: "plainJson (JNum (printInt (sint (v :: 32 word))))"
  using sint32_bounds [of v] by (intro plainJson_int) auto

lemma intField_sint32 [simp]:
  "intField 32 upd (JNum (printInt (sint (v :: 32 word)))) r = (None, upd (sint v) r)"
  using sint32_bounds [of v] parseInt64_printInt [of "sint v"] by (simp add: intField_def)

end
