(* ===== verification/GoHttp.thy ===== *)
theory GoHttp
  imports GoStd
begin

text \<open>
  The parts of \<open>net/http\<close> the handlers use: header maps with canonical keys, the request and
  response values, and the \<open>ResponseWriter\<close>, whose first \<open>WriteHeader\<close> (explicit, or implied by
  the first \<open>Write\<close>) fixes the status and the headers that are sent.
\<close>

section \<open>Headers\<close>

type_synonym header = "(string \<times> string list) list"

definition upperChar :: "char \<Rightarrow> char" where
  "upperChar c = (let n = of_char c :: nat in if 97 \<le> n \<and> n \<le> 122 then char_of (n - 32) else c)"

definition lowerChar :: "char \<Rightarrow> char" where
  "lowerChar c = (let n = of_char c :: nat in if 65 \<le> n \<and> n \<le> 90 then char_of (n + 32) else c)"

definition validHeaderByte :: "char \<Rightarrow> bool" where
  "validHeaderByte c =
     (let n = of_char c :: nat
      in (48 \<le> n \<and> n \<le> 57) \<or> (65 \<le> n \<and> n \<le> 90) \<or> (97 \<le> n \<and> n \<le> 122)
         \<or> c \<in> set ''!#$%&*+-.^_|~'' \<or> n = 39 \<or> n = 96)"

fun canonicalBytes :: "bool \<Rightarrow> string \<Rightarrow> string" where
  "canonicalBytes up [] = []"
| "canonicalBytes up (c # cs) =
     (if up then upperChar c else lowerChar c) # canonicalBytes (c = CHR ''-'') cs"

text \<open>\<open>http.CanonicalHeaderKey\<close>: a key with a byte that is not a token byte stays as it is.\<close>

definition canonicalKey :: "string \<Rightarrow> string" where
  "canonicalKey k = (if list_all validHeaderByte k then canonicalBytes True k else k)"

definition headerGet :: "header \<Rightarrow> string \<Rightarrow> string" where
  "headerGet h k = (case map_of h (canonicalKey k) of Some (v # _) \<Rightarrow> v | _ \<Rightarrow> [])"

fun headerUpd :: "string \<Rightarrow> (string list \<Rightarrow> string list) \<Rightarrow> header \<Rightarrow> header" where
  "headerUpd k f [] = [(k, f [])]"
| "headerUpd k f ((k', vs) # h) = (if k = k' then (k', f vs) # h else (k', vs) # headerUpd k f h)"

definition headerAdd :: "string \<Rightarrow> string \<Rightarrow> header \<Rightarrow> header" where
  "headerAdd k v h = headerUpd (canonicalKey k) (\<lambda>vs. vs @ [v]) h"

definition headerSet :: "string \<Rightarrow> string \<Rightarrow> header \<Rightarrow> header" where
  "headerSet k v h = headerUpd (canonicalKey k) (\<lambda>_. [v]) h"

text \<open>All the values of a key, the empty list for a missing one.\<close>

definition headerValues :: "header \<Rightarrow> string \<Rightarrow> string list" where
  "headerValues h k = (case map_of h k of None \<Rightarrow> [] | Some vs \<Rightarrow> vs)"

lemma headerValues_Nil [simp]: "headerValues [] k = []"
  by (simp add: headerValues_def)

lemma headerValues_upd:
  "headerValues (headerUpd k f h) k' = (if k' = k then f (headerValues h k) else headerValues h k')"
  by (induction k f h rule: headerUpd.induct) (auto simp: headerValues_def)

lemma headerValues_add:
  "headerValues (headerAdd k v h) k' =
     headerValues h k' @ (if k' = canonicalKey k then [v] else [])"
  by (simp add: headerAdd_def headerValues_upd)

lemma headerGet_headerSet:
  "headerGet (headerSet k v h) k' = (if canonicalKey k' = canonicalKey k then v else headerGet h k')"
proof -
  have "map_of (headerUpd c f h) c' = (if c' = c then Some (f (case map_of h c of None \<Rightarrow> [] | Some vs \<Rightarrow> vs))
      else map_of h c')" for c c' f
    by (induction c f h rule: headerUpd.induct) auto
  then show ?thesis by (simp add: headerGet_def headerSet_def)
qed

text \<open>The loop \<open>for key, values := range src { for _, v := range values { dst.Add(key, v) } }\<close>.\<close>

definition copyHeader :: "header \<Rightarrow> header \<Rightarrow> header" where
  "copyHeader src dst = fold (\<lambda>(k, vs) d. fold (headerAdd k) vs d) src dst"

lemma headerValues_fold_add:
  "headerValues (fold (headerAdd k) vs h) k' =
     headerValues h k' @ (if k' = canonicalKey k then vs else [])"
  by (induction vs arbitrary: h) (auto simp: headerValues_add)

lemma headerValues_copyHeader:
  "headerValues (copyHeader src dst) k =
     headerValues dst k @ concat (map snd (filter (\<lambda>(k', _). canonicalKey k' = k) src))"
  unfolding copyHeader_def
  by (induction src arbitrary: dst) (auto simp: headerValues_fold_add)

text \<open>A header as a server or a client of \<open>net/http\<close> builds it: canonical keys, each once.\<close>

definition canonicalHeader :: "header \<Rightarrow> bool" where
  "canonicalHeader h \<longleftrightarrow> distinct (map fst h) \<and> list_all (\<lambda>(k, _). canonicalKey k = k) h"

lemma filter_key_values:
  "distinct (map fst h) \<Longrightarrow>
     concat (map snd (filter (\<lambda>(k', _). k' = k) h)) = headerValues h k"
proof (induction h)
  case Nil
  then show ?case by simp
next
  case (Cons p h)
  obtain k' vs where p: "p = (k', vs)" by force
  show ?case
  proof (cases "k' = k")
    case True
    with Cons.prems p have "k \<notin> fst ` set h" by auto
    then have "filter (\<lambda>(k', _). k' = k) h = []"
      by (force simp: filter_empty_conv)
    with True p show ?thesis by (simp add: headerValues_def)
  next
    case False
    with Cons p show ?thesis by (simp add: headerValues_def)
  qed
qed

lemma copyHeader_canonical:
  assumes "canonicalHeader src"
  shows "headerValues (copyHeader src dst) k = headerValues dst k @ headerValues src k"
proof -
  have "filter (\<lambda>(k', _). canonicalKey k' = k) src = filter (\<lambda>(k', _). k' = k) src"
    using assms by (intro filter_cong) (auto simp: canonicalHeader_def list_all_iff)
  then show ?thesis
    using assms by (simp add: headerValues_copyHeader filter_key_values canonicalHeader_def)
qed

section \<open>Requests and responses\<close>

text \<open>
  A \<open>url.URL\<close> keeps the two fields the balancer rewrites; the rest (user, path, query,
  fragment) is one opaque value. The values the sources put in the request's context are
  fields: the cache hash, the only-if-cached flag, and the name the authentication
  middleware stores. \<open>reqBodyClosed\<close> says that the body has been closed, as the HTTP client does
  with the body of every request it sends.
\<close>

record url =
  urlScheme :: string
  urlHost :: string
  urlRest :: string

record request =
  reqMethod :: string
  reqProto :: string
  reqHost :: string
  reqURI :: string
  reqURL :: url
  reqHeader :: header
  reqBody :: bytes
  reqBodyClosed :: bool
  ctxHash :: "bytes option"
  ctxOnlyIfCached :: "bool option"
  ctxUser :: "string option"

record response =
  respStatus :: nat
  respHeader :: header
  respBody :: bytes

section \<open>ResponseWriter\<close>

record rwriter =
  rwHeader :: header
  rwStatus :: "nat option"
  rwSent :: header
  rwBody :: bytes

definition newWriter :: rwriter where
  "newWriter = \<lparr>rwHeader = [], rwStatus = None, rwSent = [], rwBody = []\<rparr>"

definition writeHeader :: "nat \<Rightarrow> rwriter \<Rightarrow> rwriter" where
  "writeHeader code rw =
     (case rwStatus rw of
        None \<Rightarrow> rw\<lparr>rwStatus := Some code, rwSent := rwHeader rw\<rparr>
      | Some _ \<Rightarrow> rw)"

text \<open>
  \<open>rw.Write\<close>: the first call sends the header with status 200. The connection may be gone;
  \<open>fault\<close> is the error the write returns then.
\<close>

definition writeBody :: "goerror option \<Rightarrow> bytes \<Rightarrow> rwriter \<Rightarrow> goerror option \<times> rwriter" where
  "writeBody fault bs rw =
     (let rw = writeHeader 200 rw
      in case fault of
           Some e \<Rightarrow> (Some e, rw)
         | None \<Rightarrow> (None, rw\<lparr>rwBody := rwBody rw @ bs\<rparr>))"

definition setHeader :: "string \<Rightarrow> string \<Rightarrow> rwriter \<Rightarrow> rwriter" where
  "setHeader k v rw = rw\<lparr>rwHeader := headerSet k v (rwHeader rw)\<rparr>"

text \<open>\<open>http.Error\<close>: plain text headers, the status, the message and a newline.\<close>

definition httpErrorTo :: "goerror option \<Rightarrow> string \<Rightarrow> nat \<Rightarrow> rwriter \<Rightarrow> rwriter" where
  "httpErrorTo fault msg code rw =
     snd (writeBody fault (msg @ [CHR 0x0A])
       (writeHeader code
         (setHeader ''X-Content-Type-Options'' ''nosniff''
           (setHeader ''Content-Type'' ''text/plain; charset=utf-8'' rw))))"

definition httpError :: "string \<Rightarrow> nat \<Rightarrow> rwriter \<Rightarrow> rwriter" where
  "httpError msg code rw = httpErrorTo None msg code rw"

lemma rwStatus_writeHeader:
  "rwStatus (writeHeader c rw) = (case rwStatus rw of None \<Rightarrow> Some c | Some s \<Rightarrow> Some s)"
  by (simp add: writeHeader_def split: option.split)

lemma rwStatus_writeBody:
  "rwStatus (snd (writeBody f bs rw)) = (case rwStatus rw of None \<Rightarrow> Some 200 | Some s \<Rightarrow> Some s)"
  by (simp add: writeBody_def Let_def rwStatus_writeHeader split: option.split)

lemma rwStatus_setHeader [simp]: "rwStatus (setHeader k v rw) = rwStatus rw"
  by (simp add: setHeader_def)

lemma rwStatus_httpError:
  "rwStatus (httpError m c rw) = (case rwStatus rw of None \<Rightarrow> Some c | Some s \<Rightarrow> Some s)"
  by (simp add: httpError_def httpErrorTo_def rwStatus_writeBody rwStatus_writeHeader split: option.split)

lemma writeHeader_sent_fixed:
  "rwStatus rw = Some s \<Longrightarrow> writeHeader c rw = rw"
  by (simp add: writeHeader_def)

lemma rwBody_writeHeader [simp]: "rwBody (writeHeader c rw) = rwBody rw"
  by (simp add: writeHeader_def split: option.split)

lemma rwBody_setHeader [simp]: "rwBody (setHeader k v rw) = rwBody rw"
  by (simp add: setHeader_def)

lemma rwBody_httpError: "rwBody (httpError m c rw) = rwBody rw @ m @ [CHR 0x0A]"
  by (simp add: httpError_def httpErrorTo_def writeBody_def Let_def)

end
