(* ===== verification/Backend.thy ===== *)
theory Backend
  imports GoHttp
begin

text \<open>
  Package \<open>backend\<close>: the backends (\<open>backend/backend.go\<close>) and the server pool with its
  round-robin cursor (\<open>backend/serverPool.go\<close>). Backends are shared by pointer between the pool,
  the health checker and the handlers in flight, so the pool's state carries the backends ever
  created, \<open>backends\<close>, and \<open>servers\<close> lists positions in it. A backend's request channel is its
  number of queued items and its capacity. The \<open>current\<close> index is an \<open>int32\<close>. Parsing and
  printing a URL is \<open>net/url\<close>'s, an argument \<open>U\<close> of the operations that use it.
\<close>

section \<open>Backends\<close>

type_synonym int32 = "32 word"

record Backend =
  bUrl :: url
  healthCheckTcpTimeout :: int64
  alive :: bool
  inFlight :: nat
  maximalRequests :: nat

record ServerConfig =
  scURL :: string
  scHealthCheckTcpTimeout :: int64
  scMaximalRequests :: int32

record urlLib =
  urlParse :: "string \<Rightarrow> goerror + url"
  urlString :: "url \<Rightarrow> string"

text \<open>\<open>make(chan bool, maxRequests)\<close> panics on a negative size.\<close>

definition NewBackend :: "url \<Rightarrow> int64 \<Rightarrow> int32 \<Rightarrow> Backend res" where
  "NewBackend u timeout maxRequests =
     (if sint maxRequests < 0 then Panic ''makechan: size out of range''
      else Ok \<lparr>bUrl = u, healthCheckTcpTimeout = timeout, alive = False, inFlight = 0,
               maximalRequests = nat (sint maxRequests)\<rparr>)"

text \<open>\<open>nil\<close> (here \<open>Ok None\<close>) when the URL does not parse.\<close>

definition NewBackendConfig :: "urlLib \<Rightarrow> ServerConfig \<Rightarrow> Backend option res" where
  "NewBackendConfig U server =
     (case urlParse U (scURL server) of
        Inl e \<Rightarrow> Ok None
      | Inr u \<Rightarrow>
          (case NewBackend u (scHealthCheckTcpTimeout server * 1000000) (scMaximalRequests server) of
             Ok b \<Rightarrow> Ok (Some b)
           | Err e \<Rightarrow> Err e
           | Panic m \<Rightarrow> Panic m))"

text \<open>
  \<open>AssignRequest\<close> sends into the channel unless it stays full for the 100 ms of the timer. The
  operation is one atomic step here: the send happens when there is room at the moment the
  select is decided, and the timer wins when there is none.
\<close>

definition AssignRequest :: "Backend \<Rightarrow> bool \<times> Backend" where
  "AssignRequest b =
     (if inFlight b < maximalRequests b then (True, b\<lparr>inFlight := Suc (inFlight b)\<rparr>)
      else (False, b))"

definition Free :: "Backend \<Rightarrow> bool \<times> Backend" where
  "Free b = (if 0 < inFlight b then (True, b\<lparr>inFlight := inFlight b - 1\<rparr>) else (False, b))"

text \<open>\<open>CheckIfAlive\<close>: a TCP dial to the host within the backend's timeout.\<close>

definition CheckIfAlive :: "(string \<Rightarrow> int64 \<Rightarrow> bool) \<Rightarrow> Backend \<Rightarrow> bool" where
  "CheckIfAlive dial b = dial (urlHost (bUrl b)) (healthCheckTcpTimeout b)"

section \<open>The server pool\<close>

record ServerPool =
  backends :: "Backend list"
  servers :: "nat list"
  current :: int32

definition NewServerPool :: ServerPool where
  "NewServerPool = \<lparr>backends = [], servers = [], current = -1\<rparr>"

definition backendAt :: "ServerPool \<Rightarrow> nat \<Rightarrow> Backend" where
  "backendAt p i = backends p ! i"

definition updBackend :: "nat \<Rightarrow> (Backend \<Rightarrow> Backend) \<Rightarrow> ServerPool \<Rightarrow> ServerPool" where
  "updBackend i f p = p\<lparr>backends := (backends p)[i := f (backendAt p i)]\<rparr>"

definition SetAlive :: "nat \<Rightarrow> bool \<Rightarrow> ServerPool \<Rightarrow> ServerPool" where
  "SetAlive i v p = updBackend i (\<lambda>b. b\<lparr>alive := v\<rparr>) p"

definition AddServer :: "Backend \<Rightarrow> ServerPool \<Rightarrow> ServerPool" where
  "AddServer b p =
     p\<lparr>backends := backends p @ [b], servers := servers p @ [length (backends p)]\<rparr>"

fun ConfigureServerPool :: "urlLib \<Rightarrow> ServerConfig list \<Rightarrow> ServerPool \<Rightarrow> ServerPool res" where
  "ConfigureServerPool U [] p = Ok p"
| "ConfigureServerPool U (s # ss) p =
     (case NewBackendConfig U s of
        Ok (Some b) \<Rightarrow> ConfigureServerPool U ss (AddServer b p)
      | Ok None \<Rightarrow> ConfigureServerPool U ss p
      | Err e \<Rightarrow> Err e
      | Panic m \<Rightarrow> Panic m)"

definition serverURL :: "urlLib \<Rightarrow> ServerPool \<Rightarrow> nat \<Rightarrow> string" where
  "serverURL U p i = urlString U (bUrl (backendAt p i))"

definition FindServerByUrl :: "urlLib \<Rightarrow> string \<Rightarrow> ServerPool \<Rightarrow> nat option" where
  "FindServerByUrl U u p = find (\<lambda>i. serverURL U p i = u) (servers p)"

fun removeFirst :: "('a \<Rightarrow> bool) \<Rightarrow> 'a list \<Rightarrow> 'a list option" where
  "removeFirst P [] = None"
| "removeFirst P (x # xs) = (if P x then Some xs else map_option ((#) x) (removeFirst P xs))"

definition RemoveServerByUrl :: "urlLib \<Rightarrow> string \<Rightarrow> ServerPool \<Rightarrow> goerror option \<times> ServerPool" where
  "RemoveServerByUrl U u p =
     (case removeFirst (\<lambda>i. serverURL U p i = u) (servers p) of
        Some ss \<Rightarrow> (None, p\<lparr>servers := ss\<rparr>)
      | None \<Rightarrow> (Some (ErrMsg ''server not found''), p))"

definition ServersURLs :: "urlLib \<Rightarrow> ServerPool \<Rightarrow> string list" where
  "ServersURLs U p = map (serverURL U p) (servers p)"

definition IncrementCurrent :: "ServerPool \<Rightarrow> ServerPool" where
  "IncrementCurrent p =
     (let c = current p + 1
      in if sint (of_nat (length (servers p)) :: int32) \<le> sint c then p\<lparr>current := 0\<rparr>
         else p\<lparr>current := c\<rparr>)"

definition DecrementCurrent :: "ServerPool \<Rightarrow> ServerPool" where
  "DecrementCurrent p =
     (let c = current p - 1
      in if sint c \<le> 0 then p\<lparr>current := of_nat (length (servers p)) - 1\<rparr>
         else p\<lparr>current := c\<rparr>)"

text \<open>Indexing a slice with an \<open>int32\<close>: out of range is a panic.\<close>

definition goIndex :: "'a list \<Rightarrow> int32 \<Rightarrow> 'a res" where
  "goIndex xs i =
     (if 0 \<le> sint i \<and> sint i < int (length xs) then Ok (xs ! nat (sint i))
      else Panic ''index out of range'')"

definition GetCurrentServer :: "ServerPool \<Rightarrow> nat res" where
  "GetCurrentServer p = goIndex (servers p) (current p)"

text \<open>The loop of \<open>GetNextPeer\<close> with the number of iterations left; \<open>sl\<close> is the slice the
  function read before the loop.\<close>

fun getNextPeerLoop :: "nat \<Rightarrow> nat list \<Rightarrow> ServerPool \<Rightarrow> nat res \<times> ServerPool" where
  "getNextPeerLoop 0 sl p = (Err (ErrMsg ''all backends are turned down''), p)"
| "getNextPeerLoop (Suc i) sl p =
     (let p = IncrementCurrent p
      in case goIndex sl (current p) of
           Ok b \<Rightarrow> if alive (backendAt p b) then (GetCurrentServer p, p) else getNextPeerLoop i sl p
         | Err e \<Rightarrow> (Err e, p)
         | Panic m \<Rightarrow> (Panic m, p))"

definition GetNextPeer :: "ServerPool \<Rightarrow> nat res \<times> ServerPool" where
  "GetNextPeer p = getNextPeerLoop (length (servers p)) (servers p) p"

text \<open>The same operations on a backend of the pool.\<close>

definition assignAt :: "nat \<Rightarrow> ServerPool \<Rightarrow> bool \<times> ServerPool" where
  "assignAt i p =
     (fst (AssignRequest (backendAt p i)), updBackend i (\<lambda>b. snd (AssignRequest b)) p)"

definition freeAt :: "nat \<Rightarrow> ServerPool \<Rightarrow> bool \<times> ServerPool" where
  "freeAt i p = (fst (Free (backendAt p i)), updBackend i (\<lambda>b. snd (Free b)) p)"

section \<open>The pool's invariant\<close>

text \<open>
  Every listed server points at a backend, there are fewer servers than \<open>int32\<close> can count, and
  the cursor is at least -1 and can be incremented without wrapping. Removing a server may leave
  the cursor past the end of the list, so being in range is not part of it.
\<close>

definition pool_ok :: "ServerPool \<Rightarrow> bool" where
  "pool_ok p \<longleftrightarrow>
     list_all (\<lambda>i. i < length (backends p)) (servers p) \<and> length (servers p) < 2 ^ 31 \<and>
     - 1 \<le> sint (current p) \<and> sint (current p) < 2 ^ 31 - 1"

lemma sint_of_nat32: "n < 2 ^ 31 \<Longrightarrow> sint (of_nat n :: int32) = int n"
  by (simp add: signed_of_nat signed_take_bit_int_eq_self)

lemma sint_plus1_32:
  fixes c :: int32
  assumes "- 1 \<le> sint c" and "sint c < 2 ^ 31 - 1"
  shows "sint (c + 1) = sint c + 1"
proof -
  have "sint (of_int (sint c + 1) :: int32) = sint c + 1"
    using assms by (simp only: signed_of_int) (simp add: signed_take_bit_int_eq_self)
  then show ?thesis by simp
qed

lemma pool_ok_new: "pool_ok NewServerPool"
  by (simp add: pool_ok_def NewServerPool_def)

lemma updBackend_simps [simp]:
  "servers (updBackend i f p) = servers p"
  "current (updBackend i f p) = current p"
  "length (backends (updBackend i f p)) = length (backends p)"
  by (simp_all add: updBackend_def)

lemma backendAt_updBackend:
  "i < length (backends p) \<Longrightarrow>
     backendAt (updBackend i f p) j = (if j = i then f (backendAt p i) else backendAt p j)"
  by (simp add: backendAt_def updBackend_def nth_list_update)

lemma pool_ok_updBackend [simp]: "pool_ok (updBackend i f p) = pool_ok p"
  by (simp add: pool_ok_def)

lemma pool_ok_SetAlive [simp]: "pool_ok (SetAlive i v p) = pool_ok p"
  by (simp add: SetAlive_def)

lemma pool_ok_AddServer:
  "pool_ok p \<Longrightarrow> Suc (length (servers p)) < 2 ^ 31 \<Longrightarrow> pool_ok (AddServer b p)"
  by (auto simp: pool_ok_def AddServer_def list_all_iff less_Suc_eq)

lemma removeFirst_Some:
  "removeFirst P xs = Some ys \<Longrightarrow>
     \<exists>pre x post. xs = pre @ x # post \<and> ys = pre @ post \<and> P x \<and> list_all (\<lambda>z. \<not> P z) pre"
proof (induction xs arbitrary: ys)
  case Nil
  then show ?case by simp
next
  case (Cons x xs)
  show ?case
  proof (cases "P x")
    case True
    with Cons.prems show ?thesis by (intro exI [of _ "[]"]) auto
  next
    case False
    with Cons.prems obtain zs where "removeFirst P xs = Some zs" and "ys = x # zs" by auto
    with Cons.IH obtain pre y post where
      "xs = pre @ y # post" "zs = pre @ post" "P y" "list_all (\<lambda>z. \<not> P z) pre"
      by blast
    with False \<open>ys = x # zs\<close> show ?thesis
      by (intro exI [of _ "x # pre"] exI [of _ y] exI [of _ post]) auto
  qed
qed

lemma removeFirst_None: "removeFirst P xs = None \<longleftrightarrow> list_all (\<lambda>z. \<not> P z) xs"
  by (induction xs) auto

lemma pool_ok_RemoveServerByUrl:
  "pool_ok p \<Longrightarrow> pool_ok (snd (RemoveServerByUrl U u p))"
  by (auto simp: RemoveServerByUrl_def pool_ok_def split: option.split dest!: removeFirst_Some)

section \<open>The cursor and the cyclic order\<close>

text \<open>
  Where the next call starts looking, and the servers in the order it looks at them. The pool
  seen this way is a queue: \<open>GetNextPeer\<close> takes its first living element to the back.
\<close>

definition startPos :: "ServerPool \<Rightarrow> nat" where
  "startPos p =
     (let c = sint (current p) + 1 in if int (length (servers p)) \<le> c then 0 else nat c)"

definition pollOrder :: "ServerPool \<Rightarrow> nat list" where
  "pollOrder p = rotate (startPos p) (servers p)"

definition isLive :: "ServerPool \<Rightarrow> nat \<Rightarrow> bool" where
  "isLive p i = alive (backendAt p i)"

definition liveOrder :: "ServerPool \<Rightarrow> nat list" where
  "liveOrder p = filter (isLive p) (pollOrder p)"

lemma isLive_cong: "backends p' = backends p \<Longrightarrow> isLive p' = isLive p"
  by (simp add: isLive_def backendAt_def fun_eq_iff)

lemma startPos_less: "pool_ok p \<Longrightarrow> servers p \<noteq> [] \<Longrightarrow> startPos p < length (servers p)"
  by (auto simp: startPos_def Let_def pool_ok_def)

lemma set_pollOrder [simp]: "set (pollOrder p) = set (servers p)"
  by (simp add: pollOrder_def)

lemma length_pollOrder [simp]: "length (pollOrder p) = length (servers p)"
  by (simp add: pollOrder_def)

lemma IncrementCurrent_simps [simp]:
  "servers (IncrementCurrent p) = servers p" "backends (IncrementCurrent p) = backends p"
  by (simp_all add: IncrementCurrent_def Let_def)

lemma IncrementCurrent_current:
  assumes "pool_ok p"
  shows "sint (current (IncrementCurrent p)) =
    (if servers p = [] then 0 else int (startPos p))"
  using assms
  by (auto simp: IncrementCurrent_def Let_def startPos_def pool_ok_def sint_of_nat32 sint_plus1_32)

lemma pool_ok_IncrementCurrent:
  assumes "pool_ok p"
  shows "pool_ok (IncrementCurrent p)"
proof -
  have "0 \<le> sint (current (IncrementCurrent p))"
    and "sint (current (IncrementCurrent p)) < 2 ^ 31 - 1"
    using IncrementCurrent_current [OF assms] startPos_less [OF assms] assms
    by (auto simp: pool_ok_def)
  with assms show ?thesis by (simp add: pool_ok_def)
qed

lemma pollOrder_IncrementCurrent:
  assumes "pool_ok p"
  shows "pollOrder (IncrementCurrent p) = rotate1 (pollOrder p)"
proof (cases "servers p = []")
  case True
  then show ?thesis by (simp add: pollOrder_def)
next
  case False
  let ?n = "length (servers p)"
  have cur: "sint (current (IncrementCurrent p)) = int (startPos p)"
    using IncrementCurrent_current [OF assms] False by simp
  have less: "startPos p < ?n" using startPos_less [OF assms False] .
  then have "startPos (IncrementCurrent p) = Suc (startPos p) mod ?n"
    unfolding startPos_def [of "IncrementCurrent p"] cur
    by (cases "Suc (startPos p) = ?n") (auto simp: Let_def nat_add_distrib)
  then have "pollOrder (IncrementCurrent p) = rotate (Suc (startPos p) mod ?n) (servers p)"
    by (simp add: pollOrder_def)
  also have "\<dots> = rotate (Suc (startPos p)) (servers p)"
    by (rule rotate_conv_mod [symmetric])
  finally show ?thesis by (simp add: pollOrder_def)
qed

lemma hd_pollOrder:
  assumes "pool_ok p" and "servers p \<noteq> []"
  shows "goIndex (servers p) (current (IncrementCurrent p)) = Ok (hd (pollOrder p))"
proof -
  have "hd (pollOrder p) = servers p ! startPos p"
    using assms startPos_less [OF assms] by (simp add: pollOrder_def hd_rotate_conv_nth)
  then show ?thesis
    using IncrementCurrent_current [OF assms(1)] assms startPos_less [OF assms]
    by (simp add: goIndex_def)
qed

lemma isLive_IncrementCurrent [simp]: "isLive (IncrementCurrent p) = isLive p"
  by (rule isLive_cong) simp

text \<open>One call of the loop, with \<open>i\<close> servers left to look at, in terms of the cyclic order.\<close>

lemma getNextPeerLoop_dead:
  "pool_ok p \<Longrightarrow> i \<le> length (servers p) \<Longrightarrow> \<forall>x \<in> set (take i (pollOrder p)). \<not> isLive p x \<Longrightarrow>
     \<exists>p'. getNextPeerLoop i (servers p) p = (Err (ErrMsg ''all backends are turned down''), p') \<and>
       pool_ok p' \<and> servers p' = servers p \<and> backends p' = backends p \<and>
       pollOrder p' = rotate i (pollOrder p)"
proof (induction i arbitrary: p)
  case 0
  then show ?case by auto
next
  case (Suc i)
  let ?q = "IncrementCurrent p"
  have ne: "servers p \<noteq> []" using Suc.prems by auto
  then obtain y zs where ord: "pollOrder p = y # zs"
    by (metis length_pollOrder length_0_conv neq_Nil_conv)
  have len: "i \<le> length zs" using Suc.prems(2) ord length_pollOrder [of p] by simp
  have idx: "goIndex (servers p) (current ?q) = Ok y"
    using hd_pollOrder [OF Suc.prems(1) ne] ord by simp
  have dead: "\<not> alive (backendAt ?q y)"
    using Suc.prems(3) ord by (simp add: isLive_def backendAt_def)
  have ok: "pool_ok ?q" using Suc.prems(1) by (rule pool_ok_IncrementCurrent)
  have ordq: "pollOrder ?q = zs @ [y]"
    using pollOrder_IncrementCurrent [OF Suc.prems(1)] ord by simp
  have "\<forall>x \<in> set (take i (pollOrder ?q)). \<not> isLive ?q x"
    using Suc.prems(3) ord len ordq by simp
  with Suc.IH [of ?q] ok Suc.prems(2) obtain p' where
    "getNextPeerLoop i (servers p) ?q = (Err (ErrMsg ''all backends are turned down''), p')"
    "pool_ok p'" "servers p' = servers p" "backends p' = backends p"
    "pollOrder p' = rotate i (zs @ [y])"
    using ordq by auto
  then show ?case
    using idx dead ord by (simp add: Let_def rotate1_rotate_swap)
qed

lemma getNextPeerLoop_live:
  "pool_ok p \<Longrightarrow> i \<le> length (servers p) \<Longrightarrow> length pre < i \<Longrightarrow>
     pollOrder p = pre @ x # post \<Longrightarrow> \<forall>z \<in> set pre. \<not> isLive p z \<Longrightarrow> isLive p x \<Longrightarrow>
     \<exists>p'. getNextPeerLoop i (servers p) p = (Ok x, p') \<and>
       pool_ok p' \<and> servers p' = servers p \<and> backends p' = backends p \<and>
       pollOrder p' = post @ pre @ [x]"
proof (induction i arbitrary: p pre post)
  case 0
  then show ?case by simp
next
  case (Suc i)
  let ?q = "IncrementCurrent p"
  have ne: "servers p \<noteq> []" using Suc.prems(2) by auto
  have idx: "goIndex (servers p) (current ?q) = Ok (hd (pollOrder p))"
    using hd_pollOrder [OF Suc.prems(1) ne] .
  have ok: "pool_ok ?q" using Suc.prems(1) by (rule pool_ok_IncrementCurrent)
  have ordq: "pollOrder ?q = rotate1 (pollOrder p)"
    using pollOrder_IncrementCurrent [OF Suc.prems(1)] .
  show ?case
  proof (cases pre)
    case Nil
    with Suc.prems have "alive (backendAt ?q x)" by (simp add: isLive_def backendAt_def)
    then show ?thesis
      using idx ok ordq Suc.prems(4) Nil by (simp add: Let_def GetCurrentServer_def)
  next
    case (Cons y ys)
    with Suc.prems have "\<not> alive (backendAt ?q y)" by (simp add: isLive_def backendAt_def)
    moreover have "\<exists>p'. getNextPeerLoop i (servers ?q) ?q = (Ok x, p') \<and>
       pool_ok p' \<and> servers p' = servers ?q \<and> backends p' = backends ?q \<and>
       pollOrder p' = (post @ [y]) @ ys @ [x]"
      by (rule Suc.IH [OF ok]) (use Suc.prems ordq Cons in auto)
    ultimately show ?thesis
      using idx Suc.prems(4) Cons by (simp add: Let_def)
  qed
qed

text \<open>The whole call: the first living server in the cyclic order, which goes to the back.\<close>

lemma GetNextPeer_cases:
  assumes "pool_ok p"
  shows "(liveOrder p = [] \<and> (\<exists>p'. GetNextPeer p = (Err (ErrMsg ''all backends are turned down''), p')
            \<and> pool_ok p' \<and> servers p' = servers p \<and> backends p' = backends p
            \<and> pollOrder p' = pollOrder p))
       \<or> (\<exists>x xs p'. liveOrder p = x # xs \<and> GetNextPeer p = (Ok x, p')
            \<and> pool_ok p' \<and> servers p' = servers p \<and> backends p' = backends p
            \<and> liveOrder p' = xs @ [x])"
proof (cases "liveOrder p")
  case Nil
  then have "\<forall>x \<in> set (take (length (servers p)) (pollOrder p)). \<not> isLive p x"
    by (simp add: liveOrder_def filter_empty_conv)
  from getNextPeerLoop_dead [OF assms _ this] Nil show ?thesis
    by (auto simp: GetNextPeer_def intro!: rotate_id)
next
  case (Cons x xs)
  then have "filter (isLive p) (pollOrder p) = x # xs" by (simp add: liveOrder_def)
  then obtain pre post where ord: "pollOrder p = pre @ x # post"
    and dead: "\<forall>z \<in> set pre. \<not> isLive p z" and "isLive p x" "xs = filter (isLive p) post"
    by (auto simp: filter_eq_Cons_iff)
  have "length pre < length (servers p)" using arg_cong [OF ord, of length] by simp
  from getNextPeerLoop_live [OF assms order_refl this ord dead \<open>isLive p x\<close>] obtain p' where
    p': "GetNextPeer p = (Ok x, p')" "pool_ok p'" "servers p' = servers p"
    "backends p' = backends p" "pollOrder p' = post @ pre @ [x]"
    by (auto simp: GetNextPeer_def)
  have "isLive p' = isLive p" using p'(4) by (rule isLive_cong)
  then have "liveOrder p' = xs @ [x]"
    using p'(5) dead \<open>isLive p x\<close> \<open>xs = _\<close> by (simp add: liveOrder_def)
  with p' Cons show ?thesis by blast
qed

lemma GetNextPeer_frame:
  assumes "pool_ok p"
  shows "pool_ok (snd (GetNextPeer p))" and "servers (snd (GetNextPeer p)) = servers p"
    and "backends (snd (GetNextPeer p)) = backends p"
  using GetNextPeer_cases [OF assms] by auto

lemma set_liveOrder: "set (liveOrder p) = {i \<in> set (servers p). alive (backendAt p i)}"
  by (auto simp: liveOrder_def isLive_def)

section \<open>Interface: a fair chooser\<close>

text \<open>
  What the request handler relies on when it asks for a backend: the choices are a queue whose
  first element is served and goes to the back. The lemmas say that \<open>k\<close> calls in a row serve
  the queue cyclically, and that one full turn serves each element once.
\<close>

fun callN :: "('s \<Rightarrow> 'a res \<times> 's) \<Rightarrow> nat \<Rightarrow> 's \<Rightarrow> 'a res list \<times> 's" where
  "callN f 0 s = ([], s)"
| "callN f (Suc k) s =
     (let (r, s1) = f s; (rs, s2) = callN f k s1 in (r # rs, s2))"

locale fair_chooser =
  fixes pick :: "'s \<Rightarrow> 'a res \<times> 's"
    and queue :: "'s \<Rightarrow> 'a list"
    and valid :: "'s \<Rightarrow> bool"
  assumes pick_first:
      "valid s \<Longrightarrow> queue s = x # xs \<Longrightarrow> \<exists>s'. pick s = (Ok x, s') \<and> queue s' = xs @ [x]"
    and pick_none: "valid s \<Longrightarrow> queue s = [] \<Longrightarrow> \<exists>e s'. pick s = (Err e, s') \<and> queue s' = []"
    and pick_valid: "valid s \<Longrightarrow> valid (snd (pick s))"
begin

lemma pick_cases:
  assumes "valid s"
  obtains (none) e s' where "queue s = []" "pick s = (Err e, s')" "queue s' = []"
    | (some) x xs s' where "queue s = x # xs" "pick s = (Ok x, s')" "queue s' = xs @ [x]"
proof (cases "queue s")
  case Nil
  with pick_none [OF assms] none show ?thesis by blast
next
  case (Cons x xs)
  with pick_first [OF assms] some show ?thesis by blast
qed

lemma pick_member: "valid s \<Longrightarrow> fst (pick s) = Ok x \<Longrightarrow> x \<in> set (queue s)"
  by (erule pick_cases) auto

lemma pick_ok_iff: "valid s \<Longrightarrow> is_ok (fst (pick s)) \<longleftrightarrow> queue s \<noteq> []"
  by (erule pick_cases) auto

lemma pick_keeps_choices: "valid s \<Longrightarrow> set (queue (snd (pick s))) = set (queue s)"
  by (erule pick_cases) auto

lemma callN_cyclic:
  "valid s \<Longrightarrow> queue s \<noteq> [] \<Longrightarrow>
     fst (callN pick k s) = map (\<lambda>j. Ok (queue s ! (j mod length (queue s)))) [0..<k] \<and>
     queue (snd (callN pick k s)) = rotate k (queue s)"
proof (induction k arbitrary: s)
  case 0
  then show ?case by simp
next
  case (Suc k)
  then obtain x xs where q: "queue s = x # xs" by (cases "queue s") auto
  with Suc.prems pick_first obtain s' where s': "pick s = (Ok x, s')" "queue s' = xs @ [x]"
    by blast
  have v: "valid s'" using pick_valid [OF Suc.prems(1)] s' by simp
  have IH: "fst (callN pick k s') = map (\<lambda>j. Ok ((xs @ [x]) ! (j mod Suc (length xs)))) [0..<k]"
    "queue (snd (callN pick k s')) = rotate k (xs @ [x])"
    using Suc.IH [OF v] s'(2) by simp_all
  have "(xs @ [x]) ! (j mod Suc (length xs)) = (x # xs) ! (Suc j mod Suc (length xs))" for j
    using mod_less_divisor [of "Suc (length xs)" j]
    by (auto simp: mod_Suc nth_append less_Suc_eq simp del: mod_less_divisor)
  then have results: "fst (callN pick (Suc k) s) =
      Ok x # map (\<lambda>j. Ok (queue s ! (Suc j mod length (queue s)))) [0..<k]"
    using IH s' q by (simp add: split_beta)
  also have "\<dots> = map (\<lambda>j. Ok (queue s ! (j mod length (queue s)))) [0..<Suc k]"
    using q by (simp add: upt_conv_Cons map_Suc_upt [symmetric] del: upt_Suc)
  finally have "fst (callN pick (Suc k) s) =
      map (\<lambda>j. Ok (queue s ! (j mod length (queue s)))) [0..<Suc k]" .
  moreover have "queue (snd (callN pick (Suc k) s)) = rotate (Suc k) (queue s)"
    using IH s' q by (simp add: split_beta rotate1_rotate_swap)
  ultimately show ?case by (rule conjI)
qed

lemma full_turn:
  assumes "valid s" and "queue s \<noteq> []"
  shows "fst (callN pick (length (queue s)) s) = map Ok (queue s)"
proof -
  have "map (\<lambda>j. Ok (queue s ! (j mod length (queue s)))) [0..<length (queue s)] =
      map Ok (map ((!) (queue s)) [0..<length (queue s)])"
    by simp
  then show ?thesis using callN_cyclic [OF assms] by (simp only: map_nth)
qed

end

interpretation peers: fair_chooser GetNextPeer liveOrder pool_ok
proof
  fix p x xs
  assume "pool_ok p" "liveOrder p = x # xs"
  with GetNextPeer_cases [of p] show "\<exists>p'. GetNextPeer p = (Ok x, p') \<and> liveOrder p' = xs @ [x]"
    by auto
next
  fix p
  assume "pool_ok p" "liveOrder p = []"
  with GetNextPeer_cases [of p] show "\<exists>e p'. GetNextPeer p = (Err e, p') \<and> liveOrder p' = []"
    by (auto simp: liveOrder_def) (metis isLive_cong)
next
  fix p
  assume "pool_ok p"
  then show "pool_ok (snd (GetNextPeer p))" by (rule GetNextPeer_frame)
qed

end
