(* ===== verification/Config.thy ===== *)
theory Config
  imports GoJson Backend
begin

text \<open>
  The configuration readers (package \<open>config\<close>): JSON files into records, and the parser of a
  cache key description. \<open>osOpen\<close> is \<open>os.Open\<close>; an open file is what \<open>io.ReadAll\<close> and \<open>Close\<close> will give.
\<close>

record goFile =
  gfContent :: "goerror + bytes"
  gfClose :: "goerror option"

section \<open>Unmarshalling\<close>

text \<open>\<open>json.Unmarshal\<close> into a struct and into a slice of structs: the syntax is checked first; then an
  element of the wrong type is the error, after everything has been decoded.\<close>

definition unmarshalStruct :: "'r field list \<Rightarrow> 'r \<Rightarrow> bytes \<Rightarrow> goerror option \<times> 'r" where
  "unmarshalStruct fs r s = (case decodeWhole s of Inl e \<Rightarrow> (Some e, r) | Inr v \<Rightarrow> bindStruct fs v r)"

definition bindSlice :: "'r field list \<Rightarrow> 'r \<Rightarrow> json \<Rightarrow> goerror option \<times> 'r list" where
  "bindSlice fs r v =
     (case v of
        JArr vs \<Rightarrow>
          (let rs = map (\<lambda>v. bindStruct fs v r) vs
           in (case find (\<lambda>x. fst x \<noteq> None) rs of None \<Rightarrow> None | Some x \<Rightarrow> fst x, map snd rs))
      | JNull \<Rightarrow> (None, [])
      | _ \<Rightarrow> (Some typeErr, []))"

definition unmarshalSlice :: "'r field list \<Rightarrow> 'r \<Rightarrow> bytes \<Rightarrow> goerror option \<times> 'r list" where
  "unmarshalSlice fs r s = (case decodeWhole s of Inl e \<Rightarrow> (Some e, []) | Inr v \<Rightarrow> bindSlice fs r v)"

section \<open>The load balancer and its servers\<close>

record fileConfig =
  fcPort :: int64
  fcHealthCheckPeriod :: int64
  fcMaxCacheSize :: int64
  fcObserveFrequency :: int64

definition fileConfigFields :: "fileConfig field list" where
  "fileConfigFields =
     [(''Port'', intField 64 (\<lambda>i c. c\<lparr>fcPort := of_int i\<rparr>)),
      (''HealthCheckPeriod'', intField 64 (\<lambda>i c. c\<lparr>fcHealthCheckPeriod := of_int i\<rparr>)),
      (''MaxCacheSize'', intField 64 (\<lambda>i c. c\<lparr>fcMaxCacheSize := of_int i\<rparr>)),
      (''ObserveFrequency'', intField 64 (\<lambda>i c. c\<lparr>fcObserveFrequency := of_int i\<rparr>))]"

record LoadBalancerReader =
  lrFile :: goFile

definition NewLoadBalancerReader :: "(string \<Rightarrow> goerror + goFile) \<Rightarrow> string \<Rightarrow> goerror + LoadBalancerReader" where
  "NewLoadBalancerReader osOpen configPath =
     (case osOpen configPath of Inl err \<Rightarrow> Inl err | Inr opened \<Rightarrow> Inr \<lparr>lrFile = opened\<rparr>)"

definition LoadBalancerReader_Close :: "LoadBalancerReader \<Rightarrow> goerror option" where
  "LoadBalancerReader_Close r = gfClose (lrFile r)"

definition ReadLoadBalancerConfig :: "LoadBalancerReader \<Rightarrow> goerror + fileConfig" where
  "ReadLoadBalancerConfig r =
     (case gfContent (lrFile r) of
        Inl e \<Rightarrow> Inl e
      | Inr configFileByte \<Rightarrow>
          (case unmarshalStruct fileConfigFields
             \<lparr>fcPort = 0, fcHealthCheckPeriod = 0, fcMaxCacheSize = 0, fcObserveFrequency = 0\<rparr> configFileByte of
             (Some e, _) \<Rightarrow> Inl e
           | (None, config) \<Rightarrow> Inr config))"

definition serverFields :: "ServerConfig field list" where
  "serverFields =
     [(''URL'', strField (\<lambda>s c. c\<lparr>scURL := s\<rparr>)),
      (''HealthCheckTcpTimeout'', intField 64 (\<lambda>i c. c\<lparr>scHealthCheckTcpTimeout := of_int i\<rparr>)),
      (''MaximalRequests'', intField 32 (\<lambda>i c. c\<lparr>scMaximalRequests := of_int i\<rparr>))]"

record ServersReader =
  srFile :: goFile

definition NewServersReader :: "(string \<Rightarrow> goerror + goFile) \<Rightarrow> string \<Rightarrow> goerror + ServersReader" where
  "NewServersReader osOpen serversPath =
     (case osOpen serversPath of Inl err \<Rightarrow> Inl err | Inr opened \<Rightarrow> Inr \<lparr>srFile = opened\<rparr>)"

definition ServersReader_Close :: "ServersReader \<Rightarrow> goerror option" where
  "ServersReader_Close r = gfClose (srFile r)"

definition ReadServersConfig :: "ServersReader \<Rightarrow> goerror + ServerConfig list" where
  "ReadServersConfig r =
     (case gfContent (srFile r) of
        Inl e \<Rightarrow> Inl e
      | Inr serversFileByte \<Rightarrow>
          (case unmarshalSlice serverFields
             \<lparr>scURL = [], scHealthCheckTcpTimeout = 0, scMaximalRequests = 0\<rparr> serversFileByte of
             (Some e, _) \<Rightarrow> Inl e
           | (None, SeversConfigs) \<Rightarrow> Inr SeversConfigs))"

section \<open>The cache key description\<close>

record cachePair =
  cpLocation :: string
  cpRequestKey :: string

record CacheReader =
  crFile :: goFile

record CacheConfig =
  ccPairs :: "cachePair list"

definition NewCacheReader :: "(string \<Rightarrow> goerror + goFile) \<Rightarrow> string \<Rightarrow> goerror + CacheReader" where
  "NewCacheReader osOpen configPath =
     (case osOpen configPath of Inl err \<Rightarrow> Inl err | Inr opened \<Rightarrow> Inr \<lparr>crFile = opened\<rparr>)"

definition CacheReader_Close :: "CacheReader \<Rightarrow> goerror option" where
  "CacheReader_Close r = gfClose (crFile r)"

definition ReadCacheConfig :: "CacheReader \<Rightarrow> goerror + CacheConfig" where
  "ReadCacheConfig r =
     (case gfContent (crFile r) of
        Inl e \<Rightarrow> Inl e
      | Inr cacheFileByte \<Rightarrow>
          (case unmarshalSlice
             [(''Location'', strField (\<lambda>s c. c\<lparr>cpLocation := s\<rparr>)),
              (''RequestKey'', strField (\<lambda>s c. c\<lparr>cpRequestKey := s\<rparr>))]
             \<lparr>cpLocation = [], cpRequestKey = []\<rparr> cacheFileByte of
             (Some e, _) \<Rightarrow> Inl e
           | (None, pairs) \<Rightarrow> Inr \<lparr>ccPairs = pairs\<rparr>))"

text \<open>The functions the parser returns, by what they read of the request.\<close>

datatype keyPart = KeyMethod | KeyHost | KeyPath | KeyQuery

definition ParseRequestKey :: "string \<Rightarrow> keyPart list res" where
  "ParseRequestKey requestKey =
     (if requestKey = [] then Panic ''An empty line was got''
      else Ok (concat (map (\<lambda>v.
        if v = ''REQ_METHOD'' then [KeyMethod]
        else if v = ''REQ_HOST'' then [KeyHost]
        else if v = ''REQ_URI'' then [KeyPath]
        else if v = ''REQ_QUERY'' then [KeyQuery]
        else []) (splitOn CHR '';'' requestKey))))"

section \<open>Reading what was written\<close>

definition serverJson :: "ServerConfig \<Rightarrow> json" where
  "serverJson c =
     JObj [(''URL'', JStr (scURL c)), (''HealthCheckTcpTimeout'', JNum (printInt (sint (scHealthCheckTcpTimeout c)))),
       (''MaximalRequests'', JNum (printInt (sint (scMaximalRequests c))))]"

lemma plain_serverJson: "asciiString (scURL c) \<Longrightarrow> plainJson (serverJson c)"
  using plainJson_sint plainJson_sint32
  by (simp add: serverJson_def asciiString_def del: plainJson.simps(1))

lemma bind_serverJson:
  "bindStruct serverFields (serverJson c) \<lparr>scURL = [], scHealthCheckTcpTimeout = 0, scMaximalRequests = 0\<rparr> = (None, c)"
  by (simp add: serverJson_def serverFields_def bindMember_def selectField_def strField_def)

lemma find_map_None: "find (\<lambda>x. \<exists>e. fst x = Some e) (map (Pair None) cs) = None"
  by (induction cs) auto

lemma unmarshal_servers:
  assumes "list_all (\<lambda>c. asciiString (scURL c)) cs"
  shows "unmarshalSlice serverFields \<lparr>scURL = [], scHealthCheckTcpTimeout = 0, scMaximalRequests = 0\<rparr>
      (printJson (JArr (map serverJson cs))) = (None, cs)"
proof -
  have "plainJson (JArr (map serverJson cs))"
    using assms by (auto simp: list_all_iff plain_serverJson)
  then show ?thesis
    by (simp add: unmarshalSlice_def decode_printJson bindSlice_def bind_serverJson comp_def find_map_None
        del: plainJson.simps)
qed

text \<open>A server list printed as JSON is read back as it was: every URL, timeout and limit, in order.\<close>
theorem servers_config_roundtrip:
  assumes "list_all (\<lambda>c. asciiString (scURL c)) cs"
  shows "ReadServersConfig \<lparr>srFile = \<lparr>gfContent = Inr (printJson (JArr (map serverJson cs))), gfClose = e\<rparr>\<rparr> = Inr cs"
  using unmarshal_servers [OF assms] by (simp add: ReadServersConfig_def)

theorem servers_config_roundtrip_witness:
  "ReadServersConfig \<lparr>srFile = \<lparr>gfContent = Inr (printJson (JArr [serverJson
     \<lparr>scURL = ''http://a:80'', scHealthCheckTcpTimeout = 100, scMaximalRequests = 5\<rparr>])), gfClose = None\<rparr>\<rparr> =
   Inr [\<lparr>scURL = ''http://a:80'', scHealthCheckTcpTimeout = 100, scMaximalRequests = 5\<rparr>]"
  using servers_config_roundtrip [of "[\<lparr>scURL = ''http://a:80'', scHealthCheckTcpTimeout = 100, scMaximalRequests = 5\<rparr>]"]
  by (simp add: asciiString_def)

end
