(* ===== verification/Bolt.thy ===== *)
theory Bolt
  imports Prelude
begin

text \<open>
  The contract with \<open>github.com/boltdb/bolt\<close>, which is not part of the repository: a record of
  the operations the sources call, passed to every definition that uses the database, and the
  documented laws of those operations as the predicate \<open>bolt_ok\<close>. Both the page cache and the
  user database are clients. \<open>RefBolt\<close> holds an instance that satisfies the laws.
\<close>

section \<open>The operations\<close>

text \<open>
  The type of database contents \<open>'db\<close> is left open. \<open>txBucket\<close> is \<open>tx.Bucket(name) != nil\<close>,
  \<open>txGet\<close> reads a key of a bucket, \<open>txNames\<close> lists the bucket names in the order of
  \<open>tx.ForEach\<close>. Opening a transaction and committing one may fail.
\<close>

record 'db bolt =
  txBucket :: "'db \<Rightarrow> bytes \<Rightarrow> bool"
  txGet :: "'db \<Rightarrow> bytes \<Rightarrow> bytes \<Rightarrow> bytes option"
  txCreate :: "'db \<Rightarrow> bytes \<Rightarrow> goerror option \<times> 'db"
  txPut :: "'db \<Rightarrow> bytes \<Rightarrow> bytes \<Rightarrow> bytes \<Rightarrow> goerror option \<times> 'db"
  txDelete :: "'db \<Rightarrow> bytes \<Rightarrow> goerror option \<times> 'db"
  txNames :: "'db \<Rightarrow> bytes list"
  txBegin :: "'db \<Rightarrow> goerror option"
  txCommit :: "'db \<Rightarrow> goerror option"

text \<open>
  \<open>db.Update(fn)\<close>: begin, run the function, roll back when it returns an error (which \<open>Update\<close>
  then returns), commit otherwise. A Go closure hands values out by assigning variables of the
  caller; here it returns them, and \<open>r0\<close> is what the variables hold when the closure never
  runs. A panic inside the function rolls back and goes on unwinding.
\<close>

datatype 'r txRes = TxDone 'r | TxErr goerror 'r | TxPanic string

fun boltUpdate ::
  "'db bolt \<Rightarrow> 'r \<Rightarrow> ('db \<Rightarrow> 'r txRes \<times> 'db) \<Rightarrow> 'db \<Rightarrow> 'r txRes \<times> 'db" where
  "boltUpdate B r0 fn db =
     (case txBegin B db of
        Some e \<Rightarrow> (TxErr e r0, db)
      | None \<Rightarrow>
          (case fn db of
             (TxPanic m, _) \<Rightarrow> (TxPanic m, db)
           | (TxErr e r, _) \<Rightarrow> (TxErr e r, db)
           | (TxDone r, db') \<Rightarrow>
               (case txCommit B db' of
                  Some e \<Rightarrow> (TxErr e r, db)
                | None \<Rightarrow> (TxDone r, db'))))"

text \<open>\<open>db.View(fn)\<close>: a read-only transaction.\<close>

fun boltView :: "'db bolt \<Rightarrow> 'r \<Rightarrow> ('db \<Rightarrow> 'r txRes) \<Rightarrow> 'db \<Rightarrow> 'r txRes" where
  "boltView B r0 fn db =
     (case txBegin B db of Some e \<Rightarrow> TxErr e r0 | None \<Rightarrow> fn db)"

declare boltUpdate.simps [simp del] boltView.simps [simp del]

section \<open>The documented laws\<close>

definition maxValueSize :: nat where
  "maxValueSize = 2 ^ 31 - 2"

definition validName :: "bytes \<Rightarrow> bool" where
  "validName n \<longleftrightarrow> n \<noteq> [] \<and> length n \<le> 32768"

text \<open>
  A bucket name is never empty; names are listed once each; creating an existing bucket is
  \<open>ErrBucketExists\<close> and leaves it alone; creating a new one with a valid name gives an empty
  bucket; \<open>Put\<close> of a valid key and a value within the size limit stores exactly that value, and
  of a larger value is an error; deleting removes the bucket, and \<open>ErrBucketNotFound\<close> reports a
  missing one.
\<close>

definition law_names :: "'db bolt \<Rightarrow> bool" where
  "law_names B \<longleftrightarrow>
     (\<forall>db. distinct (txNames B db) \<and> (\<forall>n. n \<in> set (txNames B db) \<longleftrightarrow> txBucket B db n) \<and>
           \<not> txBucket B db [])"

definition law_create :: "'db bolt \<Rightarrow> bool" where
  "law_create B \<longleftrightarrow>
     (\<forall>db n. txBucket B db n \<longrightarrow> txCreate B db n = (Some ErrBucketExists, db)) \<and>
     (\<forall>db n. validName n \<and> \<not> txBucket B db n \<longrightarrow>
        (\<exists>db'. txCreate B db n = (None, db') \<and>
           (\<forall>m. txBucket B db' m \<longleftrightarrow> m = n \<or> txBucket B db m) \<and>
           (\<forall>m k. txGet B db' m k = (if m = n then None else txGet B db m k))))"

definition law_put :: "'db bolt \<Rightarrow> bool" where
  "law_put B \<longleftrightarrow>
     (\<forall>db n k v. txBucket B db n \<and> validName k \<and> length v \<le> maxValueSize \<longrightarrow>
        (\<exists>db'. txPut B db n k v = (None, db') \<and>
           (\<forall>m. txBucket B db' m \<longleftrightarrow> txBucket B db m) \<and>
           (\<forall>m j. txGet B db' m j = (if m = n \<and> j = k then Some v else txGet B db m j))))"

definition law_limit :: "'db bolt \<Rightarrow> bool" where
  "law_limit B \<longleftrightarrow> (\<forall>db n k v. maxValueSize < length v \<longrightarrow> fst (txPut B db n k v) \<noteq> None)"

definition law_delete :: "'db bolt \<Rightarrow> bool" where
  "law_delete B \<longleftrightarrow>
     (\<forall>db n. \<not> txBucket B db n \<longrightarrow> txDelete B db n = (Some ErrBucketNotFound, db)) \<and>
     (\<forall>db n. txBucket B db n \<longrightarrow>
        (\<exists>db'. txDelete B db n = (None, db') \<and>
           (\<forall>m. txBucket B db' m \<longleftrightarrow> m \<noteq> n \<and> txBucket B db m) \<and>
           (\<forall>m k. m \<noteq> n \<longrightarrow> txGet B db' m k = txGet B db m k)))"

text \<open>Failing to open or to commit a transaction is never one of the bucket errors.\<close>

definition law_tx :: "'db bolt \<Rightarrow> bool" where
  "law_tx B \<longleftrightarrow>
     (\<forall>db e. txBegin B db = Some e \<or> txCommit B db = Some e \<longrightarrow>
        \<not> errors_is e ErrBucketExists \<and> \<not> errors_is e ErrBucketNotFound)"

definition bolt_ok :: "'db bolt \<Rightarrow> bool" where
  "bolt_ok B \<longleftrightarrow> law_names B \<and> law_create B \<and> law_put B \<and> law_limit B \<and> law_delete B \<and> law_tx B"

text \<open>A database that is open and whose commits reach the disk.\<close>

definition bolt_live :: "'db bolt \<Rightarrow> bool" where
  "bolt_live B \<longleftrightarrow> (\<forall>db. txBegin B db = None \<and> txCommit B db = None)"

section \<open>Rules for clients\<close>

lemma bolt_names:
  assumes "bolt_ok B"
  shows "distinct (txNames B db)" and "set (txNames B db) = {n. txBucket B db n}"
    and "\<not> txBucket B db []"
  using assms by (auto simp: bolt_ok_def law_names_def)

lemma bolt_create_old: "bolt_ok B \<Longrightarrow> txBucket B db n \<Longrightarrow> txCreate B db n = (Some ErrBucketExists, db)"
  by (auto simp: bolt_ok_def law_create_def)

lemma bolt_create_new:
  assumes "bolt_ok B" "validName n" "\<not> txBucket B db n"
  obtains db' where "txCreate B db n = (None, db')"
    "\<And>m. txBucket B db' m \<longleftrightarrow> m = n \<or> txBucket B db m"
    "\<And>m k. txGet B db' m k = (if m = n then None else txGet B db m k)"
proof -
  have "\<exists>db'. txCreate B db n = (None, db') \<and>
      (\<forall>m. txBucket B db' m \<longleftrightarrow> m = n \<or> txBucket B db m) \<and>
      (\<forall>m k. txGet B db' m k = (if m = n then None else txGet B db m k))"
    using assms unfolding bolt_ok_def law_create_def by blast
  then show ?thesis using that by metis
qed

lemma bolt_put:
  assumes "bolt_ok B" "txBucket B db n" "validName k" "length v \<le> maxValueSize"
  obtains db' where "txPut B db n k v = (None, db')"
    "\<And>m. txBucket B db' m \<longleftrightarrow> txBucket B db m"
    "\<And>m j. txGet B db' m j = (if m = n \<and> j = k then Some v else txGet B db m j)"
proof -
  have "\<exists>db'. txPut B db n k v = (None, db') \<and>
      (\<forall>m. txBucket B db' m \<longleftrightarrow> txBucket B db m) \<and>
      (\<forall>m j. txGet B db' m j = (if m = n \<and> j = k then Some v else txGet B db m j))"
    using assms unfolding bolt_ok_def law_put_def by blast
  then show ?thesis using that by metis
qed

lemma bolt_put_fits:
  assumes "bolt_ok B" "txPut B db n k v = (None, db')"
  shows "length v \<le> maxValueSize"
proof (rule ccontr)
  assume "\<not> length v \<le> maxValueSize"
  then have "fst (txPut B db n k v) \<noteq> None"
    using assms(1) unfolding bolt_ok_def law_limit_def by auto
  with assms(2) show False by simp
qed

lemma bolt_delete_old:
  assumes "bolt_ok B" "txBucket B db n"
  obtains db' where "txDelete B db n = (None, db')"
    "\<And>m. txBucket B db' m \<longleftrightarrow> m \<noteq> n \<and> txBucket B db m"
    "\<And>m k. m \<noteq> n \<Longrightarrow> txGet B db' m k = txGet B db m k"
proof -
  have "\<exists>db'. txDelete B db n = (None, db') \<and>
      (\<forall>m. txBucket B db' m \<longleftrightarrow> m \<noteq> n \<and> txBucket B db m) \<and>
      (\<forall>m k. m \<noteq> n \<longrightarrow> txGet B db' m k = txGet B db m k)"
    using assms unfolding bolt_ok_def law_delete_def by blast
  then show ?thesis using that by metis
qed

lemma bolt_delete_missing:
  "bolt_ok B \<Longrightarrow> \<not> txBucket B db n \<Longrightarrow> txDelete B db n = (Some ErrBucketNotFound, db)"
  by (auto simp: bolt_ok_def law_delete_def)

lemma bolt_tx:
  assumes "bolt_ok B"
  shows "txBegin B db = Some e \<Longrightarrow> \<not> errors_is e ErrBucketExists \<and> \<not> errors_is e ErrBucketNotFound"
    and "txCommit B db = Some e \<Longrightarrow> \<not> errors_is e ErrBucketExists \<and> \<not> errors_is e ErrBucketNotFound"
  using assms by (auto simp: bolt_ok_def law_tx_def)

text \<open>What a transaction can do: everything its body did, or nothing.\<close>

lemma boltUpdate_cases:
  obtains (commit) r db' where "boltUpdate B r0 fn db = (TxDone r, db')" "fn db = (TxDone r, db')"
      "txBegin B db = None" "txCommit B db' = None"
    | (rollback) e r where "boltUpdate B r0 fn db = (TxErr e r, db)"
    | (unwind) m where "boltUpdate B r0 fn db = (TxPanic m, db)"
proof (cases "txBegin B db")
  case (Some e)
  then have "boltUpdate B r0 fn db = (TxErr e r0, db)" by (simp add: boltUpdate.simps)
  then show ?thesis by (rule rollback)
next
  case opened: None
  obtain r db' where fn: "fn db = (r, db')" by force
  show ?thesis
  proof (cases r)
    case (TxDone a)
    show ?thesis
    proof (cases "txCommit B db'")
      case None
      with opened fn TxDone have "boltUpdate B r0 fn db = (TxDone a, db')"
        by (simp add: boltUpdate.simps)
      then show ?thesis using opened None fn TxDone by (intro commit) auto
    next
      case (Some e)
      with opened fn TxDone have "boltUpdate B r0 fn db = (TxErr e a, db)"
        by (simp add: boltUpdate.simps)
      then show ?thesis by (rule rollback)
    qed
  next
    case (TxErr e a)
    with opened fn have "boltUpdate B r0 fn db = (TxErr e a, db)" by (simp add: boltUpdate.simps)
    then show ?thesis by (rule rollback)
  next
    case (TxPanic m)
    with opened fn have "boltUpdate B r0 fn db = (TxPanic m, db)" by (simp add: boltUpdate.simps)
    then show ?thesis by (rule unwind)
  qed
qed

lemma boltUpdate_live:
  "bolt_live B \<Longrightarrow> boltUpdate B r0 fn db =
     (case fn db of
        (TxPanic m, _) \<Rightarrow> (TxPanic m, db)
      | (TxErr e r, _) \<Rightarrow> (TxErr e r, db)
      | (TxDone r, db') \<Rightarrow> (TxDone r, db'))"
  by (simp add: boltUpdate.simps bolt_live_def split: txRes.split prod.split)

lemma boltView_live: "bolt_live B \<Longrightarrow> boltView B r0 fn db = fn db"
  by (simp add: boltView.simps bolt_live_def)

end
