(* ===== verification/RefBolt.thy ===== *)
theory RefBolt
  imports Bolt "HOL-Library.AList"
begin

text \<open>
  A concrete database for the contract of \<open>Bolt\<close>: an association list from bucket names to
  buckets, each an association list from keys to values. The theorems that assume \<open>bolt_ok\<close>
  are applied to it by their witnesses.
\<close>

type_synonym refDb = "(bytes \<times> (bytes \<times> bytes) list) list"

definition refBucket :: "refDb \<Rightarrow> bytes \<Rightarrow> bool" where
  "refBucket db n \<longleftrightarrow> n \<noteq> [] \<and> map_of db n \<noteq> None"

definition refGet :: "refDb \<Rightarrow> bytes \<Rightarrow> bytes \<Rightarrow> bytes option" where
  "refGet db n k = (case map_of db n of None \<Rightarrow> None | Some b \<Rightarrow> map_of b k)"

definition refCreate :: "refDb \<Rightarrow> bytes \<Rightarrow> goerror option \<times> refDb" where
  "refCreate db n =
     (if refBucket db n then (Some ErrBucketExists, db)
      else if \<not> validName n then (Some (ErrMsg ''bucket name''), db)
      else (None, AList.update n [] db))"

definition refPut :: "refDb \<Rightarrow> bytes \<Rightarrow> bytes \<Rightarrow> bytes \<Rightarrow> goerror option \<times> refDb" where
  "refPut db n k v =
     (case map_of db n of
        None \<Rightarrow> (Some ErrBucketNotFound, db)
      | Some b \<Rightarrow>
          if \<not> validName k then (Some (ErrMsg ''key''), db)
          else if maxValueSize < length v then (Some (ErrMsg ''value too large''), db)
          else (None, AList.update n (AList.update k v b) db))"

definition refDelete :: "refDb \<Rightarrow> bytes \<Rightarrow> goerror option \<times> refDb" where
  "refDelete db n =
     (if refBucket db n then (None, AList.delete n db) else (Some ErrBucketNotFound, db))"

definition refNames :: "refDb \<Rightarrow> bytes list" where
  "refNames db = remdups (filter (\<lambda>n. n \<noteq> []) (map fst db))"

definition refBolt :: "refDb bolt" where
  "refBolt =
     \<lparr>txBucket = refBucket, txGet = refGet, txCreate = refCreate, txPut = refPut,
      txDelete = refDelete, txNames = refNames, txBegin = (\<lambda>_. None), txCommit = (\<lambda>_. None)\<rparr>"

lemma refBolt_simps [simp]:
  "txBucket refBolt = refBucket" "txGet refBolt = refGet" "txCreate refBolt = refCreate"
  "txPut refBolt = refPut" "txDelete refBolt = refDelete" "txNames refBolt = refNames"
  "txBegin refBolt db = None" "txCommit refBolt db = None"
  by (simp_all add: refBolt_def)

lemma refBucket_upd:
  "refBucket (AList.update n b db) m \<longleftrightarrow> (m = n \<and> n \<noteq> []) \<or> refBucket db m"
  by (auto simp: refBucket_def update_conv)

lemma bolt_live_ref: "bolt_live refBolt"
  by (simp add: bolt_live_def)

lemma law_names_ref: "law_names refBolt"
  by (auto simp: law_names_def refNames_def refBucket_def map_of_eq_None_iff)

lemma law_put_ref: "law_put refBolt"
  by (auto simp: law_put_def refPut_def refBucket_def refGet_def update_conv split: option.split)

lemma law_limit_ref: "law_limit refBolt"
  by (auto simp: law_limit_def refPut_def split: option.split)

lemma law_delete_ref: "law_delete refBolt"
  by (auto simp: law_delete_def refDelete_def refBucket_def refGet_def delete_conv)

lemma law_create_ref: "law_create refBolt"
  unfolding law_create_def
proof (intro conjI allI impI)
  fix db n
  assume "txBucket refBolt db n"
  then show "txCreate refBolt db n = (Some ErrBucketExists, db)"
    by (simp add: refCreate_def)
next
  fix db n
  assume *: "validName n \<and> \<not> txBucket refBolt db n"
  then have "map_of db n = None" by (auto simp: refBucket_def validName_def)
  with * show "\<exists>db'. txCreate refBolt db n = (None, db') \<and>
      (\<forall>m. txBucket refBolt db' m \<longleftrightarrow> m = n \<or> txBucket refBolt db m) \<and>
      (\<forall>m k. txGet refBolt db' m k = (if m = n then None else txGet refBolt db m k))"
    by (auto simp: refCreate_def refBucket_def refGet_def update_conv validName_def)
qed

lemma bolt_ok_ref: "bolt_ok refBolt"
  by (simp add: bolt_ok_def law_names_ref law_create_ref law_put_ref law_limit_ref law_delete_ref law_tx_def)

end
