(* ===== verification/UserDb.thy ===== *)
theory UserDb
  imports RefBolt
begin

text \<open>
  The user database (\<open>db/db.go\<close>): one bucket per user name, with the salt, the password hash and
  the e-mail address. It is a client of the contract of \<open>Bolt\<close>. The locale \<open>user_store\<close> is what
  the authentication service needs of it, and the operations below interpret it.
\<close>

section \<open>The operations\<close>

definition hashKey :: bytes where "hashKey = ''hash''"
definition saltKey :: bytes where "saltKey = ''salt''"
definition emailKey :: bytes where "emailKey = ''email''"

text \<open>\<open>fmt.Errorf("... bucket \\"%s\\": %w", username, err)\<close>.\<close>

definition bucketErr :: "string \<Rightarrow> string \<Rightarrow> goerror \<Rightarrow> goerror" where
  "bucketErr verb username e = ErrWrap (verb @ '' bucket \"'' @ username @ ''\": '') e"

definition missingUser :: "string \<Rightarrow> goerror" where
  "missingUser username = ErrMsg (''bucket \"'' @ username @ ''\" does not exist'')"

text \<open>Two consecutive writes of a closure: an error of the first ends it.\<close>

definition putOr ::
  "'db bolt \<Rightarrow> bytes \<Rightarrow> bytes \<Rightarrow> bytes \<Rightarrow> ('db \<Rightarrow> unit txRes \<times> 'db) \<Rightarrow> 'db \<Rightarrow> unit txRes \<times> 'db" where
  "putOr B n k v cont db =
     (case txPut B db n k v of
        (Some e, db) \<Rightarrow> (TxErr (ErrWrap (''put '' @ k @ '': '') e) (), db)
      | (None, db) \<Rightarrow> cont db)"

definition txOutcome :: "unit txRes \<times> 'db \<Rightarrow> unit res \<times> 'db" where
  "txOutcome rd =
     (case rd of
        (TxDone (), db) \<Rightarrow> (Ok (), db)
      | (TxErr e _, db) \<Rightarrow> (Err e, db)
      | (TxPanic m, db) \<Rightarrow> (Panic m, db))"

definition InsertUser ::
  "'db bolt \<Rightarrow> string \<Rightarrow> string \<Rightarrow> string \<Rightarrow> string \<Rightarrow> 'db \<Rightarrow> unit res \<times> 'db" where
  "InsertUser B username salt hsh email db =
     txOutcome (boltUpdate B ()
       (\<lambda>db.
          case txCreate B db username of
            (Some e, db) \<Rightarrow> (TxErr (bucketErr ''create'' username e) (), db)
          | (None, db) \<Rightarrow>
              putOr B username saltKey salt
                (putOr B username hashKey hsh
                  (putOr B username emailKey email (\<lambda>db. (TxDone (), db)))) db)
       db)"

text \<open>\<open>string(b.Get(key))\<close>: a missing key is the empty string.\<close>

definition getString :: "'db bolt \<Rightarrow> 'db \<Rightarrow> bytes \<Rightarrow> bytes \<Rightarrow> string" where
  "getString B db n k = (case txGet B db n k of None \<Rightarrow> [] | Some v \<Rightarrow> v)"

definition GetSaltAndHash :: "'db bolt \<Rightarrow> string \<Rightarrow> 'db \<Rightarrow> (string \<times> string) res" where
  "GetSaltAndHash B username db =
     (case boltView B ([], [])
        (\<lambda>db. if \<not> txBucket B db username then TxErr (missingUser username) ([], [])
              else TxDone (getString B db username saltKey, getString B db username hashKey))
        db of
        TxDone r \<Rightarrow> Ok r
      | TxErr e _ \<Rightarrow> Err e
      | TxPanic m \<Rightarrow> Panic m)"

definition dbChangePassword ::
  "'db bolt \<Rightarrow> string \<Rightarrow> string \<Rightarrow> string \<Rightarrow> 'db \<Rightarrow> unit res \<times> 'db" where
  "dbChangePassword B username salt hsh db =
     txOutcome (boltUpdate B ()
       (\<lambda>db.
          if \<not> txBucket B db username then (TxErr (missingUser username) (), db)
          else putOr B username saltKey salt
                 (putOr B username hashKey hsh (\<lambda>db. (TxDone (), db))) db)
       db)"

definition GetEmail :: "'db bolt \<Rightarrow> string \<Rightarrow> 'db \<Rightarrow> string res" where
  "GetEmail B username db =
     (case boltView B []
        (\<lambda>db. if \<not> txBucket B db username then TxErr (missingUser username) []
              else TxDone (getString B db username emailKey))
        db of
        TxDone r \<Rightarrow> Ok r
      | TxErr e _ \<Rightarrow> Err e
      | TxPanic m \<Rightarrow> Panic m)"

definition dbDeleteUser :: "'db bolt \<Rightarrow> string \<Rightarrow> 'db \<Rightarrow> unit res \<times> 'db" where
  "dbDeleteUser B username db =
     txOutcome (boltUpdate B ()
       (\<lambda>db.
          case txDelete B db username of
            (Some e, db) \<Rightarrow> (TxErr (bucketErr ''delete'' username e) (), db)
          | (None, db) \<Rightarrow> (TxDone (), db))
       db)"

section \<open>The contract\<close>

record account =
  acSalt :: string
  acHash :: string
  acEmail :: string

text \<open>
  What the client relies on: an operation that returns nil has changed exactly the account it
  names, one that returns an error has changed nothing, and it says which accounts exist.
\<close>

datatype storeEvent =
    SInsert string account
  | SChange string string string
  | SDelete string

fun eventUser :: "storeEvent \<Rightarrow> string" where
  "eventUser (SInsert u _) = u"
| "eventUser (SChange u _ _) = u"
| "eventUser (SDelete u) = u"

text \<open>The specification: the effect of a successful operation on a map from names to accounts.\<close>

fun specStep :: "storeEvent \<Rightarrow> (string \<Rightarrow> account option) \<Rightarrow> (string \<Rightarrow> account option) option" where
  "specStep (SInsert u a) m = (if m u = None then Some (m(u \<mapsto> a)) else None)"
| "specStep (SChange u s h) m =
     map_option (\<lambda>a. m(u \<mapsto> a\<lparr>acSalt := s, acHash := h\<rparr>)) (m u)"
| "specStep (SDelete u) m = (if m u = None then None else Some (m(u := None)))"

locale user_store =
  fixes valid :: "'s \<Rightarrow> bool"
    and named :: "string \<Rightarrow> bool"
    and users :: "'s \<Rightarrow> string \<Rightarrow> account option"
    and perform :: "storeEvent \<Rightarrow> 's \<Rightarrow> unit res \<times> 's"
  assumes succeeds: "valid s \<Longrightarrow> named (eventUser e) \<Longrightarrow> perform e s = (Ok (), s') \<Longrightarrow>
      specStep e (users s) = Some (users s')"
    and fails: "valid s \<Longrightarrow> perform e s = (r, s') \<Longrightarrow> r \<noteq> Ok () \<Longrightarrow> s' = s"
    and valid_perform: "valid s \<Longrightarrow> valid (snd (perform e s))"
begin

lemma perform_cases:
  assumes "valid s" "named (eventUser e)" "perform e s = (r, s')"
  obtains (done_) "r = Ok ()" "specStep e (users s) = Some (users s')"
    | (refused) "r \<noteq> Ok ()" "s' = s"
proof (cases "r = Ok ()")
  case True
  then show ?thesis using assms succeeds done_ by blast
next
  case False
  then show ?thesis using assms fails refused by blast
qed

lemma other_account:
  assumes "valid s" "named (eventUser e)" "eventUser e \<noteq> u"
  shows "users (snd (perform e s)) u = users s u"
proof -
  obtain r s' where run: "perform e s = (r, s')" by force
  from assms(1,2) this show ?thesis
  proof (cases rule: perform_cases)
    case done_
    have "m' u = users s u" if "specStep e (users s) = Some m'" for m'
      using that assms(3) by (cases e) (auto split: if_splits)
    with done_(2) run show ?thesis by auto
  next
    case refused
    with run show ?thesis by simp
  qed
qed

text \<open>An account changes only through the operations that name it.\<close>

lemma isolated_run:
  assumes "valid s" "list_all (\<lambda>e. named (eventUser e) \<and> eventUser e \<noteq> u) es"
  shows "users (fold (\<lambda>e s. snd (perform e s)) es s) u = users s u"
  using assms
proof (induction es arbitrary: s)
  case Nil
  then show ?case by simp
next
  case (Cons e es)
  then show ?case by (simp add: other_account valid_perform)
qed

text \<open>The e-mail address of an account that lives on is the one it was created with.\<close>

lemma email_kept:
  assumes "valid s" "named (eventUser e)" "users s u = Some a" "users (snd (perform e s)) u = Some b"
  shows "acEmail b = acEmail a"
proof -
  obtain r s' where run: "perform e s = (r, s')" by force
  from assms(1,2) this show ?thesis
  proof (cases rule: perform_cases)
    case done_
    have "acEmail c = acEmail a" if "specStep e (users s) = Some m'" "m' u = Some c" for m' c
      using that assms(3) by (cases e) (auto split: if_splits)
    with done_(2) run assms(4) show ?thesis by auto
  next
    case refused
    with run assms(3,4) show ?thesis by simp
  qed
qed

end

section \<open>The database implements it\<close>

definition userOf :: "'db bolt \<Rightarrow> 'db \<Rightarrow> string \<Rightarrow> account option" where
  "userOf B db u =
     (if txBucket B db u then
        Some \<lparr>acSalt = getString B db u saltKey, acHash = getString B db u hashKey,
              acEmail = getString B db u emailKey\<rparr>
      else None)"

fun performUser :: "'db bolt \<Rightarrow> storeEvent \<Rightarrow> 'db \<Rightarrow> unit res \<times> 'db" where
  "performUser B (SInsert u a) db = InsertUser B u (acSalt a) (acHash a) (acEmail a) db"
| "performUser B (SChange u s h) db = dbChangePassword B u s h db"
| "performUser B (SDelete u) db = dbDeleteUser B u db"

lemma userKeys [simp]:
  "validName saltKey" "validName hashKey" "validName emailKey" "saltKey \<noteq> hashKey" "saltKey \<noteq> emailKey"
  "hashKey \<noteq> emailKey" "hashKey \<noteq> saltKey" "emailKey \<noteq> saltKey" "emailKey \<noteq> hashKey"
  by (simp_all add: validName_def saltKey_def hashKey_def emailKey_def)

text \<open>A write of a closure that came to its end has stored its value and gone on.\<close>

lemma putOr_done:
  assumes "bolt_ok B" "txBucket B db n" "validName k" "putOr B n k v cont db = (TxDone (), d)"
  obtains db' where "cont db' = (TxDone (), d)"
    "\<And>m. txBucket B db' m \<longleftrightarrow> txBucket B db m"
    "\<And>m j. txGet B db' m j = (if m = n \<and> j = k then Some v else txGet B db m j)"
proof -
  from assms(4) obtain d0 where put: "txPut B db n k v = (None, d0)" and cont: "cont d0 = (TxDone (), d)"
    by (cases "txPut B db n k v") (auto simp: putOr_def split: option.splits)
  from bolt_put [OF assms(1-3) bolt_put_fits [OF assms(1) put]] obtain d1 where
    "txPut B db n k v = (None, d1)" "\<And>m. txBucket B d1 m \<longleftrightarrow> txBucket B db m"
    "\<And>m j. txGet B d1 m j = (if m = n \<and> j = k then Some v else txGet B db m j)" by metis
  with put have "\<And>m. txBucket B d0 m \<longleftrightarrow> txBucket B db m"
    "\<And>m j. txGet B d0 m j = (if m = n \<and> j = k then Some v else txGet B db m j)" by simp_all
  with cont that show thesis by metis
qed

text \<open>A transaction of the store: all of it or nothing.\<close>

lemma txOutcome_cases:
  assumes "txOutcome (boltUpdate B () fn db) = (r, db')"
  obtains (commit) "r = Ok ()" "fn db = (TxDone (), db')"
    | (nothing) "r \<noteq> Ok ()" "db' = db"
proof (rule boltUpdate_cases [of B "()" fn db])
  fix u :: unit and d
  assume "boltUpdate B () fn db = (TxDone u, d)" "fn db = (TxDone u, d)"
  with assms show thesis by (auto simp: txOutcome_def intro: commit)
next
  fix e and u :: unit
  assume "boltUpdate B () fn db = (TxErr e u, db)"
  with assms have "r \<noteq> Ok ()" "db' = db" by (auto simp: txOutcome_def)
  then show thesis by (rule nothing)
next
  fix m
  assume "boltUpdate B () fn db = (TxPanic m, db)"
  with assms have "r \<noteq> Ok ()" "db' = db" by (auto simp: txOutcome_def)
  then show thesis by (rule nothing)
qed

lemma txOutcome_ok: "txOutcome (boltUpdate B () fn db) = (Ok (), db') \<Longrightarrow> fn db = (TxDone (), db')"
  by (erule txOutcome_cases) simp_all

lemma userOf_cong:
  "(txBucket B db' u \<longleftrightarrow> txBucket B db u) \<Longrightarrow> (\<And>k. txGet B db' u k = txGet B db u k) \<Longrightarrow>
     userOf B db' u = userOf B db u"
  by (simp add: userOf_def getString_def)

lemma InsertUser_ok:
  assumes "bolt_ok B" "validName u" "InsertUser B u s h e db = (Ok (), db')"
  shows "userOf B db u = None"
    and "userOf B db' = (userOf B db)(u \<mapsto> \<lparr>acSalt = s, acHash = h, acEmail = e\<rparr>)"
proof -
  have body:
    "(case txCreate B db u of
        (Some e, db) \<Rightarrow> (TxErr (bucketErr ''create'' u e) (), db)
      | (None, db) \<Rightarrow> putOr B u saltKey s (putOr B u hashKey h
          (putOr B u emailKey e (\<lambda>db. (TxDone (), db)))) db) = (TxDone (), db')"
    by (rule txOutcome_ok [OF assms(3) [unfolded InsertUser_def]])
  have fresh: "\<not> txBucket B db u"
    using body bolt_create_old [OF assms(1), of db u] by auto
  then show "userOf B db u = None" by (simp add: userOf_def)
  from bolt_create_new [OF assms(1,2) fresh] obtain d0 where
    0: "txCreate B db u = (None, d0)" "\<And>m. txBucket B d0 m \<longleftrightarrow> m = u \<or> txBucket B db m"
      "\<And>m k. txGet B d0 m k = (if m = u then None else txGet B db m k)" by metis
  from 0(1) body have "putOr B u saltKey s (putOr B u hashKey h
      (putOr B u emailKey e (\<lambda>db. (TxDone (), db)))) d0 = (TxDone (), db')" by simp
  from putOr_done [OF assms(1) _ userKeys(1) this] obtain d1 where
    1: "putOr B u hashKey h (putOr B u emailKey e (\<lambda>db. (TxDone (), db))) d1 = (TxDone (), db')"
      "\<And>m. txBucket B d1 m \<longleftrightarrow> txBucket B d0 m"
      "\<And>m j. txGet B d1 m j = (if m = u \<and> j = saltKey then Some s else txGet B d0 m j)"
    using 0(2) by metis
  from putOr_done [OF assms(1) _ userKeys(2) 1(1)] obtain d2 where
    2: "putOr B u emailKey e (\<lambda>db. (TxDone (), db)) d2 = (TxDone (), db')"
      "\<And>m. txBucket B d2 m \<longleftrightarrow> txBucket B d1 m"
      "\<And>m j. txGet B d2 m j = (if m = u \<and> j = hashKey then Some h else txGet B d1 m j)"
    using 0(2) 1(2) by metis
  from putOr_done [OF assms(1) _ userKeys(3) 2(1)] obtain d3 where
    3: "db' = d3" "\<And>m. txBucket B d3 m \<longleftrightarrow> txBucket B d2 m"
      "\<And>m j. txGet B d3 m j = (if m = u \<and> j = emailKey then Some e else txGet B d2 m j)"
    using 0(2) 1(2) 2(2) by (metis prod.inject)
  show "userOf B db' = (userOf B db)(u \<mapsto> \<lparr>acSalt = s, acHash = h, acEmail = e\<rparr>)"
  proof
    fix n
    show "userOf B db' n = ((userOf B db)(u \<mapsto> \<lparr>acSalt = s, acHash = h, acEmail = e\<rparr>)) n"
      by (simp add: userOf_def getString_def 0(2,3) 1(2,3) 2(2,3) 3)
  qed
qed

lemma dbChangePassword_ok:
  assumes "bolt_ok B" "dbChangePassword B u s h db = (Ok (), db')"
  obtains a where "userOf B db u = Some a"
    and "userOf B db' = (userOf B db)(u \<mapsto> a\<lparr>acSalt := s, acHash := h\<rparr>)"
proof -
  have body:
    "(if \<not> txBucket B db u then (TxErr (missingUser u) (), db)
      else putOr B u saltKey s (putOr B u hashKey h (\<lambda>db. (TxDone (), db))) db) = (TxDone (), db')"
    by (rule txOutcome_ok [OF assms(2) [unfolded dbChangePassword_def]])
  then have there: "txBucket B db u" by (auto split: if_splits)
  with body have "putOr B u saltKey s (putOr B u hashKey h (\<lambda>db. (TxDone (), db))) db = (TxDone (), db')"
    by simp
  from putOr_done [OF assms(1) there userKeys(1) this] obtain d1 where
    1: "putOr B u hashKey h (\<lambda>db. (TxDone (), db)) d1 = (TxDone (), db')"
      "\<And>m. txBucket B d1 m \<longleftrightarrow> txBucket B db m"
      "\<And>m j. txGet B d1 m j = (if m = u \<and> j = saltKey then Some s else txGet B db m j)" by metis
  from putOr_done [OF assms(1) _ userKeys(2) 1(1)] obtain d2 where
    2: "db' = d2" "\<And>m. txBucket B d2 m \<longleftrightarrow> txBucket B d1 m"
      "\<And>m j. txGet B d2 m j = (if m = u \<and> j = hashKey then Some h else txGet B d1 m j)"
    using there 1(2) by (metis prod.inject)
  let ?a = "the (userOf B db u)"
  have "userOf B db u = Some ?a" using there by (simp add: userOf_def)
  moreover have "userOf B db' = (userOf B db)(u \<mapsto> ?a\<lparr>acSalt := s, acHash := h\<rparr>)"
  proof
    fix n
    show "userOf B db' n = ((userOf B db)(u \<mapsto> ?a\<lparr>acSalt := s, acHash := h\<rparr>)) n"
      using there by (simp add: userOf_def getString_def 1(2,3) 2)
  qed
  ultimately show thesis by (rule that)
qed

lemma dbDeleteUser_ok:
  assumes "bolt_ok B" "dbDeleteUser B u db = (Ok (), db')"
  shows "userOf B db u \<noteq> None" and "userOf B db' = (userOf B db)(u := None)"
proof -
  have body:
    "(case txDelete B db u of (Some e, db) \<Rightarrow> (TxErr (bucketErr ''delete'' u e) (), db)
      | (None, db) \<Rightarrow> (TxDone (), db)) = (TxDone (), db')"
    by (rule txOutcome_ok [OF assms(2) [unfolded dbDeleteUser_def]])
  then have there: "txBucket B db u"
    using bolt_delete_missing [OF assms(1), of db u] by (cases "txBucket B db u") auto
  then show "userOf B db u \<noteq> None" by (simp add: userOf_def)
  from bolt_delete_old [OF assms(1) there] obtain d1 where
    1: "txDelete B db u = (None, d1)" "\<And>m. txBucket B d1 m \<longleftrightarrow> m \<noteq> u \<and> txBucket B db m"
      "\<And>m k. m \<noteq> u \<Longrightarrow> txGet B d1 m k = txGet B db m k" by metis
  with body have "db' = d1" by simp
  show "userOf B db' = (userOf B db)(u := None)"
  proof
    fix n
    show "userOf B db' n = ((userOf B db)(u := None)) n"
      by (cases "n = u") (simp_all add: userOf_def getString_def 1(2,3) \<open>db' = d1\<close>)
  qed
qed

lemma performUser_fails: "performUser B e db = (r, db') \<Longrightarrow> r \<noteq> Ok () \<Longrightarrow> db' = db"
  by (cases e) (auto simp: InsertUser_def dbChangePassword_def dbDeleteUser_def elim!: txOutcome_cases)

lemma performUser_succeeds:
  assumes "bolt_ok B" "validName (eventUser e)" "performUser B e db = (Ok (), db')"
  shows "specStep e (userOf B db) = Some (userOf B db')"
proof (cases e)
  case (SInsert u a)
  obtain s h m where "a = \<lparr>acSalt = s, acHash = h, acEmail = m\<rparr>" by (cases a)
  with SInsert show ?thesis using assms InsertUser_ok [OF assms(1), of u s h m db db'] by simp
next
  case (SChange u s h)
  with assms show ?thesis by (auto elim!: dbChangePassword_ok [OF assms(1)])
next
  case (SDelete u)
  with assms dbDeleteUser_ok [OF assms(1), of u db db'] show ?thesis by auto
qed

interpretation accounts: user_store "\<lambda>_. bolt_ok B" validName "userOf B" "performUser B" for B
  by unfold_locales (auto simp: performUser_succeeds intro: performUser_fails)

section \<open>When the operations succeed\<close>

lemma putOr_fits:
  assumes "bolt_ok B" "txBucket B db n" "validName k" "length v \<le> maxValueSize"
  obtains d where "putOr B n k v cont db = cont d" "txBucket B d n"
proof -
  from bolt_put [OF assms] obtain d where "txPut B db n k v = (None, d)" "\<And>m. txBucket B d m \<longleftrightarrow> txBucket B db m"
    by metis
  with assms(2) show thesis by (intro that [of d]) (simp_all add: putOr_def)
qed

fun eventFits :: "storeEvent \<Rightarrow> bool" where
  "eventFits (SInsert u a) \<longleftrightarrow>
     length (acSalt a) \<le> maxValueSize \<and> length (acHash a) \<le> maxValueSize \<and> length (acEmail a) \<le> maxValueSize"
| "eventFits (SChange u s h) \<longleftrightarrow> length s \<le> maxValueSize \<and> length h \<le> maxValueSize"
| "eventFits (SDelete u) \<longleftrightarrow> True"

text \<open>In an open database an operation fails only when the specification has no effect for it.\<close>

lemma InsertUser_live:
  assumes "bolt_ok B" "bolt_live B" "validName u" "eventFits (SInsert u a)"
  shows "fst (InsertUser B u (acSalt a) (acHash a) (acEmail a) db) =
      (if userOf B db u = None then Ok () else Err (bucketErr ''create'' u ErrBucketExists))"
proof (cases "txBucket B db u")
  case True
  then show ?thesis
    using bolt_create_old [OF assms(1) True]
    by (simp add: InsertUser_def boltUpdate_live [OF assms(2)] txOutcome_def userOf_def)
next
  case False
  from bolt_create_new [OF assms(1,3) False] obtain d0 where
    0: "txCreate B db u = (None, d0)" "\<And>m. txBucket B d0 m \<longleftrightarrow> m = u \<or> txBucket B db m" by metis
  from putOr_fits [OF assms(1) _ userKeys(1), of d0 u "acSalt a"] 0(2) assms(4) obtain d1 where
    1: "putOr B u saltKey (acSalt a) (putOr B u hashKey (acHash a)
          (putOr B u emailKey (acEmail a) (\<lambda>db. (TxDone (), db)))) d0 =
        putOr B u hashKey (acHash a) (putOr B u emailKey (acEmail a) (\<lambda>db. (TxDone (), db))) d1"
      "txBucket B d1 u" by auto
  from putOr_fits [OF assms(1) 1(2) userKeys(2), of "acHash a"] assms(4) obtain d2 where
    2: "putOr B u hashKey (acHash a) (putOr B u emailKey (acEmail a) (\<lambda>db. (TxDone (), db))) d1 =
        putOr B u emailKey (acEmail a) (\<lambda>db. (TxDone (), db)) d2" "txBucket B d2 u" by auto
  from putOr_fits [OF assms(1) 2(2) userKeys(3), of "acEmail a"] assms(4) obtain d3 where
    "putOr B u emailKey (acEmail a) (\<lambda>db. (TxDone (), db)) d2 = (TxDone (), d3)" by auto
  with 0(1) 1(1) 2(1) False show ?thesis
    by (simp add: InsertUser_def boltUpdate_live [OF assms(2)] txOutcome_def userOf_def)
qed

lemma dbChangePassword_live:
  assumes "bolt_ok B" "bolt_live B" "eventFits (SChange u s h)"
  shows "fst (dbChangePassword B u s h db) =
    (if userOf B db u = None then Err (missingUser u) else Ok ())"
proof (cases "txBucket B db u")
  case False
  then show ?thesis
    by (simp add: dbChangePassword_def boltUpdate_live [OF assms(2)] txOutcome_def userOf_def)
next
  case True
  from putOr_fits [OF assms(1) True userKeys(1), of s] assms(3) obtain d1 where
    1: "putOr B u saltKey s (putOr B u hashKey h (\<lambda>db. (TxDone (), db))) db =
        putOr B u hashKey h (\<lambda>db. (TxDone (), db)) d1" "txBucket B d1 u" by auto
  from putOr_fits [OF assms(1) 1(2) userKeys(2), of h] assms(3) obtain d2 where
    "putOr B u hashKey h (\<lambda>db. (TxDone (), db)) d1 = (TxDone (), d2)" by auto
  with 1(1) True show ?thesis
    by (simp add: dbChangePassword_def boltUpdate_live [OF assms(2)] txOutcome_def userOf_def)
qed

lemma dbDeleteUser_live:
  assumes "bolt_ok B" "bolt_live B"
  shows "fst (dbDeleteUser B u db) =
    (if userOf B db u = None then Err (bucketErr ''delete'' u ErrBucketNotFound) else Ok ())"
proof (cases "txBucket B db u")
  case False
  then show ?thesis
    using bolt_delete_missing [OF assms(1) False]
    by (simp add: dbDeleteUser_def boltUpdate_live [OF assms(2)] txOutcome_def userOf_def)
next
  case True
  from bolt_delete_old [OF assms(1) True] obtain d where "txDelete B db u = (None, d)" by metis
  with True show ?thesis
    by (simp add: dbDeleteUser_def boltUpdate_live [OF assms(2)] txOutcome_def userOf_def)
qed

lemma GetSaltAndHash_live:
  "bolt_live B \<Longrightarrow> GetSaltAndHash B u db =
     (case userOf B db u of None \<Rightarrow> Err (missingUser u) | Some a \<Rightarrow> Ok (acSalt a, acHash a))"
  by (simp add: GetSaltAndHash_def boltView_live userOf_def)

lemma GetEmail_live:
  "bolt_live B \<Longrightarrow> GetEmail B u db =
     (case userOf B db u of None \<Rightarrow> Err (missingUser u) | Some a \<Rightarrow> Ok (acEmail a))"
  by (simp add: GetEmail_def boltView_live userOf_def)

lemma performUser_live:
  assumes "bolt_ok B" "bolt_live B" "validName (eventUser e)" "eventFits e"
  shows "fst (performUser B e db) = Ok () \<longleftrightarrow> specStep e (userOf B db) \<noteq> None"
proof (cases e)
  case (SInsert u a)
  with assms show ?thesis by (simp add: InsertUser_live [where a = a])
next
  case (SChange u s h)
  with assms show ?thesis by (simp add: dbChangePassword_live)
next
  case (SDelete u)
  with assms show ?thesis by (simp add: dbDeleteUser_live)
qed

section \<open>Property\<close>

text \<open>Which error an insertion or a deletion gives in an open database.\<close>

lemma performUser_errors:
  assumes "bolt_ok B" "bolt_live B" "validName (eventUser e)" "eventFits e" "performUser B e db = (r, db')" "r \<noteq> Ok ()"
  shows "e = SInsert u a \<Longrightarrow> errors_is (the_err r) ErrBucketExists"
    and "e = SDelete u \<Longrightarrow> errors_is (the_err r) ErrBucketNotFound"
proof -
  assume "e = SInsert u a"
  with assms InsertUser_live [of B u a db] have "r = Err (bucketErr ''create'' u ErrBucketExists)"
    by (simp split: if_splits)
  then show "errors_is (the_err r) ErrBucketExists" by (simp add: bucketErr_def)
next
  assume "e = SDelete u"
  with assms dbDeleteUser_live [OF assms(1), of u db] have "r = Err (bucketErr ''delete'' u ErrBucketNotFound)"
    by (simp split: if_splits)
  then show "errors_is (the_err r) ErrBucketNotFound" by (simp add: bucketErr_def)
qed

text \<open>C12: The user database is the map its specification describes: an operation that reports success
  has had exactly the specified effect on the accounts, one that reports an error has changed
  nothing, no account but the named one ever changes and none its e-mail address; and in an open database an operation whose values fit succeeds exactly when the
  specification allows it, a second insertion being \<open>ErrBucketExists\<close> and the deletion of a
  missing user \<open>ErrBucketNotFound\<close>.\<close>
theorem userdb_refines_map:
  assumes "bolt_ok B" and "validName (eventUser e)" and "performUser B e db = (r, db')"
  shows "(if r = Ok () then specStep e (userOf B db) = Some (userOf B db') else db' = db) \<and>
    (\<forall>u. u \<noteq> eventUser e \<longrightarrow> userOf B db' u = userOf B db u) \<and>
    (\<forall>u a b. userOf B db u = Some a \<and> userOf B db' u = Some b \<longrightarrow> acEmail b = acEmail a) \<and>
    (bolt_live B \<and> eventFits e \<longrightarrow>
       (r = Ok () \<longleftrightarrow> specStep e (userOf B db) \<noteq> None) \<and>
       (\<forall>u a. e = SInsert u a \<and> r \<noteq> Ok () \<longrightarrow> errors_is (the_err r) ErrBucketExists) \<and>
       (\<forall>u. e = SDelete u \<and> r \<noteq> Ok () \<longrightarrow> errors_is (the_err r) ErrBucketNotFound))"
proof (intro conjI impI)
  show "if r = Ok () then specStep e (userOf B db) = Some (userOf B db') else db' = db"
    using assms
    by (cases rule: accounts.perform_cases) simp_all
next
  show "\<forall>u. u \<noteq> eventUser e \<longrightarrow> userOf B db' u = userOf B db u"
    using accounts.other_account [OF assms(1,2)] assms(3) by (metis snd_conv)
next
  show "\<forall>u a b. userOf B db u = Some a \<and> userOf B db' u = Some b \<longrightarrow> acEmail b = acEmail a"
    using accounts.email_kept [OF assms(1,2)] assms(3) by (metis snd_conv)
next
  assume live: "bolt_live B \<and> eventFits e"
  show "r = Ok () \<longleftrightarrow> specStep e (userOf B db) \<noteq> None"
    using performUser_live [of B e db] assms live by simp
  show "\<forall>u a. e = SInsert u a \<and> r \<noteq> Ok () \<longrightarrow> errors_is (the_err r) ErrBucketExists"
    "\<forall>u. e = SDelete u \<and> r \<noteq> Ok () \<longrightarrow> errors_is (the_err r) ErrBucketNotFound"
    using performUser_errors [OF assms(1) _ assms(2) _ assms(3)] live by blast+
qed

theorem userdb_refines_map_witness:
  "fst (performUser refBolt (SInsert ''anna'' \<lparr>acSalt = ''s'', acHash = ''h'', acEmail = ''a@b''\<rparr>) []) = Ok ()"
proof -
  let ?e = "SInsert ''anna'' \<lparr>acSalt = ''s'', acHash = ''h'', acEmail = ''a@b''\<rparr>"
  have "userOf refBolt [] ''anna'' = None" by (simp add: userOf_def refBucket_def)
  then show ?thesis
    using userdb_refines_map [OF bolt_ok_ref, of ?e "[]"] bolt_live_ref
    by (cases "performUser refBolt ?e []") (simp add: validName_def maxValueSize_def)
qed

end
