(* ===== verification/Email.thy ===== *)
theory Email
  imports GoStd
begin

text \<open>
  The e-mail sender (\<open>email/email.go\<close>). \<open>smtp.SendMail\<close> is an argument \<open>post\<close>, which tells whether
  the server took a message; the messages it took are kept in an outbox.
\<close>

section \<open>The sender\<close>

record Sender =
  seUser :: string
  sePassword :: string
  seFrom :: string
  seHost :: string
  sePort :: string

record mail =
  mlAddr :: string
  mlFrom :: string
  mlTo :: string
  mlMsg :: string

definition ErrEmptyUsername :: goerror where "ErrEmptyUsername = ErrMsg ''username cannot be empty''"
definition ErrEmptyPassword :: goerror where "ErrEmptyPassword = ErrMsg ''password cannot be empty''"
definition ErrEmptyHost :: goerror where "ErrEmptyHost = ErrMsg ''host cannot be empty''"
definition ErrEmptyPort :: goerror where "ErrEmptyPort = ErrMsg ''port cannot be empty''"
definition ErrEmptyLogger :: goerror where "ErrEmptyLogger = ErrMsg ''logger cannot be nil''"

definition NewSender :: "string \<Rightarrow> string \<Rightarrow> string \<Rightarrow> string \<Rightarrow> bool \<Rightarrow> goerror + Sender" where
  "NewSender username password host port hasLogger =
     (if username = [] then Inl ErrEmptyUsername
      else if password = [] then Inl ErrEmptyPassword
      else if host = [] then Inl ErrEmptyHost
      else if port = [] then Inl ErrEmptyPort
      else if \<not> hasLogger then Inl ErrEmptyLogger
      else Inr \<lparr>seUser = username, sePassword = password, seFrom = username, seHost = host, sePort = port\<rparr>)"

definition crlf :: string where "crlf = [CHR 0x0D, CHR 0x0A]"
definition newline :: string where "newline = [CHR 0x0A]"

definition send ::
  "(mail \<Rightarrow> goerror option) \<Rightarrow> Sender \<Rightarrow> string \<Rightarrow> string \<Rightarrow> string \<Rightarrow> mail list \<Rightarrow> goerror option \<times> mail list" where
  "send post s to subject body outbox =
     (let m = \<lparr>mlAddr = seHost s @ '':'' @ sePort s, mlFrom = seFrom s, mlTo = to,
               mlMsg = ''Subject: '' @ subject @ crlf @ crlf @ body\<rparr>
      in case post m of Some e \<Rightarrow> (Some e, outbox) | None \<Rightarrow> (None, outbox @ [m]))"

definition subjectNewUser :: string where "subjectNewUser = ''Your credentials for BDUTS load balancer''"

definition msgNewUser :: "string \<Rightarrow> string \<Rightarrow> string" where
  "msgNewUser username password =
     ''Your username: '' @ username @ newline @ ''Your password: '' @ password @ newline @ newline @
     ''Please log in and change your password.'' @ newline @
     ''By changing your temporary password, you're helping to ensure that your account is secure '' @
     ''and that only you have access to it. It's also an opportunity to choose a password '' @
     ''that's easy for you to remember, but difficult for others to guess.''"

definition subjectPasswordChanged :: string where
  "subjectPasswordChanged = ''Your password has been changed''"

definition msgPasswordChanged :: string where
  "msgPasswordChanged =
     ''Your password has been changed.'' @ newline @ ''If'' @
     '' you did not change your password, please contact the administrator.''"

definition SendSignUpEmail ::
  "(mail \<Rightarrow> goerror option) \<Rightarrow> Sender \<Rightarrow> string \<Rightarrow> string \<Rightarrow> string \<Rightarrow> mail list \<Rightarrow> goerror option \<times> mail list" where
  "SendSignUpEmail post s to username password outbox =
     send post s to subjectNewUser (msgNewUser username password) outbox"

definition SendChangedPasswordEmail ::
  "(mail \<Rightarrow> goerror option) \<Rightarrow> Sender \<Rightarrow> string \<Rightarrow> mail list \<Rightarrow> goerror option \<times> mail list" where
  "SendChangedPasswordEmail post s to outbox =
     send post s to subjectPasswordChanged msgPasswordChanged outbox"

lemma send_cases:
  obtains (failed) e where "send post s to subject body outbox = (Some e, outbox)"
    | (sent) m where "send post s to subject body outbox = (None, outbox @ [m])" "mlTo m = to"
      "mlMsg m = ''Subject: '' @ subject @ crlf @ crlf @ body"
  by (cases "post \<lparr>mlAddr = seHost s @ '':'' @ sePort s, mlFrom = seFrom s, mlTo = to,
        mlMsg = ''Subject: '' @ subject @ crlf @ crlf @ body\<rparr>")
    (auto simp: send_def Let_def intro: failed sent)

end
