(* ===== verification/Auth.thy ===== *)
theory Auth
  imports UserDb Email GoHttp GoJson
begin

text \<open>
  The authentication service (\<open>auth/auth.go\<close>) over the user database and the e-mail sender. The
  validator, bcrypt, JWT and the query of a URL are arguments (\<open>authLib\<close>); what one request meets
  of the outside, that is the random bytes, the hash bcrypt salts, the clock and the mail server,
  is \<open>authWorld\<close>. A handler returns its outcome, the writer and the state.
\<close>

section \<open>State and surroundings\<close>

datatype claimValue = ClaimString string | ClaimOther

record jwtToken =
  jtValid :: bool
  jtClaims :: "(string \<Rightarrow> claimValue option) option"

text \<open>
  \<open>vTag tag value other\<close>: the validator accepts \<open>value\<close> in a field with this tag, \<open>other\<close> being the
  field an \<open>eqfield\<close> names. \<open>jwtParse methods keyFunc now token\<close> calls \<open>keyFunc\<close> with the answer
  to whether the token's method is an HMAC.
\<close>

record authLib =
  vTag :: "string \<Rightarrow> string \<Rightarrow> string \<Rightarrow> bool"
  bcryptCompare :: "bytes \<Rightarrow> bytes \<Rightarrow> goerror option"
  jwtSign :: "bytes \<Rightarrow> string \<Rightarrow> int \<Rightarrow> goerror + string"
  jwtParse :: "string list \<Rightarrow> (bool \<Rightarrow> goerror + bytes) \<Rightarrow> time \<Rightarrow> string \<Rightarrow> goerror + jwtToken"
  queryGet :: "url \<Rightarrow> string \<Rightarrow> string"

record authWorld =
  awRand :: "nat \<Rightarrow> nat \<Rightarrow> goerror + bytes"
  awBcrypt :: "bytes \<Rightarrow> goerror + bytes"
  awNow :: time
  awPost :: "mail \<Rightarrow> goerror option"

record authService =
  asSender :: Sender
  asSignKey :: bytes

record 'db authState =
  asDb :: 'db
  asOutbox :: "mail list"

definition passwordLength :: nat where "passwordLength = 25"
definition saltLength :: nat where "saltLength = 20"
definition tokenExpirationTime :: int where "tokenExpirationTime = 20"
definition tokenLen :: nat where "tokenLen = 2"
definition defaultUser :: string where "defaultUser = ''admin''"
definition defaultPassword :: string where "defaultPassword = ''verySecureAdminPassword12345''"
definition SignInError :: string where "SignInError = ''Invalid username or password''"
definition usernameKey :: string where "usernameKey = ''username''"

definition changePasswordError :: string where
  "changePasswordError =
     ''Password length must be between 10 and 25 characters. New password and new password confirmation must match.''"

definition signUpValidationError :: string where
  "signUpValidationError =
     ''Username must be between 4 and 20 characters. Username must contain only letters and numbers. Email must be valid.''"

definition signInValidationError :: string where
  "signInValidationError =
     ''Username must be between 4 and 20 characters. Username must contain only letters and numbers. Password required.''"

section \<open>Forms\<close>

record SignUpUser =
  suUsername :: string
  suEmail :: string

record SignInUser =
  siUsername :: string
  siPassword :: string

record ChangePasswordUser =
  cpOldPassword :: string
  cpNewPassword :: string
  cpNewPasswordConfirm :: string

definition usernameTag :: string where "usernameTag = ''required,min=4,max=20,alphanum''"

definition decodeSignUp :: "bytes \<Rightarrow> goerror option \<times> SignUpUser" where
  "decodeSignUp body =
     decodeBody [(''username'', strField (\<lambda>s u. u\<lparr>suUsername := s\<rparr>)), (''email'', strField (\<lambda>s u. u\<lparr>suEmail := s\<rparr>))]
       \<lparr>suUsername = [], suEmail = []\<rparr> body"

definition validSignUp :: "authLib \<Rightarrow> SignUpUser \<Rightarrow> bool" where
  "validSignUp A u \<longleftrightarrow> vTag A usernameTag (suUsername u) [] \<and> vTag A ''required,email'' (suEmail u) []"

definition decodeSignIn :: "bytes \<Rightarrow> goerror option \<times> SignInUser" where
  "decodeSignIn body =
     decodeBody [(''username'', strField (\<lambda>s u. u\<lparr>siUsername := s\<rparr>)), (''password'', strField (\<lambda>s u. u\<lparr>siPassword := s\<rparr>))]
       \<lparr>siUsername = [], siPassword = []\<rparr> body"

definition validSignIn :: "authLib \<Rightarrow> SignInUser \<Rightarrow> bool" where
  "validSignIn A u \<longleftrightarrow> vTag A usernameTag (siUsername u) [] \<and> vTag A ''required'' (siPassword u) []"

definition decodeChange :: "bytes \<Rightarrow> goerror option \<times> ChangePasswordUser" where
  "decodeChange body =
     decodeBody [(''oldPassword'', strField (\<lambda>s u. u\<lparr>cpOldPassword := s\<rparr>)),
         (''newPassword'', strField (\<lambda>s u. u\<lparr>cpNewPassword := s\<rparr>)),
         (''newPasswordConfirm'', strField (\<lambda>s u. u\<lparr>cpNewPasswordConfirm := s\<rparr>))]
       \<lparr>cpOldPassword = [], cpNewPassword = [], cpNewPasswordConfirm = []\<rparr> body"

definition validChange :: "authLib \<Rightarrow> ChangePasswordUser \<Rightarrow> bool" where
  "validChange A u \<longleftrightarrow>
     vTag A ''required'' (cpOldPassword u) [] \<and> vTag A ''required,min=10,max=25'' (cpNewPassword u) [] \<and>
     vTag A ''required,eqfield=NewPassword'' (cpNewPasswordConfirm u) (cpNewPassword u)"

section \<open>Secrets\<close>

text \<open>\<open>base64.URLEncoding\<close>.\<close>

definition base64Char :: "nat \<Rightarrow> char" where
  "base64Char n =
     (if n < 26 then char_of (65 + n)
      else if n < 52 then char_of (71 + n)
      else if n < 62 then char_of (n - 4)
      else if n = 62 then CHR ''-'' else CHR ''_'')"

fun base64 :: "bytes \<Rightarrow> string" where
  "base64 [] = []"
| "base64 [a] = (let n = of_char a * 16 in [base64Char (n div 64), base64Char (n mod 64), CHR ''='', CHR ''=''])"
| "base64 [a, b] =
     (let n = (of_char a * 256 + of_char b) * 4
      in [base64Char (n div 4096), base64Char (n div 64 mod 64), base64Char (n mod 64), CHR ''=''])"
| "base64 (a # b # c # s) =
     (let n = (of_char a * 256 + of_char b) * 256 + of_char c
      in base64Char (n div 262144) # base64Char (n div 4096 mod 64) # base64Char (n div 64 mod 64) #
         base64Char (n mod 64) # base64 s)"

definition generateRandomPassword :: "authWorld \<Rightarrow> nat \<Rightarrow> goerror + string" where
  "generateRandomPassword W k = (case awRand W k passwordLength of Inl e \<Rightarrow> Inl e | Inr b \<Rightarrow> Inr (base64 b))"

definition generateSalt :: "authWorld \<Rightarrow> nat \<Rightarrow> goerror + string" where
  "generateSalt W k = (case awRand W k saltLength of Inl e \<Rightarrow> Inl e | Inr b \<Rightarrow> Inr (base64 b))"

text \<open>Seconds since 1970 of an instant.\<close>

definition unixSec :: "time \<Rightarrow> int" where
  "unixSec t = (t - goDate 1970 1 1) div nsPerSec"

definition generateToken :: "authLib \<Rightarrow> authService \<Rightarrow> authWorld \<Rightarrow> string \<Rightarrow> goerror + string" where
  "generateToken A svc W username =
     jwtSign A (asSignKey svc) username (unixSec (awNow W + tokenExpirationTime * 60 * nsPerSec))"

definition isAuthorized :: "authLib \<Rightarrow> 'db bolt \<Rightarrow> string \<Rightarrow> string \<Rightarrow> 'db \<Rightarrow> bool" where
  "isAuthorized A B username password db =
     (case GetSaltAndHash B username db of
        Ok (salt, hsh) \<Rightarrow> bcryptCompare A hsh (password @ salt) = None
      | Err _ \<Rightarrow> False
      | Panic _ \<Rightarrow> False)"

section \<open>Handlers\<close>

type_synonym 's handler = "rwriter \<Rightarrow> request \<Rightarrow> 's \<Rightarrow> unit res \<times> rwriter \<times> 's"

definition reply :: "nat \<Rightarrow> rwriter \<Rightarrow> 's \<Rightarrow> unit res \<times> rwriter \<times> 's" where
  "reply code w s = (Ok (), writeHeader code w, s)"

definition replyError :: "string \<Rightarrow> nat \<Rightarrow> rwriter \<Rightarrow> 's \<Rightarrow> unit res \<times> rwriter \<times> 's" where
  "replyError msg code w s = (Ok (), httpError msg code w, s)"

text \<open>The key function handed to \<open>jwt.Parse\<close>.\<close>

definition keyFunc :: "authService \<Rightarrow> bool \<Rightarrow> goerror + bytes" where
  "keyFunc svc isHMAC = (if \<not> isHMAC then Inl (ErrMsg ''unexpected signing method'') else Inr (asSignKey svc))"

text \<open>\<open>claims["username"]\<close>; the handlers behind read it from the context as a string.\<close>

definition claimedUser :: "(string \<Rightarrow> claimValue option) \<Rightarrow> string option" where
  "claimedUser claims =
     (case claims ''username'' of Some (ClaimString u) \<Rightarrow> Some u | Some ClaimOther \<Rightarrow> None | None \<Rightarrow> None)"

definition AuthenticationMiddleware ::
  "authLib \<Rightarrow> authService \<Rightarrow> time \<Rightarrow> 's handler \<Rightarrow> 's handler" where
  "AuthenticationMiddleware A svc now h w r s =
     (let authorizationHeader = headerGet (reqHeader r) ''Authorization'' in
      if authorizationHeader = [] then reply 401 w s
      else let bearerToken = splitOn CHR '' '' authorizationHeader in
        if length bearerToken \<noteq> tokenLen then reply 400 w s
        else case jwtParse A [''HS512''] (keyFunc svc) now (bearerToken ! 1) of
          Inl e \<Rightarrow> reply 401 w s
        | Inr token \<Rightarrow>
            (case jtClaims token of
               None \<Rightarrow> reply 401 w s
             | Some claims \<Rightarrow>
                 if \<not> jtValid token then reply 401 w s
                 else h w (r\<lparr>ctxUser := claimedUser claims\<rparr>) s))"

text \<open>The user the first start of the program creates.\<close>

definition SignUpDefaultUser ::
  "'db bolt \<Rightarrow> authWorld \<Rightarrow> 'db authState \<Rightarrow> unit res \<times> 'db authState" where
  "SignUpDefaultUser B W s =
     (case generateSalt W 0 of
        Inl e \<Rightarrow> (Err (ErrWrap ''failed to generate salt: '' e), s)
      | Inr salt \<Rightarrow>
          (case awBcrypt W (defaultPassword @ salt) of
             Inl e \<Rightarrow> (Err (ErrWrap ''failed to hash password: '' e), s)
           | Inr hsh \<Rightarrow>
               (case InsertUser B defaultUser salt hsh ''admin@localhost'' (asDb s) of
                  (Ok (), db) \<Rightarrow> (Ok (), s\<lparr>asDb := db\<rparr>)
                | (Err e, db) \<Rightarrow> (Err (ErrWrap ''failed to insert default user: '' e), s\<lparr>asDb := db\<rparr>)
                | (Panic m, db) \<Rightarrow> (Panic m, s\<lparr>asDb := db\<rparr>))))"

text \<open>\<open>SignUp\<close> once its form is valid, in two parts: the secrets, and the account with the mail.\<close>

definition registerUser ::
  "'db bolt \<Rightarrow> authService \<Rightarrow> authWorld \<Rightarrow> SignUpUser \<Rightarrow> string \<Rightarrow> string \<Rightarrow> string \<Rightarrow>
   rwriter \<Rightarrow> 'db authState \<Rightarrow> unit res \<times> rwriter \<times> 'db authState" where
  "registerUser B svc W user password salt hsh w s =
     (case InsertUser B (suUsername user) salt hsh (suEmail user) (asDb s) of
        (Panic m, db) \<Rightarrow> (Panic m, w, s\<lparr>asDb := db\<rparr>)
      | (Err e, db) \<Rightarrow>
          if errors_is e ErrBucketExists then replyError ''User already exists'' 409 w (s\<lparr>asDb := db\<rparr>)
          else reply 500 w (s\<lparr>asDb := db\<rparr>)
      | (Ok (), db) \<Rightarrow>
          (case SendSignUpEmail (awPost W) (asSender svc) (suEmail user) (suUsername user) password (asOutbox s) of
             (Some e, out) \<Rightarrow> reply 500 w (s\<lparr>asDb := db, asOutbox := out\<rparr>)
           | (None, out) \<Rightarrow> reply 201 w (s\<lparr>asDb := db, asOutbox := out\<rparr>)))"

definition SignUp :: "authLib \<Rightarrow> 'db bolt \<Rightarrow> authService \<Rightarrow> authWorld \<Rightarrow> 'db authState handler" where
  "SignUp A B svc W w r s =
     (if reqMethod r \<noteq> ''POST'' then reply 405 w s
      else case decodeSignUp (reqBody r) of
        (Some e, _) \<Rightarrow> replyError (errText e) 400 w s
      | (None, user) \<Rightarrow>
          if \<not> validSignUp A user then replyError signUpValidationError 400 w s
          else case generateRandomPassword W 0 of
            Inl e \<Rightarrow> reply 500 w s
          | Inr password \<Rightarrow>
              (case generateSalt W 1 of
                 Inl e \<Rightarrow> reply 500 w s
               | Inr salt \<Rightarrow>
                   (case awBcrypt W (password @ salt) of
                      Inl e \<Rightarrow> reply 500 w s
                    | Inr hsh \<Rightarrow> registerUser B svc W user password salt hsh w s)))"

definition SignIn :: "authLib \<Rightarrow> 'db bolt \<Rightarrow> authService \<Rightarrow> authWorld \<Rightarrow> 'db authState handler" where
  "SignIn A B svc W w r s =
     (if reqMethod r \<noteq> ''POST'' then reply 405 w s
      else case decodeSignIn (reqBody r) of
        (Some e, _) \<Rightarrow> reply 400 w s
      | (None, user) \<Rightarrow>
          if \<not> validSignIn A user then replyError signInValidationError 400 w s
          else if \<not> isAuthorized A B (siUsername user) (siPassword user) (asDb s) then
            replyError SignInError 401 w s
          else case generateToken A svc W (siUsername user) of
            Inl e \<Rightarrow> reply 500 w s
          | Inr token \<Rightarrow> reply 200 (setHeader ''Authorization'' (''Bearer '' @ token) w) s)"

text \<open>\<open>ChangePassword\<close> once the old password is accepted.\<close>

definition storePassword ::
  "'db bolt \<Rightarrow> authService \<Rightarrow> authWorld \<Rightarrow> string \<Rightarrow> string \<Rightarrow> string \<Rightarrow>
   rwriter \<Rightarrow> 'db authState \<Rightarrow> unit res \<times> rwriter \<times> 'db authState" where
  "storePassword B svc W username salt hsh w s =
     (case dbChangePassword B username salt hsh (asDb s) of
        (Panic m, db) \<Rightarrow> (Panic m, w, s\<lparr>asDb := db\<rparr>)
      | (Err e, db) \<Rightarrow> reply 500 w (s\<lparr>asDb := db\<rparr>)
      | (Ok (), db) \<Rightarrow>
          (case GetEmail B username db of
             Panic m \<Rightarrow> (Panic m, w, s\<lparr>asDb := db\<rparr>)
           | Err e \<Rightarrow> reply 500 w (s\<lparr>asDb := db\<rparr>)
           | Ok emailAddress \<Rightarrow>
               (case SendChangedPasswordEmail (awPost W) (asSender svc) emailAddress (asOutbox s) of
                  (Some e, out) \<Rightarrow> reply 500 w (s\<lparr>asDb := db, asOutbox := out\<rparr>)
                | (None, out) \<Rightarrow> reply 200 w (s\<lparr>asDb := db, asOutbox := out\<rparr>))))"

definition ChangePassword :: "authLib \<Rightarrow> 'db bolt \<Rightarrow> authService \<Rightarrow> authWorld \<Rightarrow> 'db authState handler" where
  "ChangePassword A B svc W w r s =
     (if reqMethod r \<noteq> ''PATCH'' then reply 405 w s
      else case decodeChange (reqBody r) of
        (Some e, _) \<Rightarrow> reply 400 w s
      | (None, user) \<Rightarrow>
          if \<not> validChange A user then replyError changePasswordError 422 w s
          else case ctxUser r of
            None \<Rightarrow> reply 500 w s
          | Some username \<Rightarrow>
              if \<not> isAuthorized A B username (cpOldPassword user) (asDb s) then reply 401 w s
              else case generateSalt W 0 of
                Inl e \<Rightarrow> reply 500 w s
              | Inr salt \<Rightarrow>
                  (case awBcrypt W (cpNewPassword user @ salt) of
                     Inl e \<Rightarrow> reply 500 w s
                   | Inr hsh \<Rightarrow> storePassword B svc W username salt hsh w s))"

definition DeleteUser :: "authLib \<Rightarrow> 'db bolt \<Rightarrow> 'db authState handler" where
  "DeleteUser A B w r s =
     (if reqMethod r \<noteq> ''DELETE'' then reply 405 w s
      else case dbDeleteUser B (queryGet A (reqURL r) usernameKey) (asDb s) of
        (Panic m, db) \<Rightarrow> (Panic m, w, s\<lparr>asDb := db\<rparr>)
      | (Err e, db) \<Rightarrow>
          if errors_is e ErrBucketNotFound then reply 404 w (s\<lparr>asDb := db\<rparr>)
          else reply 500 w (s\<lparr>asDb := db\<rparr>)
      | (Ok (), db) \<Rightarrow> reply 204 w (s\<lparr>asDb := db\<rparr>))"

end
