(* ===== verification/AuthLaws.thy ===== *)
theory AuthLaws
  imports Auth
begin

text \<open>
  What the authentication service relies on: the documented behaviour of the validator, bcrypt,
  JWT and the random source as predicates over the arguments of \<open>Auth\<close>, a concrete instance of
  each, and the lemmas about the secrets the service makes itself.
\<close>

section \<open>Secrets\<close>

lemma base64Char_range: "0 < (of_char (base64Char n) :: nat)" "(of_char (base64Char n) :: nat) < 128"
  by (auto simp: base64Char_def)

lemma set_base64: "set (base64 s) \<subseteq> range base64Char \<union> {CHR ''=''}"
  by (induction s rule: base64.induct) (auto simp: Let_def)

lemma length_base64: "length (base64 s) = 4 * ((length s + 2) div 3)"
proof (induction s rule: base64.induct)
  case (4 a b c s)
  have "(length (a # b # c # s) + 2) div 3 = Suc ((length s + 2) div 3)" by simp
  with 4 show ?case by (simp add: Let_def)
qed (simp_all add: Let_def)

lemma base64_ascii: "asciiString (base64 s)"
  using set_base64 [of s] base64Char_range(2) by (auto simp: asciiString_def list_all_iff)

lemma of_char_zero: "(of_char CHR 0x00 :: nat) = 0"
  by simp

lemma base64_no_nul: "CHR 0x00 \<notin> set (base64 s)"
proof
  assume "CHR 0x00 \<in> set (base64 s)"
  then obtain n where "CHR 0x00 = base64Char n" using set_base64 [of s] by auto
  with base64Char_range(1) [of n] show False by (metis less_irrefl of_char_zero)
qed

text \<open>The secrets bcrypt tells apart: at most 72 bytes, without a NUL.\<close>

definition plainSecret :: "string \<Rightarrow> bool" where
  "plainSecret p \<longleftrightarrow> length p \<le> 72 \<and> CHR 0x00 \<notin> set p"

section \<open>The laws\<close>

text \<open>\<open>crypto/rand\<close> fills the slice it is given.\<close>

definition rand_ok :: "authWorld \<Rightarrow> bool" where
  "rand_ok W \<longleftrightarrow> (\<forall>k n b. awRand W k n = Inr b \<longrightarrow> length b = n)"

text \<open>
  bcrypt refuses more than 72 bytes, its hashes (of 60 characters) are short too, and a hash
  accepts the password it was made of. \<open>bcrypt_strong\<close> is the usual idealisation: it accepts no other
  password bcrypt could have distinguished from it.
\<close>

definition bcrypt_ok :: "authLib \<Rightarrow> authWorld \<Rightarrow> bool" where
  "bcrypt_ok A W \<longleftrightarrow>
     (\<forall>p h. awBcrypt W p = Inr h \<longrightarrow> length p \<le> 72 \<and> length h \<le> 72 \<and> bcryptCompare A h p = None)"

definition bcrypt_strong :: "authLib \<Rightarrow> authWorld \<Rightarrow> bool" where
  "bcrypt_strong A W \<longleftrightarrow>
     (\<forall>p q h. plainSecret p \<and> plainSecret q \<and> awBcrypt W p = Inr h \<and> bcryptCompare A h q = None \<longrightarrow> q = p)"

text \<open>
  The tags \<open>min\<close>, \<open>max\<close>, \<open>alphanum\<close> and \<open>required\<close> of the validator.
\<close>

definition validator_ok :: "authLib \<Rightarrow> bool" where
  "validator_ok A \<longleftrightarrow>
     (\<forall>u x. vTag A usernameTag u x \<longrightarrow> 4 \<le> length u \<and> length u \<le> 20 \<and> asciiString u) \<and>
     (\<forall>p x. vTag A ''required,min=10,max=25'' p x \<longrightarrow> 10 \<le> length p) \<and>
     (\<forall>p x. vTag A ''required,eqfield=NewPassword'' p x \<longrightarrow> p = x)"

text \<open>
  A token signed with a key is one word; as long as it has not expired it is accepted under that
  key with the name it was issued to, and from then on it is refused.
\<close>

definition jwt_ok :: "authLib \<Rightarrow> bool" where
  "jwt_ok A \<longleftrightarrow>
     (\<forall>key u expiry tok. jwtSign A key u expiry = Inr tok \<longrightarrow>
        CHR '' '' \<notin> set tok \<and>
        (\<forall>kf now. kf True = Inr key \<and> asciiString u \<and> unixSec now < expiry \<longrightarrow>
           (\<exists>claims. jwtParse A [''HS512''] kf now tok = Inr \<lparr>jtValid = True, jtClaims = Some claims\<rparr> \<and>
              claims ''username'' = Some (ClaimString u))) \<and>
        (\<forall>kf now. kf True = Inr key \<and> expiry \<le> unixSec now \<longrightarrow>
           (\<exists>e. jwtParse A [''HS512''] kf now tok = Inl e)))"

lemma jwt_accepts:
  assumes "jwt_ok A" "jwtSign A key u expiry = Inr tok" "kf True = Inr key" "asciiString u" "unixSec now < expiry"
  obtains claims where
    "jwtParse A [''HS512''] kf now tok = Inr \<lparr>jtValid = True, jtClaims = Some claims\<rparr>"
    "claims ''username'' = Some (ClaimString u)"
  using assms unfolding jwt_ok_def by blast

lemma jwt_expires:
  assumes "jwt_ok A" "jwtSign A key u expiry = Inr tok" "kf True = Inr key" "expiry \<le> unixSec now"
  obtains e where "jwtParse A [''HS512''] kf now tok = Inl e"
  using assms unfolding jwt_ok_def by blast

lemma validator_name:
  assumes "validator_ok A" "vTag A usernameTag u x"
  shows "asciiString u" "validName u" "u \<noteq> []"
  using assms unfolding validator_ok_def validName_def by fastforce+

lemma generateRandomPassword_plain:
  assumes "rand_ok W" "generateRandomPassword W k = Inr p"
  shows "length p = 36" "CHR 0x00 \<notin> set p" "asciiString p"
  using assms
  by (auto simp: generateRandomPassword_def rand_ok_def length_base64 base64_no_nul base64_ascii
      passwordLength_def split: sum.splits)

lemma generateSalt_plain:
  assumes "rand_ok W" "generateSalt W k = Inr p"
  shows "length p = 28" "CHR 0x00 \<notin> set p"
  using assms
  by (auto simp: generateSalt_def rand_ok_def length_base64 base64_no_nul saltLength_def split: sum.splits)

section \<open>A concrete instance\<close>

text \<open>
  Zeros for random bytes, a hash that is the password, and a token that spells out its expiry, key
  and name. The witnesses apply the properties to it.
\<close>

definition samplePost :: "mail \<Rightarrow> goerror option" where
  "samplePost m = (if mlTo m = ''nobody'' then Some (ErrMsg ''unknown recipient'') else None)"

definition sampleAuthWorld :: "time \<Rightarrow> authWorld" where
  "sampleAuthWorld now =
     \<lparr>awRand = \<lambda>k n. Inr (replicate n CHR 0x00),
      awBcrypt = \<lambda>p. if length p \<le> 72 then Inr p else Inl (ErrMsg ''password length exceeds 72 bytes''),
      awNow = now, awPost = samplePost\<rparr>"

definition sampleTag :: "string \<Rightarrow> string \<Rightarrow> string \<Rightarrow> bool" where
  "sampleTag tag v other \<longleftrightarrow>
     (if tag = usernameTag then 4 \<le> length v \<and> length v \<le> 20 \<and> asciiString v
      else if tag = ''required,min=10,max=25'' then 10 \<le> length v \<and> length v \<le> 25
      else if tag = ''required,eqfield=NewPassword'' then v \<noteq> [] \<and> v = other
      else v \<noteq> [])"

definition wordLike :: "string \<Rightarrow> bool" where
  "wordLike s \<longleftrightarrow> CHR '' '' \<notin> set s \<and> CHR '';'' \<notin> set s"

definition sampleSign :: "bytes \<Rightarrow> string \<Rightarrow> int \<Rightarrow> goerror + string" where
  "sampleSign key u expiry =
     (if wordLike key \<and> wordLike u \<and> - (2 ^ 63) \<le> expiry \<and> expiry < 2 ^ 63
      then Inr (printInt expiry @ '';'' @ key @ '';'' @ u) else Inl (ErrMsg ''key''))"

definition sampleParse ::
  "string list \<Rightarrow> (bool \<Rightarrow> goerror + bytes) \<Rightarrow> time \<Rightarrow> string \<Rightarrow> goerror + jwtToken" where
  "sampleParse methods kf now tok =
     (case splitOn CHR '';'' tok of
        [n, key, u] \<Rightarrow>
          (case parseInt64 n of
             Some expiry \<Rightarrow>
               if kf True = Inr key \<and> unixSec now < expiry
               then Inr \<lparr>jtValid = True, jtClaims = Some [''username'' \<mapsto> ClaimString u]\<rparr>
               else Inl (ErrMsg ''token is expired'')
           | None \<Rightarrow> Inl (ErrMsg ''token is malformed''))
      | _ \<Rightarrow> Inl (ErrMsg ''token is malformed''))"

definition sampleLib :: authLib where
  "sampleLib =
     \<lparr>vTag = sampleTag, bcryptCompare = \<lambda>h p. if h = p then None else Some (ErrMsg ''mismatch''),
      jwtSign = sampleSign, jwtParse = sampleParse, queryGet = \<lambda>u k. urlRest u\<rparr>"

lemma sampleLib_simps [simp]:
  "vTag sampleLib = sampleTag" "jwtSign sampleLib = sampleSign" "jwtParse sampleLib = sampleParse"
  "bcryptCompare sampleLib h p = (if h = p then None else Some (ErrMsg ''mismatch''))"
  "queryGet sampleLib u k = urlRest u"
  by (simp_all add: sampleLib_def)

lemma sampleAuthWorld_simps [simp]:
  "awRand (sampleAuthWorld now) k n = Inr (replicate n CHR 0x00)"
  "awBcrypt (sampleAuthWorld now) p = (if length p \<le> 72 then Inr p else Inl (ErrMsg ''password length exceeds 72 bytes''))"
  "awNow (sampleAuthWorld now) = now" "awPost (sampleAuthWorld now) = samplePost"
  by (simp_all add: sampleAuthWorld_def)

lemma rand_ok_sample: "rand_ok (sampleAuthWorld now)"
  by (simp add: rand_ok_def)

lemma bcrypt_ok_sample: "bcrypt_ok sampleLib (sampleAuthWorld now)"
  by (auto simp: bcrypt_ok_def split: if_splits)

lemma bcrypt_strong_sample: "bcrypt_strong sampleLib (sampleAuthWorld now)"
  by (auto simp: bcrypt_strong_def split: if_splits)

lemma validator_ok_sample: "validator_ok sampleLib"
  by (auto simp: validator_ok_def sampleTag_def usernameTag_def)

lemma wordLike_printInt: "wordLike (printInt i)"
proof -
  have "c \<noteq> CHR '' '' \<and> c \<noteq> CHR '';''" if "c \<in> set (goItoa n)" for c n
    using goItoa_digits [OF that] by (auto simp: isDigit_def)
  then show ?thesis by (auto simp: wordLike_def printInt_def)
qed

lemma jwt_ok_sample: "jwt_ok sampleLib"
  unfolding jwt_ok_def
proof (intro allI impI)
  fix key u expiry tok
  assume "jwtSign sampleLib key u expiry = Inr tok"
  then have w: "wordLike key" "wordLike u" "- (2 ^ 63) \<le> expiry" "expiry < 2 ^ 63"
    and tok: "tok = printInt expiry @ '';'' @ key @ '';'' @ u"
    by (auto simp: sampleSign_def split: if_splits)
  have split: "splitOn CHR '';'' tok = [printInt expiry, key, u]"
    using w wordLike_printInt [of expiry] by (simp add: tok wordLike_def splitOn_append splitOn_no_sep)
  have "CHR '' '' \<notin> set tok"
    using w wordLike_printInt [of expiry] by (simp add: tok wordLike_def)
  with split parseInt64_printInt [OF w(3,4)]
  show "CHR '' '' \<notin> set tok \<and>
      (\<forall>kf now. kf True = Inr key \<and> asciiString u \<and> unixSec now < expiry \<longrightarrow>
         (\<exists>claims. jwtParse sampleLib [''HS512''] kf now tok = Inr \<lparr>jtValid = True, jtClaims = Some claims\<rparr> \<and>
            claims ''username'' = Some (ClaimString u))) \<and>
      (\<forall>kf now. kf True = Inr key \<and> expiry \<le> unixSec now \<longrightarrow>
         (\<exists>e. jwtParse sampleLib [''HS512''] kf now tok = Inl e))"
    by (simp add: sampleParse_def)
qed

end
