(* ===== verification/AdminClient.thy ===== *)
theory AdminClient
  imports GoHttp GoJson
begin

text \<open>
  The command-line client of the administration interface (\<open>admin_app/main.go\<close>). The flags are a
  record; \<open>http.NewRequest\<close>, the query of a URL and \<open>Client.Do\<close> are arguments (\<open>clientLib\<close>), the last
  one over a state of the far side. A command ends with the lines it has printed and the exit
  code of the process. \<open>json.Marshal\<close> of a struct of strings and integers never fails, so the
  branches for its error are left out, as is the usage text that package \<open>flag\<close> generates.
\<close>

section \<open>Flags and surroundings\<close>

definition defaultHost :: string where "defaultHost = ''localhost''"
definition defaultTimeout :: int64 where "defaultTimeout = 2000"
definition defaultMaxReq :: int64 where "defaultMaxReq = 1"
definition proto :: string where "proto = ''https://''"
definition addRequestPath :: string where "addRequestPath = ''/serverPool/add''"
definition removeRequestPath :: string where "removeRequestPath = ''/serverPool/remove''"
definition signInRequestPath :: string where "signInRequestPath = ''/admin/signin''"
definition signUpRequestPath :: string where "signUpRequestPath = ''/admin/signup''"
definition changeRequestPath :: string where "changeRequestPath = ''/admin/password''"
definition deleteRequestPath :: string where "deleteRequestPath = ''/admin''"
definition clearRequestPath :: string where "clearRequestPath = ''/admin/clear''"

record flags =
  fHelp :: bool
  fHost :: string
  fToken :: string
  fAdd :: string
  fTimeout :: int64
  fMaxReq :: int64
  fRemove :: string
  fSignIn :: bool
  fLogin :: string
  fPassword :: string
  fSignUp :: bool
  fEmail :: string
  fChange :: bool
  fOldPass :: string
  fNewPass :: string
  fConfirm :: string
  fDelUser :: bool
  fClear :: bool

definition defaultFlags :: flags where
  "defaultFlags =
     \<lparr>fHelp = False, fHost = defaultHost, fToken = [], fAdd = [], fTimeout = defaultTimeout,
      fMaxReq = defaultMaxReq, fRemove = [], fSignIn = False, fLogin = [], fPassword = [], fSignUp = False,
      fEmail = [], fChange = False, fOldPass = [], fNewPass = [], fConfirm = [], fDelUser = False,
      fClear = False\<rparr>"

record 's clientLib =
  clNewRequest :: "string \<Rightarrow> string \<Rightarrow> goerror + request"
  clAddQuery :: "url \<Rightarrow> string \<Rightarrow> string \<Rightarrow> url"
  clDo :: "request \<Rightarrow> 's \<Rightarrow> (goerror + response) \<times> 's"

record clientRun =
  crOut :: "string list"
  crExit :: nat

section \<open>Bodies\<close>

definition addBody :: "flags \<Rightarrow> bytes" where
  "addBody f =
     printJson (JObj [(''Url'', JStr (fAdd f)), (''HealthCheckTcpTimeout'', JNum (printInt (sint (fTimeout f)))),
       (''MaximalRequests'', JNum (printInt (sint (fMaxReq f))))])"

definition removeBody :: "flags \<Rightarrow> bytes" where
  "removeBody f = printJson (JObj [(''Url'', JStr (fRemove f))])"

definition signInBody :: "flags \<Rightarrow> bytes" where
  "signInBody f = printJson (JObj [(''Username'', JStr (fLogin f)), (''Password'', JStr (fPassword f))])"

definition signUpBody :: "flags \<Rightarrow> bytes" where
  "signUpBody f = printJson (JObj [(''Username'', JStr (fLogin f)), (''Email'', JStr (fEmail f))])"

definition changeBody :: "flags \<Rightarrow> bytes" where
  "changeBody f =
     printJson (JObj [(''OldPassword'', JStr (fOldPass f)), (''NewPassword'', JStr (fNewPass f)),
       (''NewPasswordConfirm'', JStr (fConfirm f))])"

section \<open>Commands\<close>

definition bearer :: "flags \<Rightarrow> request \<Rightarrow> request" where
  "bearer f req = req\<lparr>reqHeader := headerAdd ''Authorization'' (''Bearer '' @ fToken f) (reqHeader req)\<rparr>"

text \<open>The two calls every command begins with, and their errors; \<open>prepare\<close> is what it does to the
  request in between.\<close>

definition exchange ::
  "'s clientLib \<Rightarrow> string \<Rightarrow> string \<Rightarrow> (request \<Rightarrow> request) \<Rightarrow> 's \<Rightarrow> (clientRun + response) \<times> 's" where
  "exchange L method url prepare s =
     (case clNewRequest L method url of
        Inl e \<Rightarrow> (Inl \<lparr>crOut = [''An error occurred while creating a request:  '' @ errText e], crExit = 1\<rparr>, s)
      | Inr req \<Rightarrow>
          (case clDo L (prepare req) s of
             (Inl e, s) \<Rightarrow>
               (Inl \<lparr>crOut = [''An error occurred while processing the request:  '' @ errText e], crExit = 1\<rparr>, s)
           | (Inr resp, s) \<Rightarrow> (Inr resp, s)))"

definition handleResponse :: "response \<Rightarrow> goerror option" where
  "handleResponse resp =
     (if respStatus resp = 401 then Some (ErrMsg ''401 Unauthorized'')
      else if \<not> (respStatus resp \<ge> 200 \<and> respStatus resp < 300) then
        Some (ErrMsg (''status '' @ goItoa (respStatus resp) @ '': '' @ respBody resp))
      else None)"

text \<open>The two ways a command reports the answer: adding and removing print the error and exit with 0,
  the others exit with 1.\<close>

definition reportAdmin :: "string \<Rightarrow> (clientRun + response) \<times> 's \<Rightarrow> clientRun \<times> 's" where
  "reportAdmin success rs =
     (case rs of
        (Inl run, s) \<Rightarrow> (run, s)
      | (Inr resp, s) \<Rightarrow>
          (case handleResponse resp of
             Some e \<Rightarrow> (\<lparr>crOut = [errText e], crExit = 0\<rparr>, s)
           | None \<Rightarrow> (\<lparr>crOut = [success], crExit = 0\<rparr>, s)))"

definition reportUser :: "(clientRun + response) \<times> 's \<Rightarrow> clientRun \<times> 's" where
  "reportUser rs =
     (case rs of
        (Inl run, s) \<Rightarrow> (run, s)
      | (Inr resp, s) \<Rightarrow>
          (case handleResponse resp of
             Some e \<Rightarrow> (\<lparr>crOut = [''Something went wrong:  '' @ errText e], crExit = 1\<rparr>, s)
           | None \<Rightarrow> (\<lparr>crOut = [], crExit = 0\<rparr>, s)))"

definition addHandle :: "'s clientLib \<Rightarrow> flags \<Rightarrow> 's \<Rightarrow> clientRun \<times> 's" where
  "addHandle L f s =
     reportAdmin ''Successfully added''
       (exchange L ''POST'' (proto @ fHost f @ addRequestPath) (\<lambda>req. bearer f (req\<lparr>reqBody := addBody f\<rparr>)) s)"

definition removeHandle :: "'s clientLib \<Rightarrow> flags \<Rightarrow> 's \<Rightarrow> clientRun \<times> 's" where
  "removeHandle L f s =
     reportAdmin ''Successfully removed''
       (exchange L ''DELETE'' (proto @ fHost f @ removeRequestPath)
         (\<lambda>req. bearer f (req\<lparr>reqBody := removeBody f\<rparr>)) s)"

definition signInHandle :: "'s clientLib \<Rightarrow> flags \<Rightarrow> 's \<Rightarrow> clientRun \<times> 's" where
  "signInHandle L f s =
     (case exchange L ''POST'' (proto @ fHost f @ signInRequestPath) (\<lambda>req. req\<lparr>reqBody := signInBody f\<rparr>) s of
        (Inl run, s) \<Rightarrow> (run, s)
      | (Inr resp, s) \<Rightarrow>
          let token = headerGet (respHeader resp) ''Authorization'' in
          if token \<noteq> [] then (\<lparr>crOut = [token], crExit = 0\<rparr>, s)
          else (case handleResponse resp of
                  Some e \<Rightarrow> (\<lparr>crOut = [''Something went wrong:  '' @ errText e], crExit = 0\<rparr>, s)
                | None \<Rightarrow> (\<lparr>crOut = [], crExit = 0\<rparr>, s)))"

definition signUpHandle :: "'s clientLib \<Rightarrow> flags \<Rightarrow> 's \<Rightarrow> clientRun \<times> 's" where
  "signUpHandle L f s =
     reportUser
       (exchange L ''POST'' (proto @ fHost f @ signUpRequestPath)
         (\<lambda>req. bearer f (req\<lparr>reqBody := signUpBody f\<rparr>)) s)"

definition changeHandle :: "'s clientLib \<Rightarrow> flags \<Rightarrow> 's \<Rightarrow> clientRun \<times> 's" where
  "changeHandle L f s =
     reportUser
       (exchange L ''PATCH'' (proto @ fHost f @ changeRequestPath)
         (\<lambda>req. bearer f (req\<lparr>reqBody := changeBody f\<rparr>)) s)"

definition deleteHandle :: "'s clientLib \<Rightarrow> flags \<Rightarrow> 's \<Rightarrow> clientRun \<times> 's" where
  "deleteHandle L f s =
     reportUser
       (exchange L ''DELETE'' (proto @ fHost f @ deleteRequestPath)
         (\<lambda>req. bearer f (req\<lparr>reqURL := clAddQuery L (reqURL req) ''username'' (fLogin f)\<rparr>)) s)"

definition clearHandler :: "'s clientLib \<Rightarrow> flags \<Rightarrow> 's \<Rightarrow> clientRun \<times> 's" where
  "clearHandler L f s = reportUser (exchange L ''DELETE'' (proto @ fHost f @ clearRequestPath) (bearer f) s)"

definition nl :: string where "nl = [CHR 0x0A]"
definition tab :: string where "tab = [CHR 0x09]"

text \<open>The two texts of the help, before and after the usage of the flags.\<close>

definition helpText :: "string list" where
  "helpText =
    [nl @ tab @ ''---| BDUTS Admin panel |---'' @ nl @ nl,
     nl @ ''This app provides you with dealing with server pool of the balancer.'' @ nl @
     ''Before it you must get a token which permits you adding and removing backends.'' @ nl @
     ''A simple usage:'' @ nl @
     tab @ ''-signin -H localhost:8080 -login admin -password admin'' @ nl @
     ''where, of course, your own host, login and password. There will be a bearer token.'' @ nl @ nl @
     ''To add a new backend use this:'' @ nl @
     tab @ ''-H localhost:8080 -add http://192.168.15.1:9090 -timeout 1000 -max 10 -t <token>'' @ nl @
     ''Notice that -tout and -max are optional.'' @ nl @ nl @
     ''To remove a backend use this:'' @ nl @
     tab @ ''-H localhost:8080 -remove http://192.168.15.1:9090 -t <token>'' @ nl @ nl @
     ''To clear cache:'' @
     tab @ ''-H localhost:8080 -clear -t <token>'' @
     ''Administrating:'' @ nl @
     ''- Sign In'' @ nl @
     tab @ ''-signin -H localhost:8080 -login admin -password admin'' @ nl @ nl @
     ''- Sign Up'' @ nl @
     tab @ ''-signup -H localhost:8080 -login admin -email example@mail.ru -t <token>'' @ nl @ nl @
     ''- Change Password'' @ nl @
     tab @ ''-change -H localhost:8080 -old oldPass -new newPass -confirm newPass -t <token>'' @ nl @ nl @
     ''- Delete user'' @ nl @
     tab @ ''-del-user -H localhost:8080 -login admin -t <token>'']"

text \<open>\<open>handleArgs\<close> runs the first command that is asked for.\<close>

definition withWarning :: "flags \<Rightarrow> clientRun \<times> 's \<Rightarrow> clientRun \<times> 's" where
  "withWarning f rs =
     (if fToken f = [] then
        ((fst rs)\<lparr>crOut := ''Warning: you have not defined a bearer token. '' # crOut (fst rs)\<rparr>, snd rs)
      else rs)"

definition handleArgs :: "'s clientLib \<Rightarrow> flags \<Rightarrow> 's \<Rightarrow> clientRun \<times> 's" where
  "handleArgs L f s =
     (if fHelp f then (\<lparr>crOut = helpText, crExit = 0\<rparr>, s)
      else if fSignIn f then signInHandle L f s
      else withWarning f
        (if fAdd f \<noteq> [] then addHandle L f s
         else if fRemove f \<noteq> [] then removeHandle L f s
         else if fSignUp f then signUpHandle L f s
         else if fChange f then changeHandle L f s
         else if fDelUser f then deleteHandle L f s
         else if fClear f then clearHandler L f s
         else (\<lparr>crOut = [], crExit = 0\<rparr>, s)))"

end
