(* ===== verification/AuthProps.thy ===== *)
theory AuthProps
  imports AuthLaws AdminClient
begin

text \<open>
  What the authentication service does: the outcomes of each handler as elimination rules over
  the contract \<open>user_store\<close>, the invariant of the accounts, and the properties of the service.
\<close>

section \<open>Replies\<close>

definition openWriter :: "rwriter \<Rightarrow> bool" where
  "openWriter w \<longleftrightarrow> rwStatus w = None"

lemma reply_status [simp]: "openWriter w \<Longrightarrow> reply c w s = (r, w', s') \<longleftrightarrow> r = Ok () \<and> w' = writeHeader c w \<and> s' = s"
  by (auto simp: reply_def)

lemma replyError_status [simp]: "replyError m c w s = (r, w', s') \<longleftrightarrow> r = Ok () \<and> w' = httpError m c w \<and> s' = s"
  by (auto simp: replyError_def)

lemma open_status [simp]:
  "openWriter w \<Longrightarrow> rwStatus (writeHeader c w) = Some c"
  "openWriter w \<Longrightarrow> rwStatus (httpError m c w) = Some c"
  "openWriter w \<Longrightarrow> openWriter (setHeader k v w)"
  by (simp_all add: openWriter_def rwStatus_writeHeader rwStatus_httpError)

lemma openWriter_new [simp]: "openWriter newWriter"
  by (simp add: openWriter_def newWriter_def)

section \<open>The database operations never panic\<close>

lemma putOr_no_panic: "(\<And>d. fst (cont d) \<noteq> TxPanic m) \<Longrightarrow> fst (putOr B n k v cont db) \<noteq> TxPanic m"
  by (simp add: putOr_def split: prod.split option.split)

lemma txOutcome_no_panic:
  assumes "fst (fn db) \<noteq> TxPanic m"
  shows "fst (txOutcome (boltUpdate B () fn db)) \<noteq> Panic m"
  using assms
  by (auto simp: txOutcome_def boltUpdate.simps split: option.split prod.split txRes.split)

lemma InsertUser_no_panic: "fst (InsertUser B u s h e db) \<noteq> Panic m"
  unfolding InsertUser_def
  by (rule txOutcome_no_panic) (auto split: prod.split option.split intro!: putOr_no_panic)

lemma dbChangePassword_no_panic: "fst (dbChangePassword B u s h db) \<noteq> Panic m"
  unfolding dbChangePassword_def
  by (rule txOutcome_no_panic) (auto intro!: putOr_no_panic)

lemma dbDeleteUser_no_panic: "fst (dbDeleteUser B u db) \<noteq> Panic m"
  unfolding dbDeleteUser_def
  by (rule txOutcome_no_panic) (auto split: prod.split option.split)

lemma GetEmail_no_panic: "GetEmail B u db \<noteq> Panic m"
  by (auto simp: GetEmail_def boltView.simps split: option.split)

text \<open>So a write is one of two outcomes.\<close>

lemma performUser_no_panic: "fst (performUser B e db) \<noteq> Panic m"
  by (cases e) (simp_all add: InsertUser_no_panic dbChangePassword_no_panic dbDeleteUser_no_panic)

lemma performUser_outcome:
  obtains (done_) db' where "performUser B e db = (Ok (), db')"
    | (failed) x where "performUser B e db = (Err x, db)"
proof (cases "performUser B e db")
  case run: (Pair r db')
  show ?thesis
  proof (cases r)
    case (Ok a)
    with run done_ show ?thesis by simp
  next
    case (Err x)
    with run performUser_fails [OF run] failed show ?thesis by simp
  next
    case (Panic m)
    with run performUser_no_panic [of B e db m] show ?thesis by simp
  qed
qed

lemmas InsertUser_outcome [case_names done_ failed] =
  performUser_outcome [of B "SInsert u \<lparr>acSalt = s, acHash = h, acEmail = e\<rparr>" db, simplified] for B u s h e db
lemmas dbChangePassword_outcome [case_names done_ failed] = performUser_outcome [of B "SChange u s h" db, simplified] for B u s h db
lemmas dbDeleteUser_outcome [case_names done_ failed] = performUser_outcome [of B "SDelete u" db, simplified] for B u db

section \<open>Outcomes of the handlers\<close>

text \<open>The secrets a registration made: what the mail carries, the salt and the hash.\<close>

definition madeSecrets :: "authWorld \<Rightarrow> string \<Rightarrow> string \<Rightarrow> string \<Rightarrow> bool" where
  "madeSecrets W password salt hsh \<longleftrightarrow>
     generateRandomPassword W 0 = Inr password \<and> generateSalt W 1 = Inr salt \<and>
     awBcrypt W (password @ salt) = Inr hsh"

lemma SignUp_cases:
  assumes "SignUp A B svc W w r s = (res, w', s')" "openWriter w"
  obtains (refused) code where "code \<in> {400, 405, 409, 500}" "res = Ok ()" "rwStatus w' = Some code" "s' = s"
    | (registered) user password salt hsh sent code where
      "reqMethod r = ''POST''" "decodeSignUp (reqBody r) = (None, user)" "validSignUp A user"
      "madeSecrets W password salt hsh"
      "InsertUser B (suUsername user) salt hsh (suEmail user) (asDb s) = (Ok (), asDb s')"
      "SendSignUpEmail (awPost W) (asSender svc) (suEmail user) (suUsername user) password (asOutbox s) = (sent, asOutbox s')"
      "code = (if sent = None then 201 else 500)" "res = Ok ()" "rwStatus w' = Some code"
proof (cases "reqMethod r = ''POST''")
  case False
  with assms show ?thesis by (intro refused [of 405]) (simp_all add: SignUp_def)
next
  case post: True
  obtain err user where dec: "decodeSignUp (reqBody r) = (err, user)" by force
  show ?thesis
  proof (cases "err = None \<and> validSignUp A user")
    case False
    with assms post dec show ?thesis
      by (intro refused [of 400]) (auto simp: SignUp_def split: option.splits)
  next
    case form: True
    show ?thesis
    proof (cases "\<exists>password salt hsh. madeSecrets W password salt hsh")
      case False
      with assms post dec form show ?thesis
        by (intro refused [of 500]) (auto simp: SignUp_def madeSecrets_def split: sum.splits)
    next
      case True
      then obtain password salt hsh where made: "madeSecrets W password salt hsh" by blast
      with assms post dec form have run: "registerUser B svc W user password salt hsh w s = (res, w', s')"
        by (simp add: SignUp_def madeSecrets_def)
      show ?thesis
      proof (cases rule: InsertUser_outcome [of B "suUsername user" salt hsh "suEmail user" "asDb s"])
        case (failed x)
        with run assms(2) have "res = Ok ()" "rwStatus w' = Some (if errors_is x ErrBucketExists then 409 else 500)"
          "s' = s" by (auto simp: registerUser_def split: if_splits)
        then show ?thesis by (intro refused) auto
      next
        case (done_ db')
        obtain sent out where mailed: "SendSignUpEmail (awPost W) (asSender svc) (suEmail user)
            (suUsername user) password (asOutbox s) = (sent, out)" by force
        with run done_ assms(2) have "res = Ok ()" "rwStatus w' = Some (if sent = None then 201 else 500)"
          "asDb s' = db'" "asOutbox s' = out"
          by (auto simp: registerUser_def split: option.splits)
        with post dec form made done_ mailed show ?thesis by (intro registered) auto
      qed
    qed
  qed
qed

lemma SignIn_cases:
  assumes "SignIn A B svc W w r s = (res, w', s')" "openWriter w"
  obtains (refused) code where "code \<in> {400, 401, 405, 500}" "res = Ok ()" "rwStatus w' = Some code" "s' = s"
      "w' = writeHeader code w \<or> (\<exists>m. w' = httpError m code w)"
    | (admitted) user token where
      "reqMethod r = ''POST''" "decodeSignIn (reqBody r) = (None, user)" "validSignIn A user"
      "isAuthorized A B (siUsername user) (siPassword user) (asDb s)"
      "generateToken A svc W (siUsername user) = Inr token" "res = Ok ()"
      "w' = writeHeader 200 (setHeader ''Authorization'' (''Bearer '' @ token) w)" "s' = s"
proof (cases "reqMethod r = ''POST''")
  case False
  with assms show ?thesis by (intro refused [of 405]) (simp_all add: SignIn_def)
next
  case post: True
  obtain err user where dec: "decodeSignIn (reqBody r) = (err, user)" by force
  show ?thesis
  proof (cases "err = None \<and> validSignIn A user")
    case False
    with assms post dec show ?thesis
      by (intro refused [of 400]) (auto simp: SignIn_def split: option.splits)
  next
    case form: True
    show ?thesis
    proof (cases "isAuthorized A B (siUsername user) (siPassword user) (asDb s)")
      case False
      with assms post dec form show ?thesis by (intro refused [of 401]) (auto simp: SignIn_def)
    next
      case ok: True
      show ?thesis
      proof (cases "generateToken A svc W (siUsername user)")
        case (Inl e)
        with assms post dec form ok show ?thesis by (intro refused [of 500]) (simp_all add: SignIn_def)
      next
        case (Inr token)
        with assms post dec form ok show ?thesis by (intro admitted [of user token]) (simp_all add: SignIn_def)
      qed
    qed
  qed
qed

lemma ChangePassword_cases:
  assumes "ChangePassword A B svc W w r s = (res, w', s')" "openWriter w"
  obtains (refused) code where "code \<in> {400, 401, 405, 422, 500}" "res = Ok ()" "rwStatus w' = Some code" "s' = s"
    | (changed) user username salt hsh code where
      "reqMethod r = ''PATCH''" "decodeChange (reqBody r) = (None, user)" "validChange A user"
      "ctxUser r = Some username" "isAuthorized A B username (cpOldPassword user) (asDb s)"
      "generateSalt W 0 = Inr salt" "awBcrypt W (cpNewPassword user @ salt) = Inr hsh"
      "dbChangePassword B username salt hsh (asDb s) = (Ok (), asDb s')"
      "code \<in> {200, 500}" "res = Ok ()" "rwStatus w' = Some code"
      "case GetEmail B username (asDb s') of
         Ok m \<Rightarrow> \<exists>sent. SendChangedPasswordEmail (awPost W) (asSender svc) m (asOutbox s) = (sent, asOutbox s') \<and>
           (code = 200 \<longleftrightarrow> sent = None)
       | _ \<Rightarrow> code = 500 \<and> asOutbox s' = asOutbox s"
proof (cases "reqMethod r = ''PATCH''")
  case False
  with assms show ?thesis by (intro refused [of 405]) (simp_all add: ChangePassword_def)
next
  case patch: True
  obtain err user where dec: "decodeChange (reqBody r) = (err, user)" by force
  show ?thesis
  proof (cases "err = None \<and> validChange A user")
    case False
    with assms patch dec show ?thesis
      by (intro refused [of "if err = None then 422 else 400"]) (auto simp: ChangePassword_def split: option.splits)
  next
    case form: True
    show ?thesis
    proof (cases "\<exists>username. ctxUser r = Some username \<and> isAuthorized A B username (cpOldPassword user) (asDb s)")
      case False
      with assms patch dec form show ?thesis
        by (intro refused [of "if ctxUser r = None then 500 else 401"])
          (auto simp: ChangePassword_def split: option.splits)
    next
      case True
      then obtain username where
        auth: "ctxUser r = Some username" "isAuthorized A B username (cpOldPassword user) (asDb s)" by blast
      show ?thesis
      proof (cases "\<exists>salt hsh. generateSalt W 0 = Inr salt \<and> awBcrypt W (cpNewPassword user @ salt) = Inr hsh")
        case False
        with assms patch dec form auth show ?thesis
          by (intro refused [of 500]) (auto simp: ChangePassword_def split: sum.splits)
      next
        case True
        then obtain salt hsh where
          made: "generateSalt W 0 = Inr salt" "awBcrypt W (cpNewPassword user @ salt) = Inr hsh" by blast
        with assms patch dec form auth have run: "storePassword B svc W username salt hsh w s = (res, w', s')"
          by (simp add: ChangePassword_def)
        show ?thesis
        proof (cases rule: dbChangePassword_outcome [of B username salt hsh "asDb s"])
          case (failed x)
          with run assms(2) show ?thesis by (intro refused [of 500]) (auto simp: storePassword_def)
        next
          case (done_ db')
          with run assms(2) patch dec form auth made show ?thesis
            using GetEmail_no_panic [of B username db']
            by (intro changed [of user username salt hsh "the (rwStatus w')"])
              (auto simp: storePassword_def split: option.splits res.splits prod.splits)
        qed
      qed
    qed
  qed
qed

lemma DeleteUser_cases:
  assumes "DeleteUser A B w r s = (res, w', s')" "openWriter w"
  obtains (refused) code where "code \<in> {404, 405, 500}" "res = Ok ()" "rwStatus w' = Some code" "s' = s"
    | (deleted) "reqMethod r = ''DELETE''" "res = Ok ()" "rwStatus w' = Some 204" "asOutbox s' = asOutbox s"
      "dbDeleteUser B (queryGet A (reqURL r) ''username'') (asDb s) = (Ok (), asDb s')"
proof (cases "reqMethod r = ''DELETE''")
  case False
  with assms show ?thesis by (intro refused [of 405]) (simp_all add: DeleteUser_def)
next
  case True
  show ?thesis
  proof (cases rule: dbDeleteUser_outcome [of B "queryGet A (reqURL r) usernameKey" "asDb s"])
    case (failed x)
    with assms True show ?thesis
      by (intro refused [of "if errors_is x ErrBucketNotFound then 404 else 500"])
        (auto simp: DeleteUser_def split: if_splits)
  next
    case (done_ db')
    with assms True show ?thesis by (intro deleted) (auto simp: DeleteUser_def usernameKey_def)
  qed
qed

section \<open>Who may sign in\<close>

definition opens :: "authLib \<Rightarrow> account \<Rightarrow> string \<Rightarrow> bool" where
  "opens A a p \<longleftrightarrow> bcryptCompare A (acHash a) (p @ acSalt a) = None"

lemma isAuthorized_live:
  "bolt_live B \<Longrightarrow> isAuthorized A B u p db \<longleftrightarrow>
     (case userOf B db u of None \<Rightarrow> False | Some a \<Rightarrow> opens A a p)"
  by (simp add: isAuthorized_def GetSaltAndHash_live opens_def split: option.split)

text \<open>The passwords that fit into bcrypt's 72 bytes together with a salt of the service.\<close>

definition plainPassword :: "string \<Rightarrow> bool" where
  "plainPassword p \<longleftrightarrow> length p \<le> 44 \<and> CHR 0x00 \<notin> set p"

lemma hashed_opens:
  assumes "bcrypt_ok A W" "bcrypt_strong A W" "plainSecret (p @ salt)" "length salt = 28"
    "awBcrypt W (p @ salt) = Inr hsh" "acHash a = hsh" "acSalt a = salt" "plainPassword q"
  shows "opens A a q \<longleftrightarrow> q = p"
proof
  have plain: "plainSecret (q @ salt)"
    using assms(3,4,8) by (simp add: plainSecret_def plainPassword_def)
  assume "opens A a q"
  with plain assms(2,3,5-7) have "q @ salt = p @ salt"
    unfolding bcrypt_strong_def opens_def by blast
  then show "q = p" by simp
next
  assume "q = p"
  with assms(1,5-7) show "opens A a q" by (auto simp: bcrypt_ok_def opens_def)
qed

text \<open>So an account opens with the password its secrets were made for and no other.\<close>

lemma made_opens:
  assumes "rand_ok W" "bcrypt_ok A W" "bcrypt_strong A W" "madeSecrets W password salt hsh"
    and "acSalt a = salt" "acHash a = hsh" "plainPassword q"
  shows "opens A a q \<longleftrightarrow> q = password"
proof -
  have plain: "length password = 36" "CHR 0x00 \<notin> set password" "length salt = 28" "CHR 0x00 \<notin> set salt"
    and hsh: "awBcrypt W (password @ salt) = Inr hsh"
    using assms(4) generateRandomPassword_plain [OF assms(1)] generateSalt_plain [OF assms(1)]
    unfolding madeSecrets_def by blast+
  then have "plainSecret (password @ salt)" by (simp add: plainSecret_def)
  from hashed_opens [OF assms(2,3) this plain(3) hsh assms(6,5,7)] show ?thesis .
qed

lemma chosen_opens:
  assumes "rand_ok W" "bcrypt_ok A W" "bcrypt_strong A W" "generateSalt W k = Inr salt"
    and "awBcrypt W (p @ salt) = Inr hsh" "CHR 0x00 \<notin> set p"
    and "acSalt a = salt" "acHash a = hsh" "plainPassword q"
  shows "opens A a q \<longleftrightarrow> q = p"
proof -
  have salt: "length salt = 28" "CHR 0x00 \<notin> set salt" using generateSalt_plain [OF assms(1,4)] by auto
  have "length (p @ salt) \<le> 72" using assms(2,5) unfolding bcrypt_ok_def by blast
  with salt assms(6) have "plainSecret (p @ salt)" by (simp add: plainSecret_def)
  from hashed_opens [OF assms(2,3) this salt(1) assms(5,8,7,9)] show ?thesis .
qed

lemma SendSignUpEmail_sent:
  "SendSignUpEmail post sd to u p out = (sent, out') \<Longrightarrow>
     (case sent of
        None \<Rightarrow> \<exists>m. out' = out @ [m] \<and> mlTo m = to \<and> mlMsg m = ''Subject: '' @ subjectNewUser @ crlf @ crlf @ msgNewUser u p
      | Some e \<Rightarrow> out' = out)"
  unfolding SendSignUpEmail_def
  by (rule send_cases [of post sd to subjectNewUser "msgNewUser u p" out]) auto

lemma SendSignUpEmail_accepted:
  "SendSignUpEmail post sd to u p out = (None, out') \<Longrightarrow> \<exists>m. post m = None"
  by (auto simp: SendSignUpEmail_def send_def Let_def split: option.splits)

lemma SendChangedPasswordEmail_sent:
  "SendChangedPasswordEmail post sd to out = (sent, out') \<Longrightarrow>
     (case sent of None \<Rightarrow> \<exists>m. out' = out @ [m] \<and> mlTo m = to | Some e \<Rightarrow> out' = out)"
  unfolding SendChangedPasswordEmail_def
  by (rule send_cases [of post sd to subjectPasswordChanged msgPasswordChanged out]) auto

section \<open>The forms of the client\<close>

text \<open>What the handlers read from the bodies the administration client writes; the client names its
  members with capitals, which the decoder folds.\<close>

lemma asciiString_literal:
  "asciiString ''Username''" "asciiString ''Password''" "asciiString ''Email''" "asciiString ''OldPassword''"
  "asciiString ''NewPassword''" "asciiString ''NewPasswordConfirm''" "asciiString ''Url''"
  by (simp_all add: asciiString_def)

lemma fold_names:
  "foldEq ''username'' ''Username''" "\<not> foldEq ''username'' ''Password''" "foldEq ''password'' ''Password''"
  "\<not> foldEq ''username'' ''Email''" "foldEq ''email'' ''Email''"
  "foldEq ''oldPassword'' ''OldPassword''" "\<not> foldEq ''oldPassword'' ''NewPassword''"
  "foldEq ''newPassword'' ''NewPassword''" "\<not> foldEq ''oldPassword'' ''NewPasswordConfirm''"
  "\<not> foldEq ''newPassword'' ''NewPasswordConfirm''" "foldEq ''newPasswordConfirm'' ''NewPasswordConfirm''"
  by (simp_all add: foldByte_def lowerCode_def byteIn_def)

lemma decode_signInBody:
  assumes "asciiString (fLogin f)" "asciiString (fPassword f)"
  shows "decodeSignIn (signInBody f) = (None, \<lparr>siUsername = fLogin f, siPassword = fPassword f\<rparr>)"
  using assms
  by (simp add: decodeSignIn_def signInBody_def decodeBody_print asciiString_literal bindMember_def
      selectField_def strField_def fold_names del: foldEq.simps)

lemma decode_signUpBody:
  assumes "asciiString (fLogin f)" "asciiString (fEmail f)"
  shows "decodeSignUp (signUpBody f) = (None, \<lparr>suUsername = fLogin f, suEmail = fEmail f\<rparr>)"
  using assms
  by (simp add: decodeSignUp_def signUpBody_def decodeBody_print asciiString_literal bindMember_def
      selectField_def strField_def fold_names del: foldEq.simps)

lemma decode_changeBody:
  assumes "asciiString (fOldPass f)" "asciiString (fNewPass f)" "asciiString (fConfirm f)"
  shows "decodeChange (changeBody f) =
    (None, \<lparr>cpOldPassword = fOldPass f, cpNewPassword = fNewPass f, cpNewPasswordConfirm = fConfirm f\<rparr>)"
  using assms
  by (simp add: decodeChange_def changeBody_def decodeBody_print asciiString_literal bindMember_def
      selectField_def strField_def fold_names del: foldEq.simps)

section \<open>Properties\<close>

text \<open>C7: A sign-up that is answered 201 has created the account it names and no other change, and
  has mailed the one password that opens it to the address of the form: of the passwords bcrypt
  can tell apart, exactly the mailed one signs in.\<close>
theorem sign_up_credentials:
  assumes "bolt_ok B" "bolt_live B" "rand_ok W" "bcrypt_ok A W" "bcrypt_strong A W" "validator_ok A"
    and "openWriter w" "SignUp A B svc W w r s = (res, w', s')" "rwStatus w' = Some 201"
  shows "\<exists>user password m.
      decodeSignUp (reqBody r) = (None, user) \<and> userOf B (asDb s) (suUsername user) = None \<and>
      asOutbox s' = asOutbox s @ [m] \<and> mlTo m = suEmail user \<and>
      mlMsg m = ''Subject: '' @ subjectNewUser @ crlf @ crlf @ msgNewUser (suUsername user) password \<and>
      (\<forall>q. plainPassword q \<longrightarrow> (isAuthorized A B (suUsername user) q (asDb s') \<longleftrightarrow> q = password)) \<and>
      (\<forall>v. v \<noteq> suUsername user \<longrightarrow> userOf B (asDb s') v = userOf B (asDb s) v)"
  using assms(8,7)
proof (cases rule: SignUp_cases)
  case (refused code)
  with assms(9) show ?thesis by simp
next
  case (registered user password salt hsh sent code)
  have sent: "sent = None" using registered(7,9) assms(9) by (cases sent) auto
  have "validName (suUsername user)"
    using registered(3) validator_name [OF assms(6)] by (auto simp: validSignUp_def)
  note added = InsertUser_ok [OF assms(1) this registered(5)]
  obtain m where m: "asOutbox s' = asOutbox s @ [m]" "mlTo m = suEmail user"
    "mlMsg m = ''Subject: '' @ subjectNewUser @ crlf @ crlf @ msgNewUser (suUsername user) password"
    using SendSignUpEmail_sent [OF registered(6)] sent by auto
  have "isAuthorized A B (suUsername user) q (asDb s') \<longleftrightarrow> q = password" if "plainPassword q" for q
    using made_opens [OF assms(3-5) registered(4) _ _ that,
        of "\<lparr>acSalt = salt, acHash = hsh, acEmail = suEmail user\<rparr>"]
    by (simp add: isAuthorized_live [OF assms(2)] added(2))
  with registered(2) added m show ?thesis by auto
qed

text \<open>A sign-up whose mail cannot be sent has still created the account: it is answered 500, the
  generated password is known to nobody, and the same request, repeated when mail works again, is
  answered 409 and changes nothing.\<close>
theorem sign_up_mail_failure:
  assumes "bolt_ok B" "bolt_live B" "validator_ok A" "openWriter w" "\<forall>m. awPost W m \<noteq> None"
    and "SignUp A B svc W w r s = (res, w', s')" "s' \<noteq> s"
  shows "rwStatus w' = Some 500 \<and> asOutbox s' = asOutbox s \<and>
    (\<exists>user. decodeSignUp (reqBody r) = (None, user) \<and> userOf B (asDb s) (suUsername user) = None \<and>
       userOf B (asDb s') (suUsername user) \<noteq> None) \<and>
    (\<forall>W' w2 p salt hsh. madeSecrets W' p salt hsh \<longrightarrow>
       SignUp A B svc W' w2 r s' = (Ok (), httpError ''User already exists'' 409 w2, s'))"
  using assms(6,4)
proof (cases rule: SignUp_cases)
  case (refused code)
  with assms(7) show ?thesis by simp
next
  case (registered user password salt hsh sent code)
  have failed: "sent \<noteq> None"
    using SendSignUpEmail_accepted [of "awPost W"] registered(6) assms(5) by (cases sent) auto
  then have post: "asOutbox s' = asOutbox s" "rwStatus w' = Some 500"
    using SendSignUpEmail_sent [OF registered(6)] registered(7,9) by auto
  have name: "validName (suUsername user)"
    using registered(3) validator_name [OF assms(3)] by (auto simp: validSignUp_def)
  note added = InsertUser_ok [OF assms(1) name registered(5)]
  have account: "userOf B (asDb s') (suUsername user) \<noteq> None"
    unfolding added(2) by simp
  then have there: "txBucket B (asDb s') (suUsername user)"
    by (simp add: userOf_def split: if_splits)
  have again: "InsertUser B (suUsername user) s0 h0 (suEmail user) (asDb s') =
      (Err (bucketErr ''create'' (suUsername user) ErrBucketExists), asDb s')" for s0 h0
    using bolt_create_old [OF assms(1) there]
    by (simp add: InsertUser_def boltUpdate_live [OF assms(2)] txOutcome_def)
  have "SignUp A B svc W' w2 r s' = (Ok (), httpError ''User already exists'' 409 w2, s')"
    if "madeSecrets W' p salt' hsh'" for W' w2 p salt' hsh'
    using that registered(1-3) again [of salt' hsh']
    by (simp add: SignUp_def madeSecrets_def registerUser_def bucketErr_def)
  with registered(2) post account added(1) show ?thesis by blast
qed

text \<open>The middleware on the header of an issued token.\<close>

lemma issued_token_admits:
  assumes "jwt_ok A" "generateToken A svc W u = Inr token" "asciiString u"
    and "headerGet (reqHeader r2) ''Authorization'' = ''Bearer '' @ token"
  shows "AuthenticationMiddleware A svc now h w2 r2 s2 =
    (if unixSec now < unixSec (awNow W + 1200 * nsPerSec)
     then h w2 (r2\<lparr>ctxUser := Some u\<rparr>) s2 else reply 401 w2 s2)"
proof -
  let ?expiry = "unixSec (awNow W + 1200 * nsPerSec)"
  have signed: "jwtSign A (asSignKey svc) u ?expiry = Inr token"
    using assms(2) by (simp add: generateToken_def tokenExpirationTime_def)
  have hdr: "headerGet (reqHeader r2) ''Authorization'' = ''Bearer'' @ CHR '' '' # token"
    using assms(4) by simp
  have "CHR '' '' \<notin> set token" using assms(1) signed unfolding jwt_ok_def by blast
  then have parts: "splitOn CHR '' '' (''Bearer'' @ CHR '' '' # token) = [''Bearer'', token]"
    by (simp add: splitOn_append splitOn_no_sep)
  show ?thesis
  proof (cases "unixSec now < ?expiry")
    case True
    with jwt_accepts [OF assms(1) signed _ assms(3), of "keyFunc svc" now] obtain claims where
      "jwtParse A [''HS512''] (keyFunc svc) now token = Inr \<lparr>jtValid = True, jtClaims = Some claims\<rparr>"
      "claims ''username'' = Some (ClaimString u)" by (auto simp: keyFunc_def)
    with hdr parts True show ?thesis
      by (simp add: AuthenticationMiddleware_def tokenLen_def claimedUser_def)
  next
    case False
    with jwt_expires [OF assms(1) signed, of "keyFunc svc" now] obtain e where
      "jwtParse A [''HS512''] (keyFunc svc) now token = Inl e" by (auto simp: keyFunc_def)
    with hdr parts False show ?thesis
      by (simp add: AuthenticationMiddleware_def tokenLen_def)
  qed
qed

text \<open>C10: A sign-in that is answered 200 has checked the password and changes nothing, and the header it
  sends is good for twenty minutes: a request that repeats it is let through to the handler behind
  the middleware, in the name that signed in, until the token expires, and is answered 401 from
  then on.\<close>
theorem sign_in_admits:
  assumes "jwt_ok A" "validator_ok A" "openWriter w" "SignIn A B svc W w r s = (res, w', s')"
    and "rwStatus w' = Some 200"
    and "headerGet (reqHeader r2) ''Authorization'' = headerGet (rwSent w') ''Authorization''"
  shows "s' = s \<and>
    (\<exists>user. decodeSignIn (reqBody r) = (None, user) \<and>
       isAuthorized A B (siUsername user) (siPassword user) (asDb s) \<and>
       (\<forall>now h. AuthenticationMiddleware A svc now h w2 r2 s2 =
          (if unixSec now < unixSec (awNow W + 1200 * nsPerSec)
           then h w2 (r2\<lparr>ctxUser := Some (siUsername user)\<rparr>) s2 else reply 401 w2 s2)))"
  using assms(4,3)
proof (cases rule: SignIn_cases)
  case (refused code)
  with assms(5) show ?thesis by simp
next
  case (admitted user token)
  have "asciiString (siUsername user)"
    using admitted(3) validator_name [OF assms(2)] by (auto simp: validSignIn_def)
  moreover have "headerGet (reqHeader r2) ''Authorization'' = ''Bearer '' @ token"
    using assms(3,6) by (simp add: admitted(7) openWriter_def writeHeader_def setHeader_def headerGet_headerSet)
  ultimately have "AuthenticationMiddleware A svc now h w2 r2 s2 =
      (if unixSec now < unixSec (awNow W + 1200 * nsPerSec)
       then h w2 (r2\<lparr>ctxUser := Some (siUsername user)\<rparr>) s2 else reply 401 w2 s2)" for now h
    by (rule issued_token_admits [OF assms(1) admitted(5)])
  with admitted show ?thesis by blast
qed

text \<open>A refused sign-in does not tell whether the user exists: with the same form, a database
  without the user and one where the user has another password give the same reply, and neither
  changes anything.\<close>
theorem sign_in_no_oracle:
  assumes "bolt_live B" "decodeSignIn (reqBody r) = (None, user)"
    and "userOf B (asDb s1) (siUsername user) = None"
    and "userOf B (asDb s2) (siUsername user) = Some a" "\<not> opens A a (siPassword user)"
  shows "\<exists>w'. SignIn A B svc W w r s1 = (Ok (), w', s1) \<and> SignIn A B svc W' w r s2 = (Ok (), w', s2)"
  using assms(2-5)
  by (simp add: SignIn_def isAuthorized_live [OF assms(1)] reply_def replyError_def)

text \<open>C14: A password change that is answered 200, or changes anything at all, has replaced salt and hash of
  the account named by the token, whose old password was presented, and nothing else: the new
  password opens it and no other one, its e-mail address and all other accounts are as before, and
  with status 200 a note has gone to that address.\<close>
theorem change_password_effective:
  assumes "bolt_ok B" "bolt_live B" "rand_ok W" "bcrypt_ok A W" "bcrypt_strong A W"
    and "openWriter w" "ChangePassword A B svc W w r s = (res, w', s')" "rwStatus w' = Some 200 \<or> s' \<noteq> s"
  shows "\<exists>user name a. decodeChange (reqBody r) = (None, user) \<and> ctxUser r = Some name \<and>
      userOf B (asDb s) name = Some a \<and> opens A a (cpOldPassword user) \<and>
      (\<exists>b. userOf B (asDb s') = (userOf B (asDb s))(name \<mapsto> b) \<and> acEmail b = acEmail a) \<and>
      (CHR 0x00 \<notin> set (cpNewPassword user) \<longrightarrow>
        (\<forall>q. plainPassword q \<longrightarrow> (isAuthorized A B name q (asDb s') \<longleftrightarrow> q = cpNewPassword user))) \<and>
      (rwStatus w' = Some 200 \<longrightarrow> (\<exists>m. asOutbox s' = asOutbox s @ [m] \<and> mlTo m = acEmail a))"
  using assms(7,6)
proof (cases rule: ChangePassword_cases)
  case (refused code)
  with assms(8) show ?thesis by auto
next
  case (changed user name salt hsh code)
  obtain a where a: "userOf B (asDb s) name = Some a" "opens A a (cpOldPassword user)"
    using changed(5) by (auto simp: isAuthorized_live [OF assms(2)] split: option.splits)
  let ?b = "a\<lparr>acSalt := salt, acHash := hsh\<rparr>"
  obtain a' where "userOf B (asDb s) name = Some a'"
    "userOf B (asDb s') = (userOf B (asDb s))(name \<mapsto> a'\<lparr>acSalt := salt, acHash := hsh\<rparr>)"
    using dbChangePassword_ok [OF assms(1) changed(8)] by metis
  with a(1) have users: "userOf B (asDb s') = (userOf B (asDb s))(name \<mapsto> ?b)" by simp
  have opens: "isAuthorized A B name q (asDb s') \<longleftrightarrow> q = cpNewPassword user"
    if "plainPassword q" "CHR 0x00 \<notin> set (cpNewPassword user)" for q
    using chosen_opens [OF assms(3-5) changed(6,7) that(2) _ _ that(1), of ?b]
    by (simp add: isAuthorized_live [OF assms(2)] users)
  have "\<exists>m. asOutbox s' = asOutbox s @ [m] \<and> mlTo m = acEmail a" if "rwStatus w' = Some 200"
  proof -
    have "GetEmail B name (asDb s') = Ok (acEmail a)"
      by (simp add: GetEmail_live [OF assms(2)] users)
    with changed(11,12) that have
      "SendChangedPasswordEmail (awPost W) (asSender svc) (acEmail a) (asOutbox s) = (None, asOutbox s')"
      by auto
    then show ?thesis using SendChangedPasswordEmail_sent by fastforce
  qed
  with changed(2,4) a users opens show ?thesis by auto
qed

text \<open>Deleting a user. In an open database a DELETE removes the named account and nothing else and is
  answered 204, or, exactly when there is no such account, changes nothing and is answered 404;
  afterwards no password signs in under that name.\<close>
theorem delete_user_functional:
  assumes "bolt_ok B" "bolt_live B" "openWriter w" "reqMethod r = ''DELETE''"
    and "name = queryGet A (reqURL r) ''username''" "validName name"
    and "DeleteUser A B w r s = (res, w', s')"
  shows "res = Ok () \<and> asOutbox s' = asOutbox s \<and>
    userOf B (asDb s') = (userOf B (asDb s))(name := None) \<and>
    rwStatus w' = Some (if userOf B (asDb s) name = None then 404 else 204) \<and>
    (\<forall>q. \<not> isAuthorized A B name q (asDb s'))"
proof -
  have gone: "\<forall>q. \<not> isAuthorized A B name q db" if "userOf B db name = None" for db
    using that by (simp add: isAuthorized_live [OF assms(2)])
  show ?thesis
  proof (cases "userOf B (asDb s) name")
    case None
    with dbDeleteUser_live [OF assms(1,2), of name "asDb s"] have
      "dbDeleteUser B name (asDb s) = (Err (bucketErr ''delete'' name ErrBucketNotFound), asDb s)"
      by (cases rule: dbDeleteUser_outcome [of B name "asDb s"]) auto
    with assms(3-7) None gone [of "asDb s"] show ?thesis
      by (auto simp: DeleteUser_def usernameKey_def bucketErr_def)
  next
    case (Some a)
    with dbDeleteUser_live [OF assms(1,2), of name "asDb s"] obtain db' where
      run: "dbDeleteUser B name (asDb s) = (Ok (), db')"
      by (cases rule: dbDeleteUser_outcome [of B name "asDb s"]) auto
    from dbDeleteUser_ok(2) [OF assms(1) run] gone [of db'] assms(3-7) Some run show ?thesis
      by (auto simp: DeleteUser_def usernameKey_def)
  qed
qed

section \<open>The accounts stay well formed\<close>

text \<open>Every account is named as the validator wants it, or is the default one, has a salt of the
  service's length, and can be opened by some password.\<close>

definition goodAccount :: "authLib \<Rightarrow> string \<Rightarrow> account \<Rightarrow> bool" where
  "goodAccount A u a \<longleftrightarrow>
     (u = defaultUser \<or> vTag A usernameTag u []) \<and> length (acSalt a) = 28 \<and> (\<exists>p. opens A a p)"

definition wellFormedUsers :: "authLib \<Rightarrow> 'db bolt \<Rightarrow> 'db \<Rightarrow> bool" where
  "wellFormedUsers A B db \<longleftrightarrow> (\<forall>u a. userOf B db u = Some a \<longrightarrow> goodAccount A u a)"

text \<open>What the service may do next.\<close>

inductive authStep ::
  "authLib \<Rightarrow> 'db bolt \<Rightarrow> authService \<Rightarrow> 'db authState \<Rightarrow> 'db authState \<Rightarrow> bool" for A B svc where
  firstStart: "rand_ok W \<Longrightarrow> bcrypt_ok A W \<Longrightarrow> SignUpDefaultUser B W s = (res, s') \<Longrightarrow> authStep A B svc s s'"
| signUp: "rand_ok W \<Longrightarrow> bcrypt_ok A W \<Longrightarrow> openWriter w \<Longrightarrow> SignUp A B svc W w r s = (res, w', s') \<Longrightarrow>
    authStep A B svc s s'"
| signIn: "openWriter w \<Longrightarrow> SignIn A B svc W w r s = (res, w', s') \<Longrightarrow> authStep A B svc s s'"
| changePassword: "rand_ok W \<Longrightarrow> bcrypt_ok A W \<Longrightarrow> openWriter w \<Longrightarrow>
    ChangePassword A B svc W w r s = (res, w', s') \<Longrightarrow> authStep A B svc s s'"
| deleteUser: "openWriter w \<Longrightarrow> DeleteUser A B w r s = (res, w', s') \<Longrightarrow> authStep A B svc s s'"

inductive_cases authStepE: "authStep A B svc s s'"

lemma opens_hashed:
  "bcrypt_ok A W \<Longrightarrow> awBcrypt W (p @ acSalt a) = Inr (acHash a) \<Longrightarrow> opens A a p"
  by (simp add: bcrypt_ok_def opens_def)

lemma wellFormed_update:
  "wellFormedUsers A B db \<Longrightarrow> userOf B db' = (userOf B db)(u \<mapsto> a) \<Longrightarrow> goodAccount A u a \<Longrightarrow>
     wellFormedUsers A B db'"
  by (auto simp: wellFormedUsers_def)

lemma wellFormed_insert:
  assumes "bolt_ok B" "validName u" "u = defaultUser \<or> vTag A usernameTag u []" "length salt = 28"
    and "bcrypt_ok A W" "awBcrypt W (p @ salt) = Inr hsh" "wellFormedUsers A B db"
    and "InsertUser B u salt hsh e db = (Ok (), db')"
  shows "wellFormedUsers A B db'"
proof (rule wellFormed_update [OF assms(7) InsertUser_ok(2) [OF assms(1,2,8)]])
  let ?a = "\<lparr>acSalt = salt, acHash = hsh, acEmail = e\<rparr>"
  have "opens A ?a p" using opens_hashed [OF assms(5), of p ?a] assms(6) by simp
  with assms(3,4) show "goodAccount A u ?a" by (auto simp: goodAccount_def)
qed

definition keptBy :: "authLib \<Rightarrow> 'db bolt \<Rightarrow> 'db authState \<Rightarrow> 'db authState \<Rightarrow> bool" where
  "keptBy A B s s' \<longleftrightarrow>
     (wellFormedUsers A B (asDb s) \<longrightarrow> wellFormedUsers A B (asDb s')) \<and> (\<exists>ms. asOutbox s' = asOutbox s @ ms)"

lemma keptBy_refl [simp]: "keptBy A B s s"
  by (simp add: keptBy_def)

lemma keptBy_trans: "keptBy A B s t \<Longrightarrow> keptBy A B t u \<Longrightarrow> keptBy A B s u"
  by (auto simp: keptBy_def)

lemma keptBy_firstStart:
  assumes "bolt_ok B" "rand_ok W" "bcrypt_ok A W" "SignUpDefaultUser B W s = (res, s')"
  shows "keptBy A B s s'"
proof (cases "\<exists>salt hsh. generateSalt W 0 = Inr salt \<and> awBcrypt W (defaultPassword @ salt) = Inr hsh")
  case False
  with assms(4) have "s' = s" by (auto simp: SignUpDefaultUser_def split: sum.splits)
  then show ?thesis by simp
next
  case True
  then obtain salt hsh where
    made: "generateSalt W 0 = Inr salt" "awBcrypt W (defaultPassword @ salt) = Inr hsh" by blast
  show ?thesis
  proof (cases rule: InsertUser_outcome [of B defaultUser salt hsh "''admin@localhost''" "asDb s"])
    case (failed x)
    with assms(4) made show ?thesis by (auto simp: SignUpDefaultUser_def)
  next
    case (done_ db')
    have "validName defaultUser" by (simp add: validName_def defaultUser_def)
    from wellFormed_insert [OF assms(1) this _ _ assms(3) made(2) _ done_]
      generateSalt_plain(1) [OF assms(2) made(1)] assms(4) made done_
    show ?thesis by (auto simp: SignUpDefaultUser_def keptBy_def)
  qed
qed

lemma keptBy_signUp:
  assumes "bolt_ok B" "validator_ok A" "rand_ok W" "bcrypt_ok A W" "openWriter w"
    and "SignUp A B svc W w r s = (res, w', s')"
  shows "keptBy A B s s'"
  using assms(6,5)
proof (cases rule: SignUp_cases)
  case (refused code)
  then show ?thesis by simp
next
  case (registered user password salt hsh sent code)
  have tag: "vTag A usernameTag (suUsername user) []" using registered(3) by (simp add: validSignUp_def)
  have made: "length salt = 28" "awBcrypt W (password @ salt) = Inr hsh"
    using registered(4) generateSalt_plain(1) [OF assms(3)] by (auto simp: madeSecrets_def)
  from wellFormed_insert [OF assms(1) validator_name(2) [OF assms(2) tag] _ made(1) assms(4) made(2) _ registered(5)]
    tag SendSignUpEmail_sent [OF registered(6)]
  show ?thesis by (auto simp: keptBy_def split: option.splits)
qed

lemma keptBy_changePassword:
  assumes "bolt_ok B" "rand_ok W" "bcrypt_ok A W" "openWriter w"
    and "ChangePassword A B svc W w r s = (res, w', s')"
  shows "keptBy A B s s'"
  using assms(5,4)
proof (cases rule: ChangePassword_cases)
  case (refused code)
  then show ?thesis by simp
next
  case (changed user name salt hsh code)
  obtain a where a: "userOf B (asDb s) name = Some a"
    and users: "userOf B (asDb s') = (userOf B (asDb s))(name \<mapsto> a\<lparr>acSalt := salt, acHash := hsh\<rparr>)"
    using dbChangePassword_ok [OF assms(1) changed(8)] by metis
  have opens: "opens A (a\<lparr>acSalt := salt, acHash := hsh\<rparr>) (cpNewPassword user)"
    using opens_hashed [OF assms(3)] changed(7) by simp
  have "goodAccount A name (a\<lparr>acSalt := salt, acHash := hsh\<rparr>)" if "wellFormedUsers A B (asDb s)"
    using that a opens generateSalt_plain(1) [OF assms(2) changed(6)]
    by (auto simp: wellFormedUsers_def goodAccount_def)
  moreover have "\<exists>ms. asOutbox s' = asOutbox s @ ms"
  proof (cases "GetEmail B name (asDb s')")
    case (Ok m)
    with changed(12) obtain sent where
      "SendChangedPasswordEmail (awPost W) (asSender svc) m (asOutbox s) = (sent, asOutbox s')" by auto
    from SendChangedPasswordEmail_sent [OF this] show ?thesis by (auto split: option.splits)
  qed (use changed(12) in auto)
  ultimately show ?thesis using wellFormed_update [OF _ users] by (auto simp: keptBy_def)
qed

lemma keptBy_deleteUser:
  assumes "bolt_ok B" "openWriter w" "DeleteUser A B w r s = (res, w', s')"
  shows "keptBy A B s s'"
  using assms(3,2)
proof (cases rule: DeleteUser_cases)
  case (refused code)
  then show ?thesis by simp
next
  case deleted
  from dbDeleteUser_ok(2) [OF assms(1) deleted(5)] deleted(4) show ?thesis
    by (auto simp: keptBy_def wellFormedUsers_def split: if_splits)
qed

lemma keptBy_step:
  assumes "bolt_ok B" "validator_ok A" "authStep A B svc s t"
  shows "keptBy A B s t"
  using assms(3)
  by (cases rule: authStep.cases)
    (auto intro: keptBy_firstStart keptBy_signUp keptBy_changePassword keptBy_deleteUser assms(1,2) elim: SignIn_cases)

interpretation service: stable_relation "authStep A B svc" "\<lambda>t. bolt_ok B \<and> validator_ok A \<and> keptBy A B s t"
  for A B svc s
  by unfold_locales (auto intro: keptBy_trans keptBy_step)

text \<open>Whatever the service does, in any order and however often, the accounts stay well formed, no
  account is ever one that nobody can open, and mails that were sent stay sent.\<close>
theorem accounts_well_formed:
  assumes "bolt_ok B" "validator_ok A" "(authStep A B svc)\<^sup>*\<^sup>* s s'" "wellFormedUsers A B (asDb s)"
  shows "wellFormedUsers A B (asDb s') \<and> (\<exists>ms. asOutbox s' = asOutbox s @ ms)"
  using service.reachable [OF assms(3), of s] assms(1,2,4) by (simp add: keptBy_def)

section \<open>The properties at concrete inputs\<close>

definition jsonRequest :: "string \<Rightarrow> bytes \<Rightarrow> request" where
  "jsonRequest m body =
     \<lparr>reqMethod = m, reqProto = ''HTTP/1.1'', reqHost = ''lb'', reqURI = [],
      reqURL = \<lparr>urlScheme = [], urlHost = [], urlRest = ''anna''\<rparr>, reqHeader = [], reqBody = body,
      reqBodyClosed = False, ctxHash = None, ctxOnlyIfCached = None, ctxUser = None\<rparr>"

definition sampleService :: authService where
  "sampleService =
     \<lparr>asSender = \<lparr>seUser = ''u'', sePassword = ''p'', seFrom = ''u'', seHost = ''smtp'', sePort = ''25''\<rparr>,
      asSignKey = ''key''\<rparr>"

definition annaFlags :: flags where
  "annaFlags = defaultFlags\<lparr>fLogin := ''anna'', fEmail := ''a@b'', fPassword := ''old secret'',
     fOldPass := ''old secret'', fNewPass := ''new secret'', fConfirm := ''new secret''\<rparr>"

definition annaAccount :: account where
  "annaAccount = \<lparr>acSalt = replicate 28 CHR ''A'', acHash = ''old secret'' @ replicate 28 CHR ''A'', acEmail = ''a@b''\<rparr>"

definition annaState :: "refDb authState" where
  "annaState =
     \<lparr>asDb = [(''anna'', [(saltKey, acSalt annaAccount), (hashKey, acHash annaAccount), (emailKey, acEmail annaAccount)])],
      asOutbox = []\<rparr>"

definition emptyState :: "refDb authState" where
  "emptyState = \<lparr>asDb = [], asOutbox = []\<rparr>"

lemma jsonRequest_simps [simp]:
  "reqMethod (jsonRequest m b) = m" "reqBody (jsonRequest m b) = b"
  "urlRest (reqURL (jsonRequest m b)) = ''anna''" "ctxUser (jsonRequest m b) = None"
  by (simp_all add: jsonRequest_def)

lemma sampleService_simps [simp]:
  "asSignKey sampleService = ''key''"
  "asOutbox annaState = []" "asOutbox emptyState = []" "asDb emptyState = []"
  by (simp_all add: sampleService_def annaState_def emptyState_def)

lemma users_annaState: "userOf refBolt (asDb annaState) = [''anna'' \<mapsto> annaAccount]"
proof
  fix u
  show "userOf refBolt (asDb annaState) u = [''anna'' \<mapsto> annaAccount] u"
    by (cases "u = ''anna''")
      (simp_all add: userOf_def refBucket_def getString_def refGet_def annaState_def annaAccount_def)
qed

lemma users_emptyState: "userOf refBolt [] = Map.empty"
  by (simp add: userOf_def refBucket_def fun_eq_iff)

lemma anna_forms:
  "decodeSignUp (signUpBody annaFlags) = (None, \<lparr>suUsername = ''anna'', suEmail = ''a@b''\<rparr>)"
  "decodeSignIn (signInBody annaFlags) = (None, \<lparr>siUsername = ''anna'', siPassword = ''old secret''\<rparr>)"
  "decodeChange (changeBody annaFlags) =
     (None, \<lparr>cpOldPassword = ''old secret'', cpNewPassword = ''new secret'', cpNewPasswordConfirm = ''new secret''\<rparr>)"
  by (simp_all add: decode_signUpBody decode_signInBody decode_changeBody annaFlags_def asciiString_def)

lemma anna_valid:
  "validSignUp sampleLib \<lparr>suUsername = ''anna'', suEmail = ''a@b''\<rparr>"
  "validSignIn sampleLib \<lparr>siUsername = ''anna'', siPassword = ''old secret''\<rparr>"
  "validChange sampleLib
     \<lparr>cpOldPassword = ''old secret'', cpNewPassword = ''new secret'', cpNewPasswordConfirm = ''new secret''\<rparr>"
  by (simp_all add: validSignUp_def validSignIn_def validChange_def sampleTag_def usernameTag_def asciiString_def)

lemma opens_anna: "opens sampleLib annaAccount p \<longleftrightarrow> p = ''old secret''"
  by (auto simp: opens_def annaAccount_def)

lemma authorized_anna: "isAuthorized sampleLib refBolt ''anna'' p (asDb annaState) \<longleftrightarrow> p = ''old secret''"
  by (simp add: isAuthorized_live bolt_live_ref users_annaState opens_anna)

text \<open>A sign-up of anna in the empty database.\<close>

definition samplePassword :: string where
  "samplePassword = base64 (replicate passwordLength CHR 0x00)"

definition sampleSalt :: string where
  "sampleSalt = base64 (replicate saltLength CHR 0x00)"

lemma length_sample: "length samplePassword = 36" "length sampleSalt = 28"
  by (simp_all add: samplePassword_def sampleSalt_def length_base64 passwordLength_def saltLength_def)

lemma sample_secrets:
  "generateRandomPassword (sampleAuthWorld now) k = Inr samplePassword" "generateSalt (sampleAuthWorld now) k = Inr sampleSalt"
  by (simp_all add: generateRandomPassword_def generateSalt_def samplePassword_def sampleSalt_def)

lemma madeSecrets_sample: "madeSecrets (sampleAuthWorld now) samplePassword sampleSalt (samplePassword @ sampleSalt)"
  by (simp add: madeSecrets_def sample_secrets length_sample)

lemma insert_anna:
  obtains db' where
    "InsertUser refBolt ''anna'' sampleSalt (samplePassword @ sampleSalt) ''a@b'' [] = (Ok (), db')"
proof -
  let ?a = "\<lparr>acSalt = sampleSalt, acHash = samplePassword @ sampleSalt, acEmail = ''a@b''\<rparr>"
  have "fst (performUser refBolt (SInsert ''anna'' ?a) []) = Ok ()"
    by (subst performUser_live [OF bolt_ok_ref bolt_live_ref])
      (simp_all add: validName_def users_emptyState length_sample maxValueSize_def)
  with that show thesis by (cases "performUser refBolt (SInsert ''anna'' ?a) []") auto
qed

lemma signUp_anna:
  "\<exists>db'. InsertUser refBolt ''anna'' sampleSalt (samplePassword @ sampleSalt) ''a@b'' [] = (Ok (), db') \<and>
     (\<forall>post. SignUp sampleLib refBolt sampleService ((sampleAuthWorld now)\<lparr>awPost := post\<rparr>) newWriter
        (jsonRequest ''POST'' (signUpBody annaFlags)) emptyState =
      (case SendSignUpEmail post (asSender sampleService) ''a@b'' ''anna'' samplePassword [] of
         (Some e, out) \<Rightarrow> reply 500 newWriter (emptyState\<lparr>asDb := db', asOutbox := out\<rparr>)
       | (None, out) \<Rightarrow> reply 201 newWriter (emptyState\<lparr>asDb := db', asOutbox := out\<rparr>)))"
proof -
  obtain db' where
    ins: "InsertUser refBolt ''anna'' sampleSalt (samplePassword @ sampleSalt) ''a@b'' [] = (Ok (), db')"
    by (rule insert_anna)
  have "generateRandomPassword ((sampleAuthWorld now)\<lparr>awPost := post\<rparr>) k = Inr samplePassword"
    "generateSalt ((sampleAuthWorld now)\<lparr>awPost := post\<rparr>) k = Inr sampleSalt" for post k
    using sample_secrets [of now k] by (simp_all add: generateRandomPassword_def generateSalt_def)
  with ins show ?thesis
    by (intro exI [of _ db'])
      (simp add: SignUp_def registerUser_def anna_forms anna_valid length_sample split: prod.split option.split)
qed

lemma signUp_anna_created:
  "\<exists>w' s'. SignUp sampleLib refBolt sampleService (sampleAuthWorld 0) newWriter
      (jsonRequest ''POST'' (signUpBody annaFlags)) emptyState = (Ok (), w', s') \<and> rwStatus w' = Some 201"
proof -
  have same: "(sampleAuthWorld 0)\<lparr>awPost := samplePost\<rparr> = sampleAuthWorld 0" by (simp add: sampleAuthWorld_def)
  obtain db' where
    run: "\<forall>post. SignUp sampleLib refBolt sampleService ((sampleAuthWorld 0)\<lparr>awPost := post\<rparr>) newWriter
        (jsonRequest ''POST'' (signUpBody annaFlags)) emptyState =
      (case SendSignUpEmail post (asSender sampleService) ''a@b'' ''anna'' samplePassword [] of
         (Some e, out) \<Rightarrow> reply 500 newWriter (emptyState\<lparr>asDb := db', asOutbox := out\<rparr>)
       | (None, out) \<Rightarrow> reply 201 newWriter (emptyState\<lparr>asDb := db', asOutbox := out\<rparr>))"
    using signUp_anna [of 0] by blast
  from spec [OF run, of samplePost] show ?thesis
    by (simp add: same SendSignUpEmail_def send_def Let_def samplePost_def reply_def)
qed

theorem sign_up_credentials_witness:
  "\<exists>w' s' m. SignUp sampleLib refBolt sampleService (sampleAuthWorld 0) newWriter
      (jsonRequest ''POST'' (signUpBody annaFlags)) emptyState = (Ok (), w', s') \<and>
    rwStatus w' = Some 201 \<and> asOutbox s' = [m] \<and> mlTo m = ''a@b'' \<and> userOf refBolt (asDb s') ''ben'' = None"
proof -
  obtain w' s' where go: "SignUp sampleLib refBolt sampleService (sampleAuthWorld 0) newWriter
      (jsonRequest ''POST'' (signUpBody annaFlags)) emptyState = (Ok (), w', s')" "rwStatus w' = Some 201"
    using signUp_anna_created by blast
  from sign_up_credentials [OF bolt_ok_ref bolt_live_ref rand_ok_sample bcrypt_ok_sample bcrypt_strong_sample
      validator_ok_sample openWriter_new go]
  obtain m where "asOutbox s' = [m]" "mlTo m = ''a@b''" "userOf refBolt (asDb s') ''ben'' = None"
    by (auto simp: anna_forms users_emptyState)
  with go show ?thesis by blast
qed

theorem sign_up_mail_failure_witness:
  "\<exists>w' s'. SignUp sampleLib refBolt sampleService ((sampleAuthWorld 0)\<lparr>awPost := \<lambda>_. Some (ErrMsg ''down'')\<rparr>) newWriter
      (jsonRequest ''POST'' (signUpBody annaFlags)) emptyState = (Ok (), w', s') \<and>
    rwStatus w' = Some 500 \<and> userOf refBolt (asDb s') ''anna'' \<noteq> None \<and>
    SignUp sampleLib refBolt sampleService (sampleAuthWorld 0) newWriter
      (jsonRequest ''POST'' (signUpBody annaFlags)) s' = (Ok (), httpError ''User already exists'' 409 newWriter, s')"
proof -
  let ?W = "(sampleAuthWorld 0)\<lparr>awPost := \<lambda>_. Some (ErrMsg ''down'')\<rparr>"
  obtain db' where ins: "InsertUser refBolt ''anna'' sampleSalt (samplePassword @ sampleSalt) ''a@b'' [] = (Ok (), db')"
    and run: "\<forall>post. SignUp sampleLib refBolt sampleService ((sampleAuthWorld 0)\<lparr>awPost := post\<rparr>) newWriter
        (jsonRequest ''POST'' (signUpBody annaFlags)) emptyState =
      (case SendSignUpEmail post (asSender sampleService) ''a@b'' ''anna'' samplePassword [] of
         (Some e, out) \<Rightarrow> reply 500 newWriter (emptyState\<lparr>asDb := db', asOutbox := out\<rparr>)
       | (None, out) \<Rightarrow> reply 201 newWriter (emptyState\<lparr>asDb := db', asOutbox := out\<rparr>))"
    using signUp_anna [of 0] by blast
  have "userOf refBolt db' ''anna'' \<noteq> None"
    using InsertUser_ok(2) [OF bolt_ok_ref _ ins] by (simp add: validName_def)
  then have new: "db' \<noteq> []" by (auto simp: users_emptyState)
  obtain w' s' where go: "SignUp sampleLib refBolt sampleService ?W newWriter
      (jsonRequest ''POST'' (signUpBody annaFlags)) emptyState = (Ok (), w', s')" "s' = emptyState\<lparr>asDb := db'\<rparr>"
    using spec [OF run, of "\<lambda>_. Some (ErrMsg ''down'')"]
    by (simp add: SendSignUpEmail_def send_def Let_def reply_def emptyState_def)
  then have "s' \<noteq> emptyState" using new by (simp add: emptyState_def)
  from sign_up_mail_failure [OF bolt_ok_ref bolt_live_ref validator_ok_sample openWriter_new _ go(1) this]
    madeSecrets_sample [of 0] go(1) show ?thesis
    by (auto simp: anna_forms)
qed

theorem sign_in_admits_witness:
  "\<exists>w' r2. SignIn sampleLib refBolt sampleService (sampleAuthWorld (goDate 2024 1 1)) newWriter
      (jsonRequest ''POST'' (signInBody annaFlags)) annaState = (Ok (), w', annaState) \<and>
    AuthenticationMiddleware sampleLib sampleService (goDate 2024 1 1)
      (\<lambda>w r s. (Ok (), w, s)) newWriter r2 annaState = (Ok (), newWriter, annaState)"
proof -
  let ?now = "goDate 2024 1 1"
  let ?expiry = "unixSec (?now + 1200 * nsPerSec)"
  have times: "unixSec ?now = 1704067200" "?expiry = 1704068400"
    by (simp_all add: unixSec_def goDate_def nsPerSec_def monthDays_def leapYear_def)
  let ?token = "printInt ?expiry @ '';'' @ ''key'' @ '';'' @ ''anna''"
  let ?w = "writeHeader 200 (setHeader ''Authorization'' (''Bearer '' @ ?token) newWriter)"
  have go: "SignIn sampleLib refBolt sampleService (sampleAuthWorld ?now) newWriter
      (jsonRequest ''POST'' (signInBody annaFlags)) annaState = (Ok (), ?w, annaState)"
    using times by (simp add: SignIn_def anna_forms anna_valid authorized_anna generateToken_def
        tokenExpirationTime_def sampleSign_def wordLike_def reply_def)
  define r2 where "r2 = (jsonRequest ''GET'' [])\<lparr>reqHeader := rwSent ?w\<rparr>"
  have "headerGet (reqHeader r2) ''Authorization'' = headerGet (rwSent ?w) ''Authorization''"
    by (simp add: r2_def)
  from sign_in_admits [where ?w2.0 = newWriter and ?s2.0 = annaState, OF jwt_ok_sample validator_ok_sample
      openWriter_new go _ this] times
  have "AuthenticationMiddleware sampleLib sampleService ?now (\<lambda>w r s. (Ok (), w, s)) newWriter r2 annaState =
      (Ok (), newWriter, annaState)"
    by auto
  with go show ?thesis by blast
qed

theorem sign_in_no_oracle_witness:
  "\<exists>w'. SignIn sampleLib refBolt sampleService (sampleAuthWorld 0) newWriter
      (jsonRequest ''POST'' (signInBody annaFlags)) emptyState = (Ok (), w', emptyState)"
  using sign_in_no_oracle [OF bolt_live_ref,
      of "jsonRequest ''POST'' (signInBody annaFlags)" "\<lparr>siUsername = ''anna'', siPassword = ''old secret''\<rparr>" emptyState "annaState\<lparr>asDb := [(''anna'', [(hashKey, ''x'')])]\<rparr>"
        "\<lparr>acSalt = [], acHash = ''x'', acEmail = []\<rparr>" sampleLib sampleService "sampleAuthWorld 0" newWriter]
  by (auto simp: anna_forms users_emptyState userOf_def refBucket_def getString_def refGet_def opens_def
      saltKey_def hashKey_def emailKey_def)

theorem change_password_effective_witness:
  "\<exists>w' s'. ChangePassword sampleLib refBolt sampleService (sampleAuthWorld 0) newWriter
      ((jsonRequest ''PATCH'' (changeBody annaFlags))\<lparr>ctxUser := Some ''anna''\<rparr>) annaState = (Ok (), w', s') \<and>
    isAuthorized sampleLib refBolt ''anna'' ''new secret'' (asDb s') \<and>
    \<not> isAuthorized sampleLib refBolt ''anna'' ''old secret'' (asDb s')"
proof -
  let ?r = "(jsonRequest ''PATCH'' (changeBody annaFlags))\<lparr>ctxUser := Some ''anna''\<rparr>"
  have "fst (performUser refBolt (SChange ''anna'' sampleSalt (''new secret'' @ sampleSalt)) (asDb annaState)) = Ok ()"
    by (subst performUser_live [OF bolt_ok_ref bolt_live_ref])
      (simp_all add: validName_def users_annaState length_sample maxValueSize_def)
  then obtain db' where
    db': "dbChangePassword refBolt ''anna'' sampleSalt (''new secret'' @ sampleSalt) (asDb annaState) = (Ok (), db')"
    by (cases "dbChangePassword refBolt ''anna'' sampleSalt (''new secret'' @ sampleSalt) (asDb annaState)") auto
  obtain a where "userOf refBolt (asDb annaState) ''anna'' = Some a" and
    users: "userOf refBolt db' = (userOf refBolt (asDb annaState))
      (''anna'' \<mapsto> a\<lparr>acSalt := sampleSalt, acHash := ''new secret'' @ sampleSalt\<rparr>)"
    by (rule dbChangePassword_ok [OF bolt_ok_ref db'])
  then have mail: "GetEmail refBolt ''anna'' db' = Ok ''a@b''"
    by (auto simp: GetEmail_live bolt_live_ref users_annaState annaAccount_def)
  obtain w' s' where go: "ChangePassword sampleLib refBolt sampleService (sampleAuthWorld 0) newWriter ?r annaState =
      (Ok (), w', s')" "rwStatus w' = Some 200"
    using db' mail
    by (simp add: ChangePassword_def anna_forms anna_valid authorized_anna sample_secrets length_sample
        storePassword_def SendChangedPasswordEmail_def send_def Let_def samplePost_def reply_def)
  from change_password_effective [OF bolt_ok_ref bolt_live_ref rand_ok_sample bcrypt_ok_sample bcrypt_strong_sample
      openWriter_new go(1)] go show ?thesis
    by (auto simp: anna_forms plainPassword_def)
qed

theorem delete_user_functional_witness:
  "\<exists>w' s'. DeleteUser sampleLib refBolt newWriter (jsonRequest ''DELETE'' []) annaState = (Ok (), w', s') \<and>
    rwStatus w' = Some 204 \<and> userOf refBolt (asDb s') = Map.empty"
proof -
  obtain res w' s' where go: "DeleteUser sampleLib refBolt newWriter (jsonRequest ''DELETE'' []) annaState = (res, w', s')"
    by (cases "DeleteUser sampleLib refBolt newWriter (jsonRequest ''DELETE'' []) annaState")
  from delete_user_functional [OF bolt_ok_ref bolt_live_ref openWriter_new _ _ _ go, of "''anna''"] go
  show ?thesis by (auto simp: validName_def users_annaState)
qed

theorem accounts_well_formed_witness:
  "\<exists>s'. authStep sampleLib refBolt sampleService emptyState s' \<and> wellFormedUsers sampleLib refBolt (asDb s')"
proof -
  obtain w' s' where "SignUp sampleLib refBolt sampleService (sampleAuthWorld 0) newWriter
      (jsonRequest ''POST'' (signUpBody annaFlags)) emptyState = (Ok (), w', s')"
    using signUp_anna_created by blast
  then have "authStep sampleLib refBolt sampleService emptyState s'"
    by (intro authStep.signUp [OF rand_ok_sample bcrypt_ok_sample openWriter_new])
  with accounts_well_formed [OF bolt_ok_ref validator_ok_sample r_into_rtranclp [of "authStep sampleLib refBolt sampleService"]]
  show ?thesis by (auto simp: wellFormedUsers_def users_emptyState)
qed

end
