(* ===== verification/PoolProps.thy ===== *)
theory PoolProps
  imports Backend
begin

text \<open>
  The properties of the server pool: the cursor and the slots along every run of its
  operations, what \<open>GetNextPeer\<close> chooses, and the pool as the list of its URLs. Each operation
  runs under the pool's lock or is a single step on one backend, so a concurrent execution is
  a sequence of the events below in some order.
\<close>

section \<open>The pool as a machine\<close>

datatype poolEvent =
    PNext
  | PSetAlive nat bool
  | PAdd Backend
  | PRemove string
  | PAssign nat
  | PFree nat

fun poolStep :: "urlLib \<Rightarrow> poolEvent \<Rightarrow> ServerPool \<Rightarrow> ServerPool" where
  "poolStep U PNext p = snd (GetNextPeer p)"
| "poolStep U (PSetAlive i v) p = SetAlive i v p"
| "poolStep U (PAdd b) p = AddServer b p"
| "poolStep U (PRemove u) p = snd (RemoveServerByUrl U u p)"
| "poolStep U (PAssign i) p = snd (assignAt i p)"
| "poolStep U (PFree i) p = snd (freeAt i p)"

text \<open>A new backend has no more requests in flight than it takes, and the list of servers stays
  shorter than an \<open>int32\<close> can count.\<close>

fun poolEventOk :: "poolEvent \<Rightarrow> ServerPool \<Rightarrow> bool" where
  "poolEventOk (PAdd b) p \<longleftrightarrow>
     inFlight b \<le> maximalRequests b \<and> Suc (length (servers p)) < 2 ^ 31"
| "poolEventOk _ p \<longleftrightarrow> True"

definition slots_ok :: "ServerPool \<Rightarrow> bool" where
  "slots_ok p \<longleftrightarrow> list_all (\<lambda>b. inFlight b \<le> maximalRequests b) (backends p)"

lemma slots_ok_upd:
  assumes "slots_ok p" and "\<And>b. inFlight b \<le> maximalRequests b \<Longrightarrow> inFlight (f b) \<le> maximalRequests (f b)"
  shows "slots_ok (updBackend i f p)"
proof (cases "i < length (backends p)")
  case True
  then have "inFlight (backendAt p i) \<le> maximalRequests (backendAt p i)"
    using assms(1) by (simp add: slots_ok_def backendAt_def list_all_length)
  with assms show ?thesis
    by (auto simp: slots_ok_def updBackend_def list_all_iff dest!: set_update_subset_insert [THEN subsetD])
next
  case False
  with assms(1) show ?thesis by (simp add: slots_ok_def updBackend_def list_update_beyond)
qed

lemma pool_event_keeps:
  assumes "poolEventOk e p" and "pool_ok p \<and> slots_ok p"
  shows "pool_ok (poolStep U e p) \<and> slots_ok (poolStep U e p)"
proof (cases e)
  case PNext
  with assms(2) GetNextPeer_frame [of p] show ?thesis by (simp add: slots_ok_def)
next
  case (PSetAlive i v)
  with assms(2) show ?thesis by (auto simp: SetAlive_def intro!: slots_ok_upd)
next
  case (PAdd b)
  with assms show ?thesis by (simp add: pool_ok_AddServer) (simp add: slots_ok_def AddServer_def)
next
  case (PRemove u)
  with assms(2) pool_ok_RemoveServerByUrl [of p U u] show ?thesis
    by (auto simp: RemoveServerByUrl_def slots_ok_def split: option.split)
next
  case (PAssign i)
  with assms(2) show ?thesis by (auto simp: assignAt_def AssignRequest_def intro!: slots_ok_upd)
next
  case (PFree i)
  with assms(2) show ?thesis by (auto simp: freeAt_def Free_def intro!: slots_ok_upd)
qed

interpretation pool_run: invariant_machine "poolStep U" poolEventOk "\<lambda>p. pool_ok p \<and> slots_ok p" for U
  by unfold_locales (rule pool_event_keeps)

text \<open>C8: Safety of the pool. Along every interleaving of choosing, marking, adding, removing,
  assigning and freeing, the cursor can be incremented without wrapping and every listed server
  exists, so \<open>GetNextPeer\<close> never panics; and no backend ever has more requests in flight than
  its \<open>maximalRequests\<close>.\<close>
theorem pool_run_safe:
  assumes "pool_ok p" and "slots_ok p" and "runOk (poolStep U) poolEventOk es p"
  shows "pool_ok (fold (poolStep U) es p) \<and>
    (\<forall>m. fst (GetNextPeer (fold (poolStep U) es p)) \<noteq> Panic m) \<and>
    (\<forall>b \<in> set (backends (fold (poolStep U) es p)). inFlight b \<le> maximalRequests b)"
proof -
  let ?q = "fold (poolStep U) es p"
  have inv: "pool_ok ?q \<and> slots_ok ?q" using pool_run.inv_run assms by blast
  then have "fst (GetNextPeer ?q) \<noteq> Panic m" for m using GetNextPeer_cases [of ?q] by auto
  with inv show ?thesis by (auto simp: slots_ok_def list_all_iff)
qed

definition sampleBackend :: "string \<Rightarrow> bool \<Rightarrow> nat \<Rightarrow> Backend" where
  "sampleBackend h up cap =
     \<lparr>bUrl = \<lparr>urlScheme = ''http'', urlHost = h, urlRest = []\<rparr>, healthCheckTcpTimeout = 100,
      alive = up, inFlight = 0, maximalRequests = cap\<rparr>"

definition samplePool :: ServerPool where
  "samplePool =
     \<lparr>backends = [sampleBackend ''a'' True 2, sampleBackend ''b'' False 1, sampleBackend ''c'' True 1],
      servers = [0, 1, 2], current = -1\<rparr>"

definition sampleUrls :: urlLib where
  "sampleUrls = \<lparr>urlParse = \<lambda>s. Inr \<lparr>urlScheme = ''http'', urlHost = s, urlRest = []\<rparr>, urlString = urlHost\<rparr>"

lemma pool_ok_sample: "pool_ok samplePool"
  by (simp add: pool_ok_def samplePool_def)

lemma slots_ok_sample: "slots_ok samplePool"
  by (simp add: slots_ok_def samplePool_def sampleBackend_def)

lemma liveOrder_sample: "liveOrder samplePool = [0, 2]"
  by (simp add: liveOrder_def pollOrder_def startPos_def samplePool_def isLive_def [abs_def] backendAt_def
      sampleBackend_def)

theorem pool_run_safe_witness:
  "list_all (\<lambda>b. inFlight b \<le> maximalRequests b)
     (backends (fold (poolStep sampleUrls)
        [PNext, PAssign 0, PAssign 0, PAssign 0, PRemove ''a'', PNext, PFree 0] samplePool))"
  using pool_run_safe [OF pool_ok_sample slots_ok_sample,
      of sampleUrls "[PNext, PAssign 0, PAssign 0, PAssign 0, PRemove ''a'', PNext, PFree 0]"]
  by (simp add: list_all_iff)

section \<open>Choosing a backend\<close>

text \<open>C20: Round robin. As long as the pool does not change, \<open>k\<close> calls of \<open>GetNextPeer\<close> serve the living
  servers cyclically in the order in which they are listed, starting after the cursor; so any
  two of them are chosen equally often, give or take one.\<close>
theorem round_robin:
  assumes "pool_ok p" and "liveOrder p \<noteq> []"
  shows "fst (callN GetNextPeer k p) =
    map (\<lambda>j. Ok (liveOrder p ! (j mod length (liveOrder p)))) [0..<k]"
  using peers.callN_cyclic [OF assms] by simp

theorem round_robin_witness:
  "fst (callN GetNextPeer 5 samplePool) = [Ok 0, Ok 2, Ok 0, Ok 2, Ok 0]"
proof -
  have "[0..<5] = [0, 1, 2, 3, 4 :: nat]" by (simp add: upt_rec)
  with round_robin [OF pool_ok_sample, of 5] show ?thesis by (simp add: liveOrder_sample flip: numeral_2_eq_2)
qed

text \<open>\<open>GetNextPeer\<close> returns a living server of the pool whenever there is one, and the error
  that all backends are turned down exactly when there is none; it never panics, and it changes
  nothing but the cursor.\<close>
theorem next_peer_alive:
  assumes "pool_ok p" and "GetNextPeer p = (r, p')"
  shows "(case r of
      Ok i \<Rightarrow> i \<in> set (servers p) \<and> alive (backendAt p i)
    | Err e \<Rightarrow> \<forall>i \<in> set (servers p). \<not> alive (backendAt p i)
    | Panic m \<Rightarrow> False) \<and> servers p' = servers p \<and> backends p' = backends p"
proof -
  have frame: "servers p' = servers p" "backends p' = backends p"
    using GetNextPeer_frame [OF assms(1)] assms(2) by simp_all
  show ?thesis
  proof (cases rule: peers.pick_cases [OF assms(1)])
    case (1 e s')
    then have "set (liveOrder p) = {}" by simp
    with 1 frame assms(2) show ?thesis unfolding set_liveOrder by auto
  next
    case (2 x xs s')
    then have "x \<in> set (liveOrder p)" by simp
    with 2 frame assms(2) show ?thesis unfolding set_liveOrder by auto
  qed
qed

theorem next_peer_alive_witness:
  "\<exists>r p'. GetNextPeer samplePool = (r, p') \<and> servers p' = [0, 1, 2] \<and> (\<forall>m. r \<noteq> Panic m)"
proof -
  obtain r p' where "GetNextPeer samplePool = (r, p')" by force
  with next_peer_alive [OF pool_ok_sample this] show ?thesis
    by (cases r) (auto simp: samplePool_def)
qed

section \<open>The list of servers\<close>

lemma backendAt_AddServer:
  "i < length (backends p) \<Longrightarrow> backendAt (AddServer b p) i = backendAt p i"
  by (simp add: backendAt_def AddServer_def nth_append)

lemma remove1_map_split:
  "list_all (\<lambda>z. f z \<noteq> u) pre \<Longrightarrow> f x = u \<Longrightarrow> remove1 u (map f (pre @ x # post)) = map f (pre @ post)"
  by (induction pre) auto

text \<open>Seen as the list of its URLs, the pool is a plain list: adding appends, removing takes out
  the first occurrence and reports an error, changing nothing, exactly when there is none, and
  finding succeeds exactly when the URL is listed.\<close>
theorem pool_is_url_list:
  assumes "pool_ok p"
  shows "ServersURLs U (AddServer b p) = ServersURLs U p @ [urlString U (bUrl b)] \<and>
    ServersURLs U (snd (RemoveServerByUrl U u p)) = remove1 u (ServersURLs U p) \<and>
    (fst (RemoveServerByUrl U u p) = None \<longleftrightarrow> u \<in> set (ServersURLs U p)) \<and>
    (FindServerByUrl U u p \<noteq> None \<longleftrightarrow> u \<in> set (ServersURLs U p))"
proof -
  have "serverURL U (AddServer b p) i = serverURL U p i" if "i \<in> set (servers p)" for i
    using that assms by (simp add: serverURL_def pool_ok_def list_all_iff backendAt_AddServer)
  then have "map (serverURL U (AddServer b p)) (servers p) = map (serverURL U p) (servers p)" by simp
  moreover have "serverURL U (AddServer b p) (length (backends p)) = urlString U (bUrl b)"
    by (simp add: serverURL_def backendAt_def AddServer_def)
  ultimately have add: "ServersURLs U (AddServer b p) = ServersURLs U p @ [urlString U (bUrl b)]"
    by (simp add: ServersURLs_def) (simp add: AddServer_def)
  have remove: "ServersURLs U (snd (RemoveServerByUrl U u p)) = remove1 u (ServersURLs U p) \<and>
      (fst (RemoveServerByUrl U u p) = None \<longleftrightarrow> u \<in> set (ServersURLs U p))"
  proof (cases "removeFirst (\<lambda>i. serverURL U p i = u) (servers p)")
    case None
    then have "u \<notin> set (ServersURLs U p)"
      by (auto simp: removeFirst_None list_all_iff ServersURLs_def)
    with None show ?thesis by (simp add: RemoveServerByUrl_def remove1_idem)
  next
    case (Some ss)
    from removeFirst_Some [OF this] obtain pre x post where
      s: "servers p = pre @ x # post" "ss = pre @ post" "serverURL U p x = u"
        "list_all (\<lambda>z. serverURL U p z \<noteq> u) pre" by auto
    have "serverURL U (p\<lparr>servers := ss\<rparr>) = serverURL U p"
      by (simp add: fun_eq_iff serverURL_def backendAt_def)
    with Some s remove1_map_split [OF s(4,3)] show ?thesis
      by (simp add: RemoveServerByUrl_def ServersURLs_def)
  qed
  have "FindServerByUrl U u p \<noteq> None \<longleftrightarrow> u \<in> set (ServersURLs U p)"
    by (auto simp: FindServerByUrl_def ServersURLs_def find_None_iff')
  with add remove show ?thesis by blast
qed

theorem pool_is_url_list_witness:
  "ServersURLs sampleUrls (snd (RemoveServerByUrl sampleUrls ''b'' samplePool)) = [''a'', ''c'']"
proof -
  have "ServersURLs sampleUrls samplePool = [''a'', ''b'', ''c'']"
    by (simp add: ServersURLs_def serverURL_def backendAt_def samplePool_def sampleUrls_def sampleBackend_def)
  with pool_is_url_list [OF pool_ok_sample, of sampleUrls _ "''b''"] show ?thesis by simp
qed

text \<open>\<open>DecrementCurrent\<close> skips a server: with two or more servers it never moves the cursor to
  the first one, although stepping back from the second should.\<close>
theorem decrement_never_first:
  assumes "pool_ok p" and "2 \<le> length (servers p)"
  shows "current (DecrementCurrent p) \<noteq> 0"
proof
  assume zero: "current (DecrementCurrent p) = 0"
  show False
  proof (cases "sint (current p - 1) \<le> 0")
    case True
    then have "(of_nat (length (servers p)) :: int32) - 1 = 0"
      using zero by (simp add: DecrementCurrent_def Let_def)
    then have "(of_nat (length (servers p)) :: int32) = 1" by simp
    then have "sint (of_nat (length (servers p)) :: int32) = 1" by simp
    with assms show False by (simp add: pool_ok_def sint_of_nat32)
  next
    case False
    with zero show False by (simp add: DecrementCurrent_def Let_def)
  qed
qed

theorem decrement_never_first_witness:
  "current (DecrementCurrent (samplePool\<lparr>current := 1\<rparr>)) \<noteq> 0"
  by (rule decrement_never_first) (simp_all add: pool_ok_def samplePool_def)

end
