(* ===== verification/Directives.thy ===== *)
theory Directives
  imports GoHttp
begin

text \<open>
  The Cache-Control directives of package \<open>cache\<close> (\<open>cache/cache.go\<close>): the two structures, the
  loaders of a request's and of a response's directives, and the expiry test. The value is split
  at semicolons, each piece is trimmed and matched as a whole, and the three forms with a
  number are recognised by the substring they contain. Every piece that needs the time reads
  the clock for itself: \<open>clk i\<close> is the reading made for piece \<open>i\<close>.
\<close>

section \<open>Structures\<close>

record requestDirectives =
  rqMaxAge :: time
  rqMaxStale :: int64
  rqMinFresh :: time
  rqNoCache :: bool
  rqNoStore :: bool
  rqNoTransform :: bool
  rqOnlyIfCached :: bool

record responseDirectives =
  rsMustRevalidate :: bool
  rsNoCache :: bool
  rsNoStore :: bool
  rsNoTransform :: bool
  rsPrivate :: bool
  rsProxyRevalidate :: bool
  rsMaxAge :: time
  rsSMaxAge :: time

record PageMetadata =
  pmSize :: int64
  pmResponseDirectives :: responseDirectives

record Page =
  pageBody :: bytes
  pageHeader :: header

definition infinityTimeYear :: int where "infinityTimeYear = 7999"
definition infinityTimeMonth :: int where "infinityTimeMonth = 12"
definition infinityTimeDay :: int where "infinityTimeDay = 31"

text \<open>\<open>time.Unix(0, 0).AddDate(...)\<close>, counted from January 1, 1970.\<close>

definition infinityTime :: time where
  "infinityTime = goDate (1970 + infinityTimeYear) (1 + infinityTimeMonth) (1 + infinityTimeDay)"

definition nullTime :: time where
  "nullTime = 0"

lemma infinityTime_value: "infinityTime = goDate 9970 2 1"
  by (simp add: infinityTime_def infinityTimeYear_def infinityTimeMonth_def infinityTimeDay_def
      goDate_def monthDays_def leapYear_def)

lemma infinityTime_pos: "0 < infinityTime"
  by (simp add: infinityTime_value goDate_def monthDays_def leapYear_def nsPerSec_def)

section \<open>Loading\<close>

text \<open>\<open>_, t, _ := strings.Cut(v, "="); age, _ := strconv.Atoi(t)\<close>\<close>

definition ageOf :: "string \<Rightarrow> int" where
  "ageOf v = goAtoi (cutAfter CHR ''='' v)"

definition cacheControlPieces :: "header \<Rightarrow> string list" where
  "cacheControlPieces h = map trimSpace (splitOn CHR '';'' (headerGet h ''cache-control''))"

definition requestDirective ::
  "time \<Rightarrow> string \<Rightarrow> requestDirectives \<Rightarrow> requestDirectives" where
  "requestDirective now v d =
     (if v = ''only-if-cached'' then d\<lparr>rqOnlyIfCached := True\<rparr>
      else if v = ''no-cache'' then d\<lparr>rqNoCache := True\<rparr>
      else if v = ''no-store'' then d\<lparr>rqNoStore := True\<rparr>
      else if v = ''no-transform'' then d\<lparr>rqNoTransform := True\<rparr>
      else if contains ''max-age'' v then
        (if ageOf v = 0 then d\<lparr>rqMaxAge := infinityTime\<rparr>
         else d\<lparr>rqMaxAge := timeAdd now (durSeconds (ageOf v))\<rparr>)
      else if contains ''max-stale'' v then d\<lparr>rqMaxStale := of_int (ageOf v)\<rparr>
      else if contains ''min-fresh'' v then
        d\<lparr>rqMinFresh := timeAdd now (durSeconds (ageOf v))\<rparr>
      else d)"

definition loadRequestDirectives :: "(nat \<Rightarrow> time) \<Rightarrow> header \<Rightarrow> requestDirectives" where
  "loadRequestDirectives clk h =
     fold (\<lambda>(i, v). requestDirective (clk i) v) (enumerate 0 (cacheControlPieces h))
       \<lparr>rqMaxAge = nullTime, rqMaxStale = 0, rqMinFresh = nullTime, rqNoCache = False,
        rqNoStore = False, rqNoTransform = False, rqOnlyIfCached = False\<rparr>"

definition responseDirective ::
  "time \<Rightarrow> string \<Rightarrow> responseDirectives \<Rightarrow> responseDirectives" where
  "responseDirective now v d =
     (if v = ''must-revalidate'' then d\<lparr>rsMustRevalidate := True\<rparr>
      else if v = ''no-cache'' then d\<lparr>rsNoCache := True\<rparr>
      else if v = ''no-store'' then d\<lparr>rsNoStore := True\<rparr>
      else if v = ''no-transform'' then d\<lparr>rsNoTransform := True\<rparr>
      else if v = ''private'' then d\<lparr>rsPrivate := True\<rparr>
      else if v = ''proxy-revalidate'' then d\<lparr>rsProxyRevalidate := True\<rparr>
      else if contains ''max-age'' v then
        (if ageOf v = 0 then d\<lparr>rsMaxAge := infinityTime\<rparr>
         else d\<lparr>rsMaxAge := timeAdd now (durSeconds (ageOf v))\<rparr>)
      else if contains ''s-maxage'' v then
        (if ageOf v = 0 then d\<lparr>rsSMaxAge := nullTime\<rparr>
         else d\<lparr>rsSMaxAge := timeAdd now (durSeconds (ageOf v))\<rparr>)
      else d)"

definition loadResponseDirectives :: "(nat \<Rightarrow> time) \<Rightarrow> header \<Rightarrow> responseDirectives" where
  "loadResponseDirectives clk h =
     fold (\<lambda>(i, v). responseDirective (clk i) v) (enumerate 0 (cacheControlPieces h))
       \<lparr>rsMustRevalidate = False, rsNoCache = False, rsNoStore = False, rsNoTransform = False,
        rsPrivate = False, rsProxyRevalidate = False, rsMaxAge = infinityTime,
        rsSMaxAge = nullTime\<rparr>"

definition isExpired :: "time \<Rightarrow> PageMetadata \<Rightarrow> int64 \<Rightarrow> bool" where
  "isExpired now info afterDeath =
     timeAfter now (timeAdd (rsMaxAge (pmResponseDirectives info)) afterDeath)"

section \<open>Which flags are set\<close>

text \<open>A fold that sets a flag at the pieces equal to a fixed word.\<close>

lemma fold_flag:
  assumes "\<And>i v d. flag (f (i, v) d) \<longleftrightarrow> flag d \<or> v = w"
  shows "flag (fold f (enumerate n vs) d) \<longleftrightarrow> flag d \<or> w \<in> set vs"
  using assms by (induction vs arbitrary: n d) auto

lemma rqOnlyIfCached_load:
  "rqOnlyIfCached (loadRequestDirectives clk h) \<longleftrightarrow> ''only-if-cached'' \<in> set (cacheControlPieces h)"
  unfolding loadRequestDirectives_def
  by (subst fold_flag [where w = "''only-if-cached''"]) (auto simp: requestDirective_def)

lemma rqNoStore_load:
  "rqNoStore (loadRequestDirectives clk h) \<longleftrightarrow> ''no-store'' \<in> set (cacheControlPieces h)"
  unfolding loadRequestDirectives_def
  by (subst fold_flag [where w = "''no-store''"]) (auto simp: requestDirective_def)

lemma rsNoStore_load:
  "rsNoStore (loadResponseDirectives clk h) \<longleftrightarrow> ''no-store'' \<in> set (cacheControlPieces h)"
  unfolding loadResponseDirectives_def
  by (subst fold_flag [where w = "''no-store''"]) (auto simp: responseDirective_def)

lemma rsPrivate_load:
  "rsPrivate (loadResponseDirectives clk h) \<longleftrightarrow> ''private'' \<in> set (cacheControlPieces h)"
  unfolding loadResponseDirectives_def
  by (subst fold_flag [where w = "''private''"]) (auto simp: responseDirective_def)

lemma rsMustRevalidate_load:
  "rsMustRevalidate (loadResponseDirectives clk h) \<longleftrightarrow>
     ''must-revalidate'' \<in> set (cacheControlPieces h)"
  unfolding loadResponseDirectives_def
  by (subst fold_flag [where w = "''must-revalidate''"]) (auto simp: responseDirective_def)

lemmas directive_flags =
  rqOnlyIfCached_load rqNoStore_load rsNoStore_load rsPrivate_load rsMustRevalidate_load

text \<open>A value without a semicolon is one piece, so a comma does not separate directives.\<close>

lemma cacheControlPieces_single:
  "CHR '';'' \<notin> set (headerGet h ''cache-control'') \<Longrightarrow>
     cacheControlPieces h = [trimSpace (headerGet h ''cache-control'')]"
  by (simp add: cacheControlPieces_def splitOn_no_sep)

section \<open>The max-age directive\<close>

definition maxAgeValue :: "nat \<Rightarrow> string" where
  "maxAgeValue n = ''max-age='' @ goItoa n"

lemma maxAgeValue_piece:
  "splitOn CHR '';'' (maxAgeValue n) = [maxAgeValue n]" "trimSpace (maxAgeValue n) = maxAgeValue n"
proof -
  have digits: "isDigit c" if "c \<in> set (goItoa n)" for c
    using that by (rule goItoa_digits)
  then have "CHR '';'' \<notin> set (goItoa n)"
    using digits [of "CHR '';''"] by (auto simp: isDigit_def)
  then show "splitOn CHR '';'' (maxAgeValue n) = [maxAgeValue n]"
    by (intro splitOn_no_sep) (simp add: maxAgeValue_def)
  have "isDigit (last (goItoa n))" by (intro digits last_in_set) simp
  then have "\<not> isSpace (last (maxAgeValue n))"
    by (auto simp: maxAgeValue_def isSpace_def isDigit_def)
  moreover have "\<not> isSpace (hd (maxAgeValue n))"
    by (simp add: maxAgeValue_def isSpace_def)
  ultimately show "trimSpace (maxAgeValue n) = maxAgeValue n" by (intro trimSpace_id) simp
qed

lemma ageOf_maxAgeValue: "ageOf (maxAgeValue n) = min (int n) (2 ^ 63 - 1)"
  using cutAfter_append [of "CHR ''=''" "''max-age''" "goItoa n"]
  by (simp add: ageOf_def maxAgeValue_def goAtoi_goItoa_min)

lemma contains_maxAgeValue: "contains ''max-age'' (maxAgeValue n)"
  by (rule contains_prefix) (simp add: maxAgeValue_def)

lemma rsMaxAge_maxAgeValue:
  assumes "headerGet h ''cache-control'' = maxAgeValue n"
  shows "rsMaxAge (loadResponseDirectives clk h) =
    (if n = 0 then infinityTime else timeAdd (clk 0) (durSeconds (min (int n) (2 ^ 63 - 1))))"
proof -
  have "cacheControlPieces h = [maxAgeValue n]"
    using assms by (simp add: cacheControlPieces_def maxAgeValue_piece)
  moreover have "maxAgeValue n \<noteq> w" if "take 8 w \<noteq> ''max-age=''" for w
    using that by (auto simp: maxAgeValue_def)
  ultimately show ?thesis
    by (simp add: loadResponseDirectives_def responseDirective_def contains_maxAgeValue
        ageOf_maxAgeValue min_def)
qed

section \<open>Properties\<close>

text \<open>C40: How long a response with a max-age of \<open>n\<close> seconds lives, for every \<open>n\<close>. 0 gives the page the life of
  the year 9970. Any other value is cut to the largest \<open>int64\<close> and multiplied by a second with
  wrap-around. So the life is exactly \<open>n\<close> seconds as long as \<open>n\<close> is at most 9223372036; from there up to
  18446744073 the product is negative and the page is expired when it is stored; and for every
  larger \<open>n\<close> it is shorter than asked for, whatever it comes to.\<close>
theorem max_age_bounds:
  assumes "headerGet h ''cache-control'' = maxAgeValue n"
  shows "rsMaxAge (loadResponseDirectives clk h) =
      (if n = 0 then infinityTime
       else clk 0 + ((min (int n) (2 ^ 63 - 1) * nsPerSec + 2 ^ 63) mod 2 ^ 64 - 2 ^ 63)) \<and>
    (0 < n \<and> n \<le> 9223372036 \<longrightarrow>
       rsMaxAge (loadResponseDirectives clk h) = clk 0 + int n * nsPerSec) \<and>
    (9223372036 < n \<and> n \<le> 18446744073 \<longrightarrow> rsMaxAge (loadResponseDirectives clk h) < clk 0) \<and>
    (9223372036 < n \<longrightarrow> rsMaxAge (loadResponseDirectives clk h) < clk 0 + int n * nsPerSec)"
proof -
  have exact: "rsMaxAge (loadResponseDirectives clk h) =
      (if n = 0 then infinityTime else clk 0 + sint (durSeconds (min (int n) (2 ^ 63 - 1))))"
    using rsMaxAge_maxAgeValue [OF assms, of clk] by (simp add: timeAdd_def)
  have cut: "min (int n) (2 ^ 63 - 1) = int n" if "n \<le> 18446744073" using that by simp
  have wrapped: "int n * nsPerSec < 2 ^ 64" if "n \<le> 18446744073" using that by (simp add: nsPerSec_def)
  have "sint (durSeconds a) < int n * nsPerSec" if "9223372036 < n" for a
    using sint_less [of "durSeconds a"] that by (simp add: nsPerSec_def)
  then have shorter: "9223372036 < n \<longrightarrow> rsMaxAge (loadResponseDirectives clk h) < clk 0 + int n * nsPerSec"
    unfolding exact by simp
  have "0 < n \<and> n \<le> 9223372036 \<longrightarrow> rsMaxAge (loadResponseDirectives clk h) = clk 0 + int n * nsPerSec"
    "9223372036 < n \<and> n \<le> 18446744073 \<longrightarrow> rsMaxAge (loadResponseDirectives clk h) < clk 0"
    unfolding exact using cut wrapped sint_durSeconds_small [of "int n"] sint_durSeconds_wrapped [of "int n"]
    by auto
  with shorter show ?thesis using exact unfolding sint_durSeconds by blast
qed

theorem max_age_bounds_witness:
  "rsMaxAge (loadResponseDirectives (\<lambda>_. 7) [(''Cache-Control'', [maxAgeValue 60])]) = 60000000007 \<and>
   rsMaxAge (loadResponseDirectives (\<lambda>_. 7) [(''Cache-Control'', [maxAgeValue 10000000000])]) < 7 \<and>
   rsMaxAge (loadResponseDirectives (\<lambda>_. 7) [(''Cache-Control'', [maxAgeValue 18446744074])]) = 290448391"
proof -
  have "canonicalKey ''cache-control'' = ''Cache-Control''" by code_simp
  then have "headerGet [(''Cache-Control'', [maxAgeValue n])] ''cache-control'' = maxAgeValue n" for n
    by (simp add: headerGet_def)
  note this [THEN max_age_bounds]
  from this [of "\<lambda>_. 7" 60] this [of "\<lambda>_. 7" 10000000000] this [of "\<lambda>_. 7" 18446744074] show ?thesis
    by (simp add: nsPerSec_def)
qed

lemma trimSpace_keeps:
  assumes "c \<in> set s" and "\<not> isSpace c"
  shows "c \<in> set (trimSpace s)"
proof -
  have keep: "c \<in> set (dropWhile isSpace xs)" if "c \<in> set xs" for xs
    using that assms(2) by (induction xs) auto
  show ?thesis unfolding trimSpace_def using assms(1) by (auto intro!: keep simp: set_rev)
qed

text \<open>A Cache-Control value in the standard form, directives separated by commas and no
  semicolon in it, sets none of the flags, on a response or on a request: no-store and private
  are ignored then, and so is only-if-cached.\<close>
theorem comma_list_sets_nothing:
  assumes "CHR '';'' \<notin> set (headerGet h ''cache-control'')"
    and "CHR '','' \<in> set (headerGet h ''cache-control'')"
  shows "\<not> rsNoStore (loadResponseDirectives clk h) \<and> \<not> rsPrivate (loadResponseDirectives clk h) \<and>
    \<not> rsMustRevalidate (loadResponseDirectives clk h) \<and>
    \<not> rqNoStore (loadRequestDirectives clk h) \<and> \<not> rqOnlyIfCached (loadRequestDirectives clk h)"
proof -
  have "CHR '','' \<in> set (trimSpace (headerGet h ''cache-control''))"
    using assms(2) by (intro trimSpace_keeps) (auto simp: isSpace_def)
  then have comma: "CHR '','' \<in> set w" if "w = trimSpace (headerGet h ''cache-control'')" for w
    using that by simp
  show ?thesis
    by (auto simp: directive_flags cacheControlPieces_single [OF assms(1)] dest!: comma)
qed

theorem comma_list_sets_nothing_witness:
  "\<not> rsNoStore (loadResponseDirectives (\<lambda>_. 7) [(''Cache-Control'', [''private, no-store''])])"
proof -
  have "canonicalKey ''cache-control'' = ''Cache-Control''" by code_simp
  then have "headerGet [(''Cache-Control'', [''private, no-store''])] ''cache-control'' = ''private, no-store''"
    by (simp add: headerGet_def)
  then show ?thesis
    using comma_list_sets_nothing [of "[(''Cache-Control'', [''private, no-store''])]" "\<lambda>_. 7"] by simp
qed

end
