(* ===== verification/Disk.thy ===== *)
theory Disk
  imports Directives Bolt "HOL-Library.AList" "HOL-Library.List_Lexorder" "HOL-Library.Char_ord"
begin

text \<open>
  The page files of package \<open>cache\<close>: \<open>makePath\<close> (\<open>cache/cache.go\<close>), \<open>writePageToDisk\<close>
  (\<open>cache/insert.go\<close>), \<open>readPageFromDisk\<close> (\<open>cache/read.go\<close>), \<open>removePageFromDisk\<close>
  (\<open>cache/remove.go\<close>) and the directory walk of \<open>ClearCache\<close>, over a model of the file system
  calls they make. A file system is an association list from path strings to files and
  directories; every call may also fail for a reason of the environment, which the record
  \<open>osFaults\<close> decides.
\<close>

section \<open>File system calls\<close>

datatype node = Dir | File bytes

type_synonym fsys = "(string \<times> node) list"

record osFaults =
  faultStat :: "string \<Rightarrow> goerror option"
  faultMkdir :: "string \<Rightarrow> goerror option"
  faultCreate :: "string \<Rightarrow> goerror option"
  faultWrite :: "string \<Rightarrow> (nat \<times> goerror) option"
  faultOpen :: "string \<Rightarrow> goerror option"
  faultRemove :: "string \<Rightarrow> goerror option"

definition noFaults :: osFaults where
  "noFaults = \<lparr>faultStat = \<lambda>_. None, faultMkdir = \<lambda>_. None, faultCreate = \<lambda>_. None,
     faultWrite = \<lambda>_. None, faultOpen = \<lambda>_. None, faultRemove = \<lambda>_. None\<rparr>"

text \<open>The working directory exists.\<close>

definition fsLookup :: "fsys \<Rightarrow> string \<Rightarrow> node option" where
  "fsLookup fs p = (if p = ''.'' then Some Dir else map_of fs p)"

definition osStat :: "osFaults \<Rightarrow> string \<Rightarrow> fsys \<Rightarrow> goerror option" where
  "osStat F p fs =
     (case faultStat F p of
        Some e \<Rightarrow> Some e
      | None \<Rightarrow> if fsLookup fs p = None then Some ErrNotExist else None)"

text \<open>The prefixes of a path that end before a slash, and the path itself, shortest first.\<close>

fun pathPrefixes :: "string \<Rightarrow> string \<Rightarrow> string list" where
  "pathPrefixes d [] = [d]"
| "pathPrefixes d (c # cs) =
     (if c = CHR ''/'' then d # pathPrefixes (d @ [c]) cs else pathPrefixes (d @ [c]) cs)"

fun mkdirEach :: "osFaults \<Rightarrow> string list \<Rightarrow> fsys \<Rightarrow> goerror option \<times> fsys" where
  "mkdirEach F [] fs = (None, fs)"
| "mkdirEach F (d # ds) fs =
     (case fsLookup fs d of
        Some Dir \<Rightarrow> mkdirEach F ds fs
      | Some (File _) \<Rightarrow> (Some (ErrMsg ''not a directory''), fs)
      | None \<Rightarrow>
          (case faultMkdir F d of
             Some e \<Rightarrow> (Some e, fs)
           | None \<Rightarrow> mkdirEach F ds (AList.update d Dir fs)))"

definition osMkdirAll :: "osFaults \<Rightarrow> string \<Rightarrow> fsys \<Rightarrow> goerror option \<times> fsys" where
  "osMkdirAll F p fs = mkdirEach F (pathPrefixes [] p) fs"

definition osCreate :: "osFaults \<Rightarrow> string \<Rightarrow> fsys \<Rightarrow> goerror option \<times> fsys" where
  "osCreate F p fs =
     (case faultCreate F p of
        Some e \<Rightarrow> (Some e, fs)
      | None \<Rightarrow>
          (case beforeLast CHR ''/'' p of
             None \<Rightarrow> (Some ErrNotExist, fs)
           | Some parent \<Rightarrow>
               if fsLookup fs parent \<noteq> Some Dir then (Some ErrNotExist, fs)
               else if fsLookup fs p = Some Dir then (Some (ErrMsg ''is a directory''), fs)
               else (None, AList.update p (File []) fs)))"

text \<open>Buffered writing of a value into a file just created, and the flush: a failure may leave a
  prefix of the value behind.\<close>

definition osWriteAll :: "osFaults \<Rightarrow> string \<Rightarrow> bytes \<Rightarrow> fsys \<Rightarrow> goerror option \<times> fsys" where
  "osWriteAll F p v fs =
     (case faultWrite F p of
        Some (k, e) \<Rightarrow> (Some e, AList.update p (File (take k v)) fs)
      | None \<Rightarrow> (None, AList.update p (File v) fs))"

text \<open>\<open>reader.ReadBytes(0)\<close> with its error ignored: up to and including the first NUL.\<close>

fun readUntilNul :: "bytes \<Rightarrow> bytes" where
  "readUntilNul [] = []"
| "readUntilNul (b # bs) = (if b = CHR 0x00 then [b] else b # readUntilNul bs)"

definition osReadFile :: "osFaults \<Rightarrow> string \<Rightarrow> fsys \<Rightarrow> goerror + bytes" where
  "osReadFile F p fs =
     (case faultOpen F p of
        Some e \<Rightarrow> Inl e
      | None \<Rightarrow>
          (case fsLookup fs p of
             None \<Rightarrow> Inl ErrNotExist
           | Some Dir \<Rightarrow> Inr []
           | Some (File bs) \<Rightarrow> Inr (readUntilNul bs)))"

definition under :: "string \<Rightarrow> string \<Rightarrow> bool" where
  "under p q = hasPrefix (p @ ''/'') q"

definition osRemove :: "osFaults \<Rightarrow> string \<Rightarrow> fsys \<Rightarrow> goerror option \<times> fsys" where
  "osRemove F p fs =
     (case faultRemove F p of
        Some e \<Rightarrow> (Some e, fs)
      | None \<Rightarrow>
          (case fsLookup fs p of
             None \<Rightarrow> (Some ErrNotExist, fs)
           | Some Dir \<Rightarrow>
               if list_ex (\<lambda>(q, _). under p q) fs then (Some (ErrMsg ''directory not empty''), fs)
               else (None, AList.delete p fs)
           | Some (File _) \<Rightarrow> (None, AList.delete p fs)))"

definition osRemoveAll :: "osFaults \<Rightarrow> string \<Rightarrow> fsys \<Rightarrow> goerror option \<times> fsys" where
  "osRemoveAll F p fs =
     (case faultRemove F p of
        Some e \<Rightarrow> (Some e, fs)
      | None \<Rightarrow> (None, filter (\<lambda>(q, _). q \<noteq> p \<and> \<not> under p q) fs))"

section \<open>Pages on the disk\<close>

text \<open>JSON of pages and of their metadata (\<open>encoding/json\<close>). Decoding \<open>null\<close> into a pointer
  gives nil, here \<open>None\<close>.\<close>

record codec =
  marshalPage :: "Page \<Rightarrow> goerror + bytes"
  unmarshalPage :: "bytes \<Rightarrow> goerror + Page"
  marshalMeta :: "PageMetadata \<Rightarrow> goerror + bytes"
  unmarshalMeta :: "bytes \<Rightarrow> goerror + PageMetadata option"

definition PagesPath :: string where
  "PagesPath = ''./cache-data/db''"

definition hashLength :: nat where "hashLength = 40"
definition subHashCount :: nat where "subHashCount = 4"

definition goSlice :: "'a list \<Rightarrow> nat \<Rightarrow> nat \<Rightarrow> 'a list" where
  "goSlice xs a b = take (b - a) (drop a xs)"

definition makePath :: "bytes \<Rightarrow> nat \<Rightarrow> string" where
  "makePath hash parts =
     (let subhashLength = length hash div parts;
          subHashes = map (\<lambda>i. goSlice hash (i * subhashLength) ((i + 1) * subhashLength)) [0..<parts]
      in fold (\<lambda>v path. path @ ''/'' @ v) subHashes PagesPath)"

definition pagePath :: "bytes \<Rightarrow> string" where
  "pagePath key = makePath key subHashCount @ ''/'' @ key"

text \<open>\<open>writePageToDisk\<close> after the page has been encoded.\<close>

definition storeBytes :: "osFaults \<Rightarrow> bytes \<Rightarrow> bytes \<Rightarrow> fsys \<Rightarrow> goerror option \<times> fsys" where
  "storeBytes F key v fs =
     (case osMkdirAll F (makePath key subHashCount) fs of
        (Some e, fs) \<Rightarrow> (Some e, fs)
      | (None, fs) \<Rightarrow>
          (case osCreate F (pagePath key) fs of
             (Some e, fs) \<Rightarrow> (Some e, fs)
           | (None, fs) \<Rightarrow> osWriteAll F (pagePath key) v fs))"

definition writePageToDisk ::
  "codec \<Rightarrow> osFaults \<Rightarrow> bytes \<Rightarrow> Page \<Rightarrow> fsys \<Rightarrow> goerror option \<times> fsys" where
  "writePageToDisk J F key page fs =
     (case marshalPage J page of Inl e \<Rightarrow> (Some e, fs) | Inr v \<Rightarrow> storeBytes F key v fs)"

definition readPageFromDisk :: "codec \<Rightarrow> osFaults \<Rightarrow> bytes \<Rightarrow> fsys \<Rightarrow> goerror + Page" where
  "readPageFromDisk J F key fs =
     (case osReadFile F (pagePath key) fs of Inl e \<Rightarrow> Inl e | Inr bs \<Rightarrow> unmarshalPage J bs)"

lemma beforeLast_length: "beforeLast c s = Some p \<Longrightarrow> length p < length s"
  by (induction s arbitrary: p) (auto split: option.splits if_splits)

text \<open>The loop that removes the emptied directories on the way up to \<open>PagesPath\<close>.\<close>

function removeDirs :: "osFaults \<Rightarrow> string \<Rightarrow> fsys \<Rightarrow> unit res \<times> fsys" where
  "removeDirs F path fs =
     (if path = PagesPath then (Ok (), fs)
      else (case osRemove F path fs of
              (Some e, fs) \<Rightarrow> (Err e, fs)
            | (None, fs) \<Rightarrow>
                (case beforeLast CHR ''/'' path of
                   None \<Rightarrow> (Panic ''slice bounds out of range'', fs)
                 | Some parent \<Rightarrow> removeDirs F parent fs)))"
  by pat_completeness auto
termination
  by (relation "measure (\<lambda>(F, path, fs). length path)") (auto simp: beforeLast_length)

declare removeDirs.simps [simp del]

definition subHashes :: "bytes \<Rightarrow> string list" where
  "subHashes key =
     (let l = hashLength div subHashCount
      in map (\<lambda>i. goSlice key (i * l) ((i + 1) * l)) [0..<subHashCount])"

definition removePageFromDisk :: "osFaults \<Rightarrow> bytes \<Rightarrow> fsys \<Rightarrow> unit res \<times> fsys" where
  "removePageFromDisk F key fs =
     (if length key < hashLength then (Panic ''slice bounds out of range'', fs)
      else let path = fold (\<lambda>v path. path @ ''/'' @ v) (subHashes key) PagesPath
           in case osRemove F (path @ ''/'' @ key) fs of
                (Some e, fs) \<Rightarrow> (Err e, fs)
              | (None, fs) \<Rightarrow> removeDirs F path fs)"

text \<open>
  \<open>filepath.WalkDir(PagesPath, ...)\<close> with a callback that removes every child of the root: the
  walk visits the direct children in lexical order and stops at the first error.
\<close>

fun removeAllEach :: "osFaults \<Rightarrow> string list \<Rightarrow> fsys \<Rightarrow> goerror option \<times> fsys" where
  "removeAllEach F [] fs = (None, fs)"
| "removeAllEach F (p # ps) fs =
     (case osRemoveAll F p fs of
        (Some e, fs) \<Rightarrow> (Some e, fs)
      | (None, fs) \<Rightarrow> removeAllEach F ps fs)"

definition childrenOf :: "string \<Rightarrow> fsys \<Rightarrow> string list" where
  "childrenOf p fs =
     sort (remdups (map (\<lambda>q. p @ ''/'' @ takeWhile (\<lambda>c. c \<noteq> CHR ''/'') (drop (length p + 1) q))
       (filter (under p) (map fst fs))))"

definition clearPages :: "osFaults \<Rightarrow> fsys \<Rightarrow> goerror option \<times> fsys" where
  "clearPages F fs = removeAllEach F (childrenOf PagesPath fs) fs"

section \<open>Where pages live\<close>

text \<open>A key as \<open>RequestHashKey\<close> makes it: 40 bytes, none of them a slash.\<close>

definition diskKey :: "bytes \<Rightarrow> bool" where
  "diskKey k \<longleftrightarrow> length k = hashLength \<and> CHR ''/'' \<notin> set k"

definition depth :: "string \<Rightarrow> nat" where
  "depth p = count_list p CHR ''/''"

lemma depth_append [simp]: "depth (p @ q) = depth p + depth q"
  by (simp add: depth_def)

lemma depth_Nil [simp]: "depth [] = 0"
  by (simp add: depth_def)

lemma depth_Cons [simp]: "depth (c # p) = (if c = CHR ''/'' then Suc (depth p) else depth p)"
  by (simp add: depth_def)

lemma depth_0: "CHR ''/'' \<notin> set p \<Longrightarrow> depth p = 0"
  by (simp add: depth_def)

lemma goSlice_set: "c \<in> set (goSlice xs a b) \<Longrightarrow> c \<in> set xs"
  by (auto simp: goSlice_def dest: in_set_takeD in_set_dropD)

lemma depth_goSlice: "CHR ''/'' \<notin> set k \<Longrightarrow> depth (goSlice k a b) = 0"
  by (intro depth_0) (auto dest: goSlice_set)

lemma upt_4: "[0..<4] = [0, 1, 2, 3 :: nat]"
  by (simp add: upt_rec)

lemma depth_makePath: "CHR ''/'' \<notin> set k \<Longrightarrow> depth (makePath k subHashCount) = 6"
  by (simp add: makePath_def subHashCount_def PagesPath_def Let_def upt_4
      depth_goSlice)

lemma depth_pagePath: "CHR ''/'' \<notin> set k \<Longrightarrow> depth (pagePath k) = 7"
  by (simp add: pagePath_def depth_makePath depth_0)

lemma pagePath_inj:
  assumes "diskKey k" and "diskKey k'" and "pagePath k = pagePath k'"
  shows "k = k'"
proof -
  have "length k = length k'" using assms by (simp add: diskKey_def)
  moreover have "(makePath k subHashCount @ ''/'') @ k = (makePath k' subHashCount @ ''/'') @ k'"
    using assms(3) by (simp add: pagePath_def)
  ultimately show ?thesis by (metis append_eq_append_conv)
qed

lemma pagePath_not_dot: "diskKey k \<Longrightarrow> pagePath k \<noteq> ''.''"
  using depth_pagePath [of k] by (auto simp: diskKey_def)

lemma pathPrefixes_depth: "p \<in> set (pathPrefixes d s) \<Longrightarrow> depth p \<le> depth d + depth s"
  by (induction d s rule: pathPrefixes.induct) fastforce+

lemma pathPrefixes_self: "d @ s \<in> set (pathPrefixes d s)"
  by (induction d s rule: pathPrefixes.induct) auto

lemma removePath_is_makePath:
  "diskKey k \<Longrightarrow> fold (\<lambda>v path. path @ ''/'' @ v) (subHashes k) PagesPath = makePath k subHashCount"
  by (simp add: makePath_def subHashes_def Let_def diskKey_def)

section \<open>What each call changes\<close>

lemma fsLookup_update:
  "fsLookup (AList.update p n fs) q = (if q = ''.'' then Some Dir else if q = p then Some n else fsLookup fs q)"
  by (simp add: fsLookup_def update_conv)

lemma fsLookup_delete:
  "fsLookup (AList.delete p fs) q = (if q = ''.'' then Some Dir else if q = p then None else fsLookup fs q)"
  by (simp add: fsLookup_def delete_conv)

lemma fsLookup_update_keeps:
  "fsLookup fs q = Some n \<Longrightarrow> fsLookup fs a = None \<Longrightarrow> fsLookup (AList.update a m fs) q = Some n"
  by (auto simp: fsLookup_def update_conv split: if_splits)

lemma mkdirEach_keeps: "fsLookup fs q = Some n \<Longrightarrow> fsLookup (snd (mkdirEach F ds fs)) q = Some n"
  by (induction ds arbitrary: fs)
    (auto simp: fsLookup_update_keeps split: option.split node.split)

lemma mkdirEach_other: "q \<notin> set ds \<Longrightarrow> fsLookup (snd (mkdirEach F ds fs)) q = fsLookup fs q"
  by (induction ds arbitrary: fs) (auto simp: fsLookup_def update_conv split: option.split node.split)

lemma mkdirEach_dirs:
  "mkdirEach F ds fs = (None, fs') \<Longrightarrow> d \<in> set ds \<Longrightarrow> fsLookup fs' d = Some Dir"
proof (induction ds arbitrary: fs)
  case Nil
  then show ?case by simp
next
  case (Cons a ds)
  have keep: "fsLookup fs' a = Some Dir" if "mkdirEach F ds fs1 = (None, fs')"
    and "fsLookup fs1 a = Some Dir" for fs1
    using mkdirEach_keeps [OF that(2), of F ds] that(1) by simp
  show ?case
  proof (cases "fsLookup fs a")
    case None
    with Cons.prems(1) have "mkdirEach F ds (AList.update a Dir fs) = (None, fs')"
      by (auto split: option.splits)
    moreover have "fsLookup (AList.update a Dir fs) a = Some Dir" by (simp add: fsLookup_update)
    ultimately show ?thesis using Cons.prems(2) Cons.IH keep by auto
  next
    case (Some n)
    with Cons.prems(1) have "n = Dir" and "mkdirEach F ds fs = (None, fs')"
      by (auto split: node.splits)
    with Some Cons.prems(2) Cons.IH keep show ?thesis by auto
  qed
qed

lemma osCreate_other: "q \<noteq> p \<Longrightarrow> fsLookup (snd (osCreate F p fs)) q = fsLookup fs q"
  by (auto simp: osCreate_def fsLookup_update split: option.split) (auto simp: fsLookup_def)

lemma osWriteAll_other: "q \<noteq> p \<Longrightarrow> fsLookup (snd (osWriteAll F p v fs)) q = fsLookup fs q"
  by (auto simp: osWriteAll_def fsLookup_update split: option.split) (auto simp: fsLookup_def)

lemma osRemove_other: "q \<noteq> p \<Longrightarrow> fsLookup (snd (osRemove F p fs)) q = fsLookup fs q"
  by (auto simp: osRemove_def fsLookup_delete split: option.split node.split)
    (auto simp: fsLookup_def)

lemma osRemove_gone: "osRemove F p fs = (None, fs') \<Longrightarrow> p \<noteq> ''.'' \<Longrightarrow> fsLookup fs' p = None"
  by (auto simp: osRemove_def fsLookup_delete split: option.splits node.splits if_splits)

lemma beforeLast_depth: "beforeLast CHR ''/'' p = Some q \<Longrightarrow> depth p = Suc (depth q)"
proof (induction p arbitrary: q)
  case Nil
  then show ?case by simp
next
  case (Cons c p)
  show ?case
  proof (cases "beforeLast CHR ''/'' p")
    case None
    moreover from this have "depth p = 0"
      by (induction p) (auto split: option.splits if_splits)
    ultimately show ?thesis using Cons.prems by (auto split: if_splits)
  next
    case (Some r)
    with Cons show ?thesis by auto
  qed
qed

lemma removeDirs_deeper:
  "depth path < depth q \<Longrightarrow> fsLookup (snd (removeDirs F path fs)) q = fsLookup fs q"
proof (induction F path fs rule: removeDirs.induct)
  case (1 F path fs)
  have other: "fsLookup (snd (osRemove F path fs)) q = fsLookup fs q"
    using "1.prems" by (intro osRemove_other) auto
  show ?case
  proof (cases "path = PagesPath")
    case True
    then have "removeDirs F path fs = (Ok (), fs)" by (subst removeDirs.simps) simp
    then show ?thesis by simp
  next
    case False
    obtain r fs1 where rm: "osRemove F path fs = (r, fs1)" by force
    show ?thesis
    proof (cases "r = None \<and> beforeLast CHR ''/'' path \<noteq> None")
      case True
      then obtain parent where par: "beforeLast CHR ''/'' path = Some parent" and "r = None" by auto
      have "depth parent < depth q" using beforeLast_depth [OF par] "1.prems" by simp
      with 1 False rm par \<open>r = None\<close> other show ?thesis
        by (simp add: removeDirs.simps [of F path fs])
    next
      case nochain: False
      with False rm other show ?thesis
        by (auto simp: removeDirs.simps [of F path fs] split: option.split)
    qed
  qed
qed

section \<open>Interface: a store of blobs by key\<close>

text \<open>
  What the page cache relies on: storing under one key is seen by the next read of that key and
  by no other, and a removed blob is gone. \<open>put\<close> and \<open>del\<close> may fail; a failing \<open>put\<close> promises
  nothing about its own key.
\<close>

locale blob_store =
  fixes put :: "'k \<Rightarrow> 'v \<Rightarrow> 's \<Rightarrow> goerror option \<times> 's"
    and get :: "'k \<Rightarrow> 's \<Rightarrow> 'v option"
    and del :: "'k \<Rightarrow> 's \<Rightarrow> unit res \<times> 's"
    and valid :: "'k \<Rightarrow> bool"
  assumes put_same: "valid k \<Longrightarrow> put k v s = (None, s') \<Longrightarrow> get k s' = Some v"
    and put_other: "valid k \<Longrightarrow> valid j \<Longrightarrow> j \<noteq> k \<Longrightarrow> get j (snd (put k v s)) = get j s"
    and del_same: "valid k \<Longrightarrow> del k s = (Ok u, s') \<Longrightarrow> get k s' = None"
    and del_other: "valid k \<Longrightarrow> valid j \<Longrightarrow> j \<noteq> k \<Longrightarrow> get j (snd (del k s)) = get j s"
begin

definition putAll :: "('k \<times> 'v) list \<Rightarrow> 's \<Rightarrow> 's" where
  "putAll kvs s = fold (\<lambda>(k, v) s. snd (put k v s)) kvs s"

lemma putAll_other:
  "\<forall>(k, v) \<in> set kvs. valid k \<Longrightarrow> valid j \<Longrightarrow> j \<notin> fst ` set kvs \<Longrightarrow> get j (putAll kvs s) = get j s"
  unfolding putAll_def
  by (induction kvs arbitrary: s) (auto simp: put_other)

lemma put_then_others:
  assumes "valid k" and "put k v s = (None, s')"
    and "\<forall>(j, w) \<in> set kvs. valid j" and "k \<notin> fst ` set kvs"
  shows "get k (putAll kvs s') = Some v"
  using putAll_other [OF assms(3,1,4)] put_same [OF assms(1,2)] by simp

lemma del_then_others:
  assumes "valid k" and "del k s = (Ok u, s')"
    and "\<forall>(j, w) \<in> set kvs. valid j" and "k \<notin> fst ` set kvs"
  shows "get k (putAll kvs s') = None"
  using putAll_other [OF assms(3,1,4)] del_same [OF assms(1,2)] by simp

end

text \<open>The content of a page file.\<close>

definition pageFile :: "bytes \<Rightarrow> fsys \<Rightarrow> bytes option" where
  "pageFile key fs = (case fsLookup fs (pagePath key) of Some (File v) \<Rightarrow> Some v | _ \<Rightarrow> None)"

lemma storeBytes_same:
  assumes "diskKey k" and "storeBytes F k v fs = (None, fs')"
  shows "fsLookup fs' (pagePath k) = Some (File v)"
  using assms pagePath_not_dot [OF assms(1)]
  by (auto simp: storeBytes_def osWriteAll_def fsLookup_update
      split: prod.splits option.splits)

lemma storeBytes_other_path:
  assumes "q \<notin> set (pathPrefixes [] (makePath k subHashCount))" and "q \<noteq> pagePath k"
  shows "fsLookup (snd (storeBytes F k v fs)) q = fsLookup fs q"
proof -
  obtain r1 fs1 where 1: "osMkdirAll F (makePath k subHashCount) fs = (r1, fs1)" by force
  obtain r2 fs2 where 2: "osCreate F (pagePath k) fs1 = (r2, fs2)" by force
  have "fsLookup fs1 q = fsLookup fs q"
    using mkdirEach_other [OF assms(1), of F fs] 1 by (simp add: osMkdirAll_def)
  moreover have "fsLookup fs2 q = fsLookup fs1 q"
    using osCreate_other [OF assms(2), of F fs1] 2 by simp
  ultimately show ?thesis
    using 1 2 osWriteAll_other [OF assms(2), of F v fs2]
    by (auto simp: storeBytes_def split: option.split)
qed

lemma storeBytes_other:
  assumes "diskKey k" and "diskKey j" and "j \<noteq> k"
  shows "fsLookup (snd (storeBytes F k v fs)) (pagePath j) = fsLookup fs (pagePath j)"
proof (rule storeBytes_other_path)
  have "depth p \<le> 6" if "p \<in> set (pathPrefixes [] (makePath k subHashCount))" for p
    using pathPrefixes_depth [OF that] depth_makePath [of k] assms(1) by (simp add: diskKey_def)
  moreover have "depth (pagePath j) = 7" using depth_pagePath [of j] assms(2) by (simp add: diskKey_def)
  ultimately show "pagePath j \<notin> set (pathPrefixes [] (makePath k subHashCount))" by force
  show "pagePath j \<noteq> pagePath k" using pagePath_inj assms by blast
qed

lemma removePageFromDisk_unfold:
  assumes "diskKey k"
  shows "removePageFromDisk F k fs =
    (case osRemove F (pagePath k) fs of
       (Some e, fs) \<Rightarrow> (Err e, fs)
     | (None, fs) \<Rightarrow> removeDirs F (makePath k subHashCount) fs)"
  using assms removePath_is_makePath [OF assms]
  by (simp add: removePageFromDisk_def diskKey_def pagePath_def Let_def)

lemma removeDirs_pagePath:
  assumes "diskKey k" and "diskKey j"
  shows "fsLookup (snd (removeDirs F (makePath k subHashCount) fs)) (pagePath j) = fsLookup fs (pagePath j)"
  using assms by (intro removeDirs_deeper) (simp add: depth_makePath depth_pagePath diskKey_def)

lemma removePageFromDisk_other:
  assumes "diskKey k" and "diskKey j" and "j \<noteq> k"
  shows "fsLookup (snd (removePageFromDisk F k fs)) (pagePath j) = fsLookup fs (pagePath j)"
proof -
  have "pagePath j \<noteq> pagePath k" using pagePath_inj assms by blast
  then have "fsLookup (snd (osRemove F (pagePath k) fs)) (pagePath j) = fsLookup fs (pagePath j)"
    by (rule osRemove_other)
  then show ?thesis
    using assms by (auto simp: removePageFromDisk_unfold removeDirs_pagePath
        split: prod.split option.split)
qed

lemma removePageFromDisk_gone:
  assumes "diskKey k" and "osRemove F (pagePath k) fs = (None, fs1)"
  shows "fsLookup (snd (removePageFromDisk F k fs)) (pagePath k) = None"
  using assms osRemove_gone [OF assms(2) pagePath_not_dot [OF assms(1)]]
  by (simp add: removePageFromDisk_unfold removeDirs_pagePath)

interpretation pages: blob_store "storeBytes F" pageFile "removePageFromDisk F" diskKey for F
proof
  fix k v fs fs'
  assume "diskKey k" "storeBytes F k v fs = (None, fs')"
  then show "pageFile k fs' = Some v" by (simp add: pageFile_def storeBytes_same)
next
  fix k j v fs
  assume "diskKey k" "diskKey j" "j \<noteq> k"
  then show "pageFile j (snd (storeBytes F k v fs)) = pageFile j fs"
    by (simp add: pageFile_def storeBytes_other)
next
  fix k fs u fs'
  assume k: "diskKey k" and del: "removePageFromDisk F k fs = (Ok u, fs')"
  obtain r fs1 where rm: "osRemove F (pagePath k) fs = (r, fs1)" by force
  with k del have "r = None" by (auto simp: removePageFromDisk_unfold split: option.splits)
  with k rm del show "pageFile k fs' = None"
    using removePageFromDisk_gone [of k F fs fs1] by (simp add: pageFile_def)
next
  fix k j fs
  assume "diskKey k" "diskKey j" "j \<noteq> k"
  then show "pageFile j (snd (removePageFromDisk F k fs)) = pageFile j fs"
    by (simp add: pageFile_def removePageFromDisk_other)
qed

section \<open>The shape of the page tree\<close>

text \<open>Files sit exactly below five directories under the root of the pages, directories above.\<close>

definition nodeDepthOk :: "string \<times> node \<Rightarrow> bool" where
  "nodeDepthOk pn = (case pn of (p, Dir) \<Rightarrow> depth p \<le> 6 | (p, File _) \<Rightarrow> depth p = 7)"

definition tree_ok :: "fsys \<Rightarrow> bool" where
  "tree_ok fs \<longleftrightarrow> list_all nodeDepthOk fs"

lemma tree_ok_update: "tree_ok fs \<Longrightarrow> nodeDepthOk (p, n) \<Longrightarrow> tree_ok (AList.update p n fs)"
  unfolding tree_ok_def by (induction fs) auto

lemma tree_ok_delete: "tree_ok fs \<Longrightarrow> tree_ok (AList.delete p fs)"
  by (auto simp: tree_ok_def list_all_iff AList.delete_eq)

lemma tree_ok_lookup: "tree_ok fs \<Longrightarrow> fsLookup fs p = Some n \<Longrightarrow> p \<noteq> ''.'' \<Longrightarrow> nodeDepthOk (p, n)"
  by (auto simp: tree_ok_def fsLookup_def list_all_iff dest!: map_of_SomeD)

lemma tree_ok_mkdirEach:
  "tree_ok fs \<Longrightarrow> \<forall>d \<in> set ds. depth d \<le> 6 \<Longrightarrow> tree_ok (snd (mkdirEach F ds fs))"
  by (induction ds arbitrary: fs)
    (auto simp: nodeDepthOk_def tree_ok_update split: option.split node.split)

lemma tree_ok_osRemove: "tree_ok fs \<Longrightarrow> tree_ok (snd (osRemove F p fs))"
  by (auto simp: osRemove_def tree_ok_delete split: option.split node.split)

lemma tree_ok_removeDirs: "tree_ok fs \<Longrightarrow> tree_ok (snd (removeDirs F path fs))"
proof (induction F path fs rule: removeDirs.induct)
  case (1 F path fs)
  obtain r fs1 where rm: "osRemove F path fs = (r, fs1)" by force
  then have "tree_ok fs1" using tree_ok_osRemove [OF "1.prems", of F path] by simp
  with 1 rm show ?case
    by (cases "path = PagesPath") (subst removeDirs.simps, auto split: option.splits)+
qed

lemma tree_ok_removePageFromDisk:
  assumes "tree_ok fs"
  shows "tree_ok (snd (removePageFromDisk F k fs))"
  using assms tree_ok_osRemove [OF assms]
  by (auto simp: removePageFromDisk_def Let_def split: prod.split option.split
      intro!: tree_ok_removeDirs) (metis snd_conv)+

lemma prefixes_makePath_depth:
  "diskKey k \<Longrightarrow> p \<in> set (pathPrefixes [] (makePath k subHashCount)) \<Longrightarrow> depth p \<le> 6"
  using pathPrefixes_depth [of p "[]" "makePath k subHashCount"] depth_makePath [of k]
  by (simp add: diskKey_def)

lemma tree_ok_storeBytes:
  assumes "diskKey k" and "tree_ok fs"
  shows "tree_ok (snd (storeBytes F k v fs))"
proof -
  obtain r1 fs1 where 1: "osMkdirAll F (makePath k subHashCount) fs = (r1, fs1)" by force
  then have ok1: "tree_ok fs1"
    using tree_ok_mkdirEach [OF assms(2), of "pathPrefixes [] (makePath k subHashCount)" F]
      prefixes_makePath_depth [OF assms(1)] by (simp add: osMkdirAll_def)
  have leaf: "nodeDepthOk (pagePath k, File w)" for w
    using assms(1) by (simp add: nodeDepthOk_def depth_pagePath diskKey_def)
  show ?thesis
    using 1 ok1 leaf
    by (auto simp: storeBytes_def osCreate_def osWriteAll_def tree_ok_update
        split: option.split)
qed

text \<open>Without faults, storing a page in a well-shaped tree succeeds.\<close>

lemma mkdirEach_succeeds:
  "\<forall>d \<in> set ds. \<forall>b. fsLookup fs d \<noteq> Some (File b) \<Longrightarrow> fst (mkdirEach noFaults ds fs) = None"
  by (induction ds arbitrary: fs)
    (auto simp: noFaults_def fsLookup_update split: option.split node.split)

lemma storeBytes_succeeds:
  assumes "diskKey k" and "tree_ok fs"
  shows "\<exists>fs'. storeBytes noFaults k v fs = (None, fs')"
proof -
  let ?ds = "pathPrefixes [] (makePath k subHashCount)"
  have "fsLookup fs d \<noteq> Some (File b)" if "d \<in> set ?ds" for d b
    using tree_ok_lookup [OF assms(2), of d "File b"] prefixes_makePath_depth [OF assms(1) that]
    by (auto simp: nodeDepthOk_def fsLookup_def)
  then obtain fs1 where 1: "mkdirEach noFaults ?ds fs = (None, fs1)"
    using mkdirEach_succeeds [of ?ds fs] by (cases "mkdirEach noFaults ?ds fs") auto
  have dir: "fsLookup fs1 (makePath k subHashCount) = Some Dir"
    using mkdirEach_dirs [OF 1] pathPrefixes_self [of "[]" "makePath k subHashCount"] by simp
  have "tree_ok fs1"
    using tree_ok_mkdirEach [OF assms(2), of ?ds noFaults] prefixes_makePath_depth [OF assms(1)] 1
    by simp
  then have notdir: "fsLookup fs1 (pagePath k) \<noteq> Some Dir"
    using tree_ok_lookup [of fs1 "pagePath k" Dir] pagePath_not_dot [OF assms(1)]
      depth_pagePath [of k] assms(1)
    by (auto simp: nodeDepthOk_def diskKey_def)
  have "beforeLast CHR ''/'' (pagePath k) = Some (makePath k subHashCount)"
    using assms(1) beforeLast_append [of "CHR ''/''" k] by (simp add: pagePath_def diskKey_def)
  then show ?thesis
    using 1 dir notdir
    by (simp add: storeBytes_def osMkdirAll_def osCreate_def osWriteAll_def noFaults_def)
qed

section \<open>The documented laws of the encodings\<close>

definition asciiHeader :: "header \<Rightarrow> bool" where
  "asciiHeader h \<longleftrightarrow> list_all (\<lambda>(k, vs). asciiString k \<and> list_all asciiString vs) h"

text \<open>Years 1 to 9999, the range \<open>time.Time\<close> encodes to JSON.\<close>

definition jsonTime :: "time \<Rightarrow> bool" where
  "jsonTime t \<longleftrightarrow> 0 \<le> t \<and> t < goDate 10000 1 1"

definition jsonMeta :: "PageMetadata \<Rightarrow> bool" where
  "jsonMeta m \<longleftrightarrow>
     jsonTime (rsMaxAge (pmResponseDirectives m)) \<and> jsonTime (rsSMaxAge (pmResponseDirectives m))"

text \<open>
  Decoding inverts encoding: for pages whose header is ASCII (JSON strings replace invalid UTF-8),
  for metadata always. The text never holds a NUL byte, and the metadata of a page is short.
  Encoding a page never fails; encoding metadata fails only outside the years 1 to 9999.
\<close>

definition codec_ok :: "codec \<Rightarrow> bool" where
  "codec_ok J \<longleftrightarrow>
     (\<forall>p. \<exists>v. marshalPage J p = Inr v) \<and>
     (\<forall>p v. marshalPage J p = Inr v \<and> asciiHeader (pageHeader p) \<longrightarrow>
        unmarshalPage J v = Inr p \<and> CHR 0x00 \<notin> set v) \<and>
     (\<forall>m. jsonMeta m \<longrightarrow> (\<exists>v. marshalMeta J m = Inr v)) \<and>
     (\<forall>m v. marshalMeta J m = Inr v \<longrightarrow>
        unmarshalMeta J v = Inr (Some m) \<and> length v \<le> maxValueSize)"

lemma codec_meta:
  "codec_ok J \<Longrightarrow> marshalMeta J m = Inr v \<Longrightarrow> unmarshalMeta J v = Inr (Some m) \<and> length v \<le> maxValueSize"
  by (auto simp: codec_ok_def)

lemma readUntilNul_id: "CHR 0x00 \<notin> set v \<Longrightarrow> readUntilNul v = v"
  by (induction v) auto

lemma readPage_writePage:
  assumes "codec_ok J" and "diskKey k" and "asciiHeader (pageHeader page)"
    and "writePageToDisk J F k page fs = (None, fs')" and "faultOpen F (pagePath k) = None"
  shows "readPageFromDisk J F k fs' = Inr page"
proof -
  obtain v where v: "marshalPage J page = Inr v"
    using assms(1) unfolding codec_ok_def by blast
  with assms(1,3) have "unmarshalPage J v = Inr page" "CHR 0x00 \<notin> set v"
    by (auto simp: codec_ok_def)
  moreover have "fsLookup fs' (pagePath k) = Some (File v)"
    using storeBytes_same [OF assms(2)] assms(4) v by (simp add: writePageToDisk_def)
  ultimately show ?thesis
    using assms(5) by (simp add: readPageFromDisk_def osReadFile_def readUntilNul_id)
qed

lemma writePageToDisk_other:
  assumes "diskKey k" and "diskKey j" and "j \<noteq> k"
  shows "fsLookup (snd (writePageToDisk J F k page fs)) (pagePath j) = fsLookup fs (pagePath j)"
  using storeBytes_other [OF assms] by (auto simp: writePageToDisk_def split: sum.split)

section \<open>Emptying the page directory\<close>

lemma removeAllEach_filter:
  "removeAllEach F ps fs = (None, fs') \<Longrightarrow>
     set fs' = {qn \<in> set fs. \<forall>p \<in> set ps. fst qn \<noteq> p \<and> \<not> under p (fst qn)}"
proof (induction ps arbitrary: fs)
  case Nil
  then show ?case by simp
next
  case (Cons p ps)
  then have "removeAllEach F ps (filter (\<lambda>(q, _). q \<noteq> p \<and> \<not> under p q) fs) = (None, fs')"
    by (auto simp: osRemoveAll_def split: option.splits)
  from Cons.IH [OF this] show ?case by auto
qed

lemma under_child:
  assumes "under p q"
  obtains c where "c = p @ ''/'' @ takeWhile (\<lambda>c. c \<noteq> CHR ''/'') (drop (length p + 1) q)"
    "q = c \<or> under c q"
proof -
  obtain r where q: "q = p @ ''/'' @ r" using assms by (auto simp: under_def hasPrefix_iff)
  let ?a = "takeWhile (\<lambda>c. c \<noteq> CHR ''/'') r" and ?b = "dropWhile (\<lambda>c. c \<noteq> CHR ''/'') r"
  have r: "r = ?a @ ?b" by (rule takeWhile_dropWhile_id [symmetric])
  have "q = p @ ''/'' @ ?a \<or> under (p @ ''/'' @ ?a) q"
  proof (cases ?b)
    case Nil
    with r q show ?thesis by simp
  next
    case (Cons x b)
    then have "x = CHR ''/''" using hd_dropWhile [of "\<lambda>c. c \<noteq> CHR ''/''" r] by simp
    with r q Cons have "q = ((p @ ''/'' @ ?a) @ ''/'') @ b" by (simp del: takeWhile_dropWhile_id)
    then show ?thesis unfolding under_def hasPrefix_iff by blast
  qed
  then show ?thesis using that q by simp
qed

lemma clearPages_empty:
  assumes "clearPages F fs = (None, fs')" and "qn \<in> set fs'"
  shows "\<not> under PagesPath (fst qn)"
proof
  assume u: "under PagesPath (fst qn)"
  then obtain c where c: "c = PagesPath @ ''/'' @ takeWhile (\<lambda>c. c \<noteq> CHR ''/'') (drop (length PagesPath + 1) (fst qn))"
      "fst qn = c \<or> under c (fst qn)"
    by (rule under_child)
  have qn: "qn \<in> set fs" "\<forall>p \<in> set (childrenOf PagesPath fs). fst qn \<noteq> p \<and> \<not> under p (fst qn)"
    using removeAllEach_filter assms by (auto simp: clearPages_def)
  have "c \<in> set (childrenOf PagesPath fs)"
    using u qn(1) unfolding c(1) childrenOf_def by auto
  with qn(2) c(2) show False by blast
qed

lemma under_pagePath: "under PagesPath (pagePath k)"
proof -
  have "\<exists>s. makePath k subHashCount = PagesPath @ ''/'' @ s"
    by (simp add: makePath_def subHashCount_def Let_def upt_4)
  then show ?thesis by (auto simp: under_def hasPrefix_iff pagePath_def)
qed

lemma clearPages_pageFile: "clearPages F fs = (None, fs') \<Longrightarrow> pageFile k fs' = None"
  using clearPages_empty [of F fs fs'] under_pagePath [of k]
  by (auto simp: pageFile_def fsLookup_def split: option.split node.split dest!: map_of_SomeD)

end
