(* ===== verification/GoFloat.thy ===== *)
theory GoFloat
  imports GoStd
begin

text \<open>
  \<open>float64\<close> rounding of integers, for the watermark test of the cache cleaner: a value is
  rounded to 53 significant bits, ties to the even neighbour. A \<open>float64\<close> fraction \<open>f\<close> of at
  most 53 fractional bits is represented by the integer \<open>f * 2^53\<close>.
\<close>

fun bitLen :: "nat \<Rightarrow> nat" where
  "bitLen n = (if n = 0 then 0 else Suc (bitLen (n div 2)))"

declare bitLen.simps [simp del]

definition roundTo :: "nat \<Rightarrow> nat \<Rightarrow> nat" where
  "roundTo p n =
     (let q = n div p; r = n mod p
      in (if 2 * r > p \<or> (2 * r = p \<and> odd q) then q + 1 else q) * p)"

definition rne53 :: "nat \<Rightarrow> nat" where
  "rne53 n = roundTo (2 ^ (bitLen n - 53)) n"

definition toFloat :: "int \<Rightarrow> int" where
  "toFloat i = (if i < 0 then - int (rne53 (nat (- i))) else int (rne53 (nat i)))"

lemma bitLen_bounds: "0 < n \<Longrightarrow> 2 ^ (bitLen n - 1) \<le> n \<and> n < 2 ^ bitLen n"
proof (induction n rule: bitLen.induct)
  case (1 n)
  show ?case
  proof (cases "n div 2 = 0")
    case True
    with "1.prems" have "n = 1" by simp
    then show ?thesis by (simp add: bitLen.simps)
  next
    case False
    with 1 have IH: "2 ^ (bitLen (n div 2) - 1) \<le> n div 2" "n div 2 < 2 ^ bitLen (n div 2)"
      by auto
    have "0 < bitLen (n div 2)" using False by (subst bitLen.simps) simp
    then have "(2::nat) ^ bitLen (n div 2) = 2 * 2 ^ (bitLen (n div 2) - 1)"
      by (cases "bitLen (n div 2)") auto
    moreover have "n = 2 * (n div 2) + n mod 2" and "n mod 2 < 2" by simp_all
    ultimately have "2 ^ bitLen (n div 2) \<le> n" and "n < 2 * 2 ^ bitLen (n div 2)"
      using IH by linarith+
    with "1.prems" show ?thesis by (simp add: bitLen.simps [of n])
  qed
qed

lemma roundTo_1 [simp]: "roundTo (Suc 0) n = n"
  by (simp add: roundTo_def)

lemma roundTo_near:
  assumes "0 < p"
  shows "2 * roundTo p n \<le> 2 * n + p" and "2 * n \<le> 2 * roundTo p n + p"
proof -
  have n: "n = n div p * p + n mod p" by simp
  have r: "n mod p < p" using assms by simp
  have "2 * roundTo p n \<le> 2 * n + p \<and> 2 * n \<le> 2 * roundTo p n + p"
  proof (cases "2 * (n mod p) > p \<or> (2 * (n mod p) = p \<and> odd (n div p))")
    case True
    then have "roundTo p n = n div p * p + p" by (simp add: roundTo_def Let_def)
    with True n r show ?thesis by linarith
  next
    case False
    then have "roundTo p n = n div p * p" by (auto simp: roundTo_def Let_def)
    with False n r show ?thesis by linarith
  qed
  then show "2 * roundTo p n \<le> 2 * n + p" and "2 * n \<le> 2 * roundTo p n + p" by auto
qed

lemma rne53_exact: "n < 2 ^ 53 \<Longrightarrow> rne53 n = n"
proof -
  assume n: "n < 2 ^ 53"
  have "bitLen n \<le> 53"
  proof (cases "n = 0")
    case True
    then show ?thesis by (simp add: bitLen.simps)
  next
    case False
    then have "2 ^ (bitLen n - 1) \<le> n" using bitLen_bounds [of n] by simp
    with n have "(2::nat) ^ (bitLen n - 1) < 2 ^ 53" by linarith
    then have "bitLen n - 1 < 53" by (rule power_less_imp_less_exp [rotated]) simp
    then show ?thesis by simp
  qed
  then show ?thesis by (simp add: rne53_def)
qed

text \<open>The relative rounding error is at most one part in \<open>2^53\<close>.\<close>

lemma rne53_error:
  shows "2 ^ 53 * rne53 n \<le> (2 ^ 53 + 1) * n" and "(2 ^ 53 - 1) * n \<le> 2 ^ 53 * rne53 n"
proof -
  have "2 ^ 53 * rne53 n \<le> (2 ^ 53 + 1) * n \<and> (2 ^ 53 - 1) * n \<le> 2 ^ 53 * rne53 n"
  proof (cases "n < 2 ^ 53")
    case True
    then show ?thesis by (simp add: rne53_exact)
  next
    case False
    then have "0 < n" by (cases n) auto
    define k where "k = bitLen n - 53"
    have "(2::nat) ^ 53 < 2 ^ bitLen n"
      using False bitLen_bounds [OF \<open>0 < n\<close>] by linarith
    then have "53 < bitLen n" by (rule power_less_imp_less_exp [rotated]) simp
    then have "bitLen n - 1 = 52 + k" by (simp add: k_def)
    then have "(2::nat) ^ (bitLen n - 1) = 2 ^ 52 * 2 ^ k"
      by (simp only: power_add)
    with bitLen_bounds [OF \<open>0 < n\<close>] have p: "2 ^ 52 * 2 ^ k \<le> n" by simp
    have "2 * rne53 n \<le> 2 * n + 2 ^ k" and "2 * n \<le> 2 * rne53 n + 2 ^ k"
      using roundTo_near [of "2 ^ k" n] by (simp_all add: rne53_def k_def)
    with p show ?thesis by simp
  qed
  then show "2 ^ 53 * rne53 n \<le> (2 ^ 53 + 1) * n" and "(2 ^ 53 - 1) * n \<le> 2 ^ 53 * rne53 n"
    by auto
qed

lemma toFloat_exact: "\<bar>i\<bar> < 2 ^ 53 \<Longrightarrow> toFloat i = i"
  by (auto simp: toFloat_def rne53_exact)

lemma toFloat_nonneg: "0 \<le> i \<Longrightarrow> toFloat i = int (rne53 (nat i))"
  by (simp add: toFloat_def)

text \<open>The watermark comparison for the fraction nearest to nine tenths, \<open>8106479329266893 / 2^53\<close>,
  with \<open>R\<close> the rounded product.\<close>

lemma watermark_above:
  fixes M S R :: nat
  assumes "9007199254740991 * (M * 8106479329266893) \<le> 9007199254740992 * R"
    and "M \<le> 562949953421312" and "R < S * 9007199254740992"
  shows "9 * M \<le> 10 * S"
proof (rule ccontr)
  assume "\<not> ?thesis"
  then have "10 * S + 1 \<le> 9 * M" by simp
  with assms show False by linarith
qed

lemma watermark_below:
  fixes M S R :: nat
  assumes "9007199254740992 * R \<le> 9007199254740993 * (M * 8106479329266893)"
    and "M \<le> 562949953421312" and "S * 9007199254740992 \<le> R"
  shows "10 * S \<le> 9 * M"
proof (rule ccontr)
  assume "\<not> ?thesis"
  then have "9 * M + 1 \<le> 10 * S" by simp
  with assms show False by linarith
qed

end
