(* ===== verification/CacheStore.thy ===== *)
theory CacheStore
  imports Disk GoFloat
begin

text \<open>
  The page cache of package \<open>cache\<close>: \<open>CachingProperties\<close> and the operations that insert, read
  and remove one page (\<open>cache/cache.go\<close>, \<open>insert.go\<close>, \<open>read.go\<close>, \<open>remove.go\<close>). The state is the
  bolt database with the metadata, the file system with the pages, the byte counter \<open>Size\<close>, and
  the two gauges of the metrics package the operations update. The environment \<open>E\<close> holds what
  is outside the repository: the database operations, the JSON codec, the faults of the
  operating system, SHA-1 and the sort of the standard library.
\<close>

section \<open>State\<close>

record 'db cacheEnv =
  ceBolt :: "'db bolt"
  ceCodec :: codec
  ceOs :: osFaults
  ceSha1 :: "bytes \<Rightarrow> bytes"
  ceSort :: "(bytes \<times> uint32) list \<Rightarrow> (bytes \<times> uint32) list"

text \<open>\<open>fillFactor\<close> is the numerator over \<open>2^53\<close> of the \<open>float64\<close> in the code.\<close>

record CacheCleaner =
  maxFileSize :: int64
  fillFactor :: nat

record 'db CachingProperties =
  cpDb :: 'db
  cpFs :: fsys
  cpCleaner :: CacheCleaner
  Size :: int64
  PagesCount :: int
  gaugeSize :: int
  gaugePages :: int

definition NewCacheCleaner :: "int64 \<Rightarrow> nat \<Rightarrow> CacheCleaner" where
  "NewCacheCleaner maxSize fill = \<lparr>maxFileSize = maxSize, fillFactor = fill\<rparr>"

text \<open>The database file and the page directory are what an earlier run left.\<close>

definition NewCachingProperties :: "'db \<Rightarrow> fsys \<Rightarrow> CacheCleaner \<Rightarrow> 'db CachingProperties" where
  "NewCachingProperties db fs cl =
     \<lparr>cpDb = db, cpFs = fs, cpCleaner = cl, Size = 0, PagesCount = 0, gaugeSize = 0, gaugePages = 0\<rparr>"

definition pageMetadataKey :: bytes where "pageMetadataKey = ''pageMetadataKey''"
definition usesKey :: bytes where "usesKey = ''usesKey''"

definition hash :: "'db cacheEnv \<Rightarrow> bytes \<Rightarrow> bytes" where
  "hash E value = hexEncode (ceSha1 E value)"

text \<open>\<open>constructKeyFromRequest\<close> is \<open>req.URL.String()\<close>; \<open>urlText\<close> prints a URL.\<close>

definition constructKeyFromRequest :: "(url \<Rightarrow> string) \<Rightarrow> request \<Rightarrow> string" where
  "constructKeyFromRequest urlText req = urlText (reqURL req)"

definition RequestHashKey :: "'db cacheEnv \<Rightarrow> (url \<Rightarrow> string) \<Rightarrow> request \<Rightarrow> bytes" where
  "RequestHashKey E urlText req = hash E (constructKeyFromRequest urlText req)"

definition IncrementSize :: "int64 \<Rightarrow> 'db CachingProperties \<Rightarrow> 'db CachingProperties" where
  "IncrementSize delta p = (let s = Size p + delta in p\<lparr>Size := s, gaugeSize := toFloat (sint s)\<rparr>)"

definition UpdateCachePagesCount :: "int \<Rightarrow> 'db CachingProperties \<Rightarrow> 'db CachingProperties" where
  "UpdateCachePagesCount delta p = p\<lparr>gaugePages := gaugePages p + delta\<rparr>"

lemma counters_simps [simp]:
  "cpDb (IncrementSize d p) = cpDb p" "cpFs (IncrementSize d p) = cpFs p"
  "cpCleaner (IncrementSize d p) = cpCleaner p" "Size (IncrementSize d p) = Size p + d"
  "gaugePages (IncrementSize d p) = gaugePages p"
  "gaugeSize (IncrementSize d p) = toFloat (sint (Size p + d))"
  "cpDb (UpdateCachePagesCount k p) = cpDb p" "cpFs (UpdateCachePagesCount k p) = cpFs p"
  "cpCleaner (UpdateCachePagesCount k p) = cpCleaner p" "Size (UpdateCachePagesCount k p) = Size p"
  "gaugePages (UpdateCachePagesCount k p) = gaugePages p + k"
  "gaugeSize (UpdateCachePagesCount k p) = gaugeSize p"
  by (simp_all add: IncrementSize_def UpdateCachePagesCount_def Let_def)

section \<open>Metadata\<close>

text \<open>The zero value a JSON \<open>null\<close> leaves in a struct variable.\<close>

definition zeroMetadata :: PageMetadata where
  "zeroMetadata =
     \<lparr>pmSize = 0,
      pmResponseDirectives =
        \<lparr>rsMustRevalidate = False, rsNoCache = False, rsNoStore = False, rsNoTransform = False,
         rsPrivate = False, rsProxyRevalidate = False, rsMaxAge = nullTime, rsSMaxAge = nullTime\<rparr>\<rparr>"

definition createCacheInfo :: "(nat \<Rightarrow> time) \<Rightarrow> response \<Rightarrow> int64 \<Rightarrow> PageMetadata" where
  "createCacheInfo clk resp sz =
     \<lparr>pmSize = sz, pmResponseDirectives = loadResponseDirectives clk (respHeader resp)\<rparr>"

definition insertPageMetadataToDB ::
  "'db cacheEnv \<Rightarrow> bytes \<Rightarrow> PageMetadata \<Rightarrow> 'db CachingProperties \<Rightarrow> unit res \<times> 'db CachingProperties"
  where
  "insertPageMetadataToDB E key meta p =
     (case marshalMeta (ceCodec E) meta of
        Inl e \<Rightarrow> (Err e, p)
      | Inr value \<Rightarrow>
          (let B = ceBolt E in
           case boltUpdate B ()
             (\<lambda>db.
                let (err, db) = txCreate B db key in
                if (case err of None \<Rightarrow> True | Some e \<Rightarrow> errors_is e ErrBucketExists) then
                  let (_, db) = txPut B db key pageMetadataKey value;
                      (_, db) = txPut B db key usesKey (replicate 4 (CHR 0x00))
                  in (case err of None \<Rightarrow> TxDone () | Some e \<Rightarrow> TxErr e (), db)
                else (TxErr (the err) (), db))
             (cpDb p) of
             (TxDone (), db) \<Rightarrow>
               (Ok (), UpdateCachePagesCount 1 (IncrementSize (pmSize meta) (p\<lparr>cpDb := db\<rparr>)))
           | (TxErr e (), db) \<Rightarrow>
               ((if errors_is e ErrBucketExists then Ok () else Err e), p\<lparr>cpDb := db\<rparr>)
           | (TxPanic m, db) \<Rightarrow> (Panic m, p\<lparr>cpDb := db\<rparr>)))"

definition getPageMetadata ::
  "'db cacheEnv \<Rightarrow> bytes \<Rightarrow> 'db CachingProperties \<Rightarrow> PageMetadata res \<times> 'db CachingProperties"
  where
  "getPageMetadata E key p =
     (let B = ceBolt E in
      case boltView B []
        (\<lambda>db.
           if \<not> txBucket B db key then TxErr (ErrMsg ''missed cache'') []
           else (case txGet B db key pageMetadataKey of
                   None \<Rightarrow> TxErr (ErrMsg ''no record in cache'') []
                 | Some v \<Rightarrow> TxDone v))
        (cpDb p) of
        TxErr e _ \<Rightarrow> (Err e, p)
      | TxPanic m \<Rightarrow> (Panic m, p)
      | TxDone result \<Rightarrow>
          (case boltUpdate B ()
             (\<lambda>db.
                if \<not> txBucket B db key then (TxPanic ''nil pointer dereference'', db)
                else (case txGet B db key usesKey of
                        None \<Rightarrow> (TxErr (ErrMsg ''value ot found'') (), db)
                      | Some bs \<Rightarrow>
                          (case getUint32 bs of
                             None \<Rightarrow> (TxPanic ''index out of range'', db)
                           | Some u \<Rightarrow>
                               (TxDone (), snd (txPut B db key usesKey (putUint32 (u + 1)))))))
             (cpDb p) of
             (TxPanic m, db) \<Rightarrow> (Panic m, p\<lparr>cpDb := db\<rparr>)
           | (_, db) \<Rightarrow>
               ((case unmarshalMeta (ceCodec E) result of
                   Inl e \<Rightarrow> Err e
                 | Inr None \<Rightarrow> Ok zeroMetadata
                 | Inr (Some m) \<Rightarrow> Ok m), p\<lparr>cpDb := db\<rparr>)))"

definition removePageMetadata ::
  "'db cacheEnv \<Rightarrow> bytes \<Rightarrow> 'db CachingProperties \<Rightarrow> PageMetadata res \<times> 'db CachingProperties"
  where
  "removePageMetadata E key p =
     (let B = ceBolt E in
      case boltUpdate B None
        (\<lambda>db.
           if \<not> txBucket B db key then (TxErr (ErrMsg ''there's no page to delete'') None, db)
           else let m = txGet B db key pageMetadataKey;
                    (err, db) = txDelete B db key
                in (case err of None \<Rightarrow> TxDone m | Some e \<Rightarrow> TxErr e m, db))
        (cpDb p) of
        (TxErr e _, db) \<Rightarrow> (Err e, p\<lparr>cpDb := db\<rparr>)
      | (TxPanic msg, db) \<Rightarrow> (Panic msg, p\<lparr>cpDb := db\<rparr>)
      | (TxDone m, db) \<Rightarrow>
          (let p = p\<lparr>cpDb := db\<rparr> in
           case unmarshalMeta (ceCodec E) (case m of None \<Rightarrow> [] | Some v \<Rightarrow> v) of
             Inl e \<Rightarrow> (Err e, p)
           | Inr None \<Rightarrow> (Panic ''nil pointer dereference'', p)
           | Inr (Some meta) \<Rightarrow>
               (Ok meta, UpdateCachePagesCount (- 1) (IncrementSize (- pmSize meta) p))))"

section \<open>The three operations on a page\<close>

definition RemovePageFromCache ::
  "'db cacheEnv \<Rightarrow> bytes \<Rightarrow> 'db CachingProperties \<Rightarrow> PageMetadata res \<times> 'db CachingProperties"
  where
  "RemovePageFromCache E key p =
     (case removePageMetadata E key p of
        (Err e, p) \<Rightarrow> (Err (ErrMsg (''Error while deleting record from db: '' @ errText e)), p)
      | (Panic m, p) \<Rightarrow> (Panic m, p)
      | (Ok meta, p) \<Rightarrow>
          (case removePageFromDisk (ceOs E) key (cpFs p) of
             (Err e, fs) \<Rightarrow>
               (Err (ErrMsg (''Error while deleting page from disk: '' @ errText e)), p\<lparr>cpFs := fs\<rparr>)
           | (Panic m, fs) \<Rightarrow> (Panic m, p\<lparr>cpFs := fs\<rparr>)
           | (Ok (), fs) \<Rightarrow> (Ok meta, p\<lparr>cpFs := fs\<rparr>)))"

text \<open>
  \<open>clk j i\<close> is the clock reading for piece \<open>i\<close> of the \<open>j\<close>-th loading of directives: the
  request's, the response's, and the response's again in \<open>createCacheInfo\<close>.
\<close>

definition InsertPageInCache ::
  "'db cacheEnv \<Rightarrow> (nat \<Rightarrow> nat \<Rightarrow> time) \<Rightarrow> bytes \<Rightarrow> request \<Rightarrow> response \<Rightarrow> Page \<Rightarrow>
   'db CachingProperties \<Rightarrow> unit res \<times> 'db CachingProperties" where
  "InsertPageInCache E clk key req resp page p =
     (let sz = of_nat (length (pageBody page)) :: int64 in
      if sint (maxFileSize (cpCleaner p)) < sint (Size p + sz) then
        (Err (ErrMsg ''maximum size cache exceeded''), p)
      else
        let requestD = loadRequestDirectives (clk 0) (reqHeader req);
            responseD = loadResponseDirectives (clk 1) (respHeader resp) in
        if rqNoStore requestD \<or> rsNoStore responseD \<or> reqMethod req \<noteq> ''GET'' \<or> rsPrivate responseD then
          (Err (ErrMsg ''can't be stored in cache''), p)
        else
          let meta = createCacheInfo (clk 2) resp (of_nat (length (pageBody page))) in
          case insertPageMetadataToDB E key meta p of
            (Err e, p) \<Rightarrow> (Err e, p)
          | (Panic m, p) \<Rightarrow> (Panic m, p)
          | (Ok (), p) \<Rightarrow>
              (case writePageToDisk (ceCodec E) (ceOs E) key page (cpFs p) of
                 (None, fs) \<Rightarrow> (Ok (), p\<lparr>cpFs := fs\<rparr>)
               | (Some e, fs) \<Rightarrow>
                   (case removePageMetadata E key (p\<lparr>cpFs := fs\<rparr>) of
                      (Panic m, p) \<Rightarrow> (Panic m, p)
                    | (_, p) \<Rightarrow> (Err e, p))))"

text \<open>
  The freshness test of \<open>GetPageFromCache\<close>: \<open>t1\<close> and \<open>t2\<close> are its two readings of the clock. The
  stale allowance is the directive's number taken as a \<open>time.Duration\<close>.
\<close>

definition isFresh :: "time \<Rightarrow> time \<Rightarrow> requestDirectives \<Rightarrow> PageMetadata \<Rightarrow> bool" where
  "isFresh t1 t2 rq info =
     (let rs = pmResponseDirectives info;
          afterDeath = (if rsMustRevalidate rs then 0 else rqMaxStale rq);
          maxAge = (if \<not> isZeroTime (rsSMaxAge rs) then rsSMaxAge rs else rsMaxAge rs)
      in \<not> (timeAfter t1 (timeAdd maxAge afterDeath) \<or> \<not> timeAfter t2 (rqMinFresh rq)))"

definition GetPageFromCache ::
  "'db cacheEnv \<Rightarrow> (nat \<Rightarrow> time) \<Rightarrow> time \<Rightarrow> time \<Rightarrow> bytes \<Rightarrow> request \<Rightarrow> 'db CachingProperties \<Rightarrow>
   Page res \<times> request \<times> 'db CachingProperties" where
  "GetPageFromCache E clk t1 t2 key req p =
     (let rq = loadRequestDirectives clk (reqHeader req);
          req = req\<lparr>ctxOnlyIfCached := Some (rqOnlyIfCached rq)\<rparr> in
      case getPageMetadata E key p of
        (Err e, p) \<Rightarrow> (Err e, req, p)
      | (Panic m, p) \<Rightarrow> (Panic m, req, p)
      | (Ok info, p) \<Rightarrow>
          if \<not> isFresh t1 t2 rq info then (Err (ErrMsg ''not fresh''), req, p)
          else (case readPageFromDisk (ceCodec E) (ceOs E) key (cpFs p) of
                  Inr page \<Rightarrow> (Ok page, req, p)
                | Inl e \<Rightarrow>
                    if errors_is e ErrNotExist then
                      (case removePageMetadata E key p of
                         (Panic m, p) \<Rightarrow> (Panic m, req, p)
                       | (_, p) \<Rightarrow> (Err e, req, p))
                    else (Err e, req, p)))"

section \<open>The accounting invariant\<close>

text \<open>The metadata a bucket holds, if it holds any that decodes.\<close>

definition metaOf :: "'db cacheEnv \<Rightarrow> 'db \<Rightarrow> bytes \<Rightarrow> PageMetadata option" where
  "metaOf E db n =
     (case txGet (ceBolt E) db n pageMetadataKey of
        None \<Rightarrow> None
      | Some v \<Rightarrow> (case unmarshalMeta (ceCodec E) v of Inr m \<Rightarrow> m | Inl _ \<Rightarrow> None))"

definition metaSize :: "'db cacheEnv \<Rightarrow> 'db \<Rightarrow> bytes \<Rightarrow> int64" where
  "metaSize E db n = (case metaOf E db n of None \<Rightarrow> 0 | Some m \<Rightarrow> pmSize m)"

definition dbSize :: "'db cacheEnv \<Rightarrow> 'db \<Rightarrow> int64" where
  "dbSize E db = sum_list (map (metaSize E db) (txNames (ceBolt E) db))"

definition bucketOk :: "'db cacheEnv \<Rightarrow> 'db \<Rightarrow> bytes \<Rightarrow> bool" where
  "bucketOk E db n \<longleftrightarrow>
     diskKey n \<and> metaOf E db n \<noteq> None \<and>
     (case txGet (ceBolt E) db n usesKey of None \<Rightarrow> False | Some u \<Rightarrow> length u = 4)"

text \<open>Every bucket is named by a page key and holds metadata and a counter, and \<open>Size\<close> is the sum of the page sizes.\<close>

definition cache_ok :: "'db cacheEnv \<Rightarrow> 'db CachingProperties \<Rightarrow> bool" where
  "cache_ok E p \<longleftrightarrow>
     list_all (bucketOk E (cpDb p)) (txNames (ceBolt E) (cpDb p)) \<and> Size p = dbSize E (cpDb p)"

definition env_ok :: "'db cacheEnv \<Rightarrow> bool" where
  "env_ok E \<longleftrightarrow> bolt_ok (ceBolt E) \<and> codec_ok (ceCodec E) \<and> (\<forall>x. length (ceSha1 E x) = 20)"

lemma env_okD: "env_ok E \<Longrightarrow> bolt_ok (ceBolt E)" "env_ok E \<Longrightarrow> codec_ok (ceCodec E)"
  by (auto simp: env_ok_def)

lemma dbSize_sum:
  assumes "bolt_ok (ceBolt E)"
  shows "dbSize E db = (\<Sum>n \<in> {n. txBucket (ceBolt E) db n}. metaSize E db n)"
  using bolt_names [OF assms, of db] by (simp add: dbSize_def sum_list_distinct_conv_sum_set)

lemma finite_buckets: "bolt_ok B \<Longrightarrow> finite {n. txBucket B db n}"
  using bolt_names(2) [of B db] by (metis List.finite_set)

lemma metaOf_cong:
  "(\<And>k. txGet (ceBolt E) db' n k = txGet (ceBolt E) db n k) \<Longrightarrow> metaOf E db' n = metaOf E db n"
  by (simp add: metaOf_def)

text \<open>The three ways a transaction changes the database, and what each does to the sum.\<close>

definition dbGains :: "'db cacheEnv \<Rightarrow> bytes \<Rightarrow> PageMetadata \<Rightarrow> 'db \<Rightarrow> 'db \<Rightarrow> bool" where
  "dbGains E key m db db' \<longleftrightarrow>
     \<not> txBucket (ceBolt E) db key \<and>
     (\<forall>n. txBucket (ceBolt E) db' n \<longleftrightarrow> n = key \<or> txBucket (ceBolt E) db n) \<and>
     metaOf E db' key = Some m \<and> txGet (ceBolt E) db' key usesKey = Some (replicate 4 (CHR 0x00)) \<and>
     (\<forall>n k. n \<noteq> key \<longrightarrow> txGet (ceBolt E) db' n k = txGet (ceBolt E) db n k)"

definition dbLoses :: "'db cacheEnv \<Rightarrow> bytes \<Rightarrow> 'db \<Rightarrow> 'db \<Rightarrow> bool" where
  "dbLoses E key db db' \<longleftrightarrow>
     txBucket (ceBolt E) db key \<and>
     (\<forall>n. txBucket (ceBolt E) db' n \<longleftrightarrow> n \<noteq> key \<and> txBucket (ceBolt E) db n) \<and>
     (\<forall>n k. n \<noteq> key \<longrightarrow> txGet (ceBolt E) db' n k = txGet (ceBolt E) db n k)"

definition dbCounts :: "'db cacheEnv \<Rightarrow> bytes \<Rightarrow> 'db \<Rightarrow> 'db \<Rightarrow> bool" where
  "dbCounts E key db db' \<longleftrightarrow>
     (\<forall>n. txBucket (ceBolt E) db' n \<longleftrightarrow> txBucket (ceBolt E) db n) \<and>
     (\<exists>u. getUint32 (the (txGet (ceBolt E) db key usesKey)) = Some u \<and>
        txGet (ceBolt E) db' key usesKey = Some (putUint32 (u + 1))) \<and>
     (\<forall>n k. (n \<noteq> key \<or> k \<noteq> usesKey) \<longrightarrow> txGet (ceBolt E) db' n k = txGet (ceBolt E) db n k)"

lemma usesKey_neq [simp]: "pageMetadataKey \<noteq> usesKey" "usesKey \<noteq> pageMetadataKey"
  by (simp_all add: pageMetadataKey_def usesKey_def)

lemma validName_diskKey: "diskKey k \<Longrightarrow> validName k"
  by (auto simp: diskKey_def validName_def hashLength_def)

lemma validName_keys [simp]: "validName pageMetadataKey" "validName usesKey"
  by (simp_all add: validName_def pageMetadataKey_def usesKey_def)

lemma metaSize_cong:
  "(\<And>k. txGet (ceBolt E) db' n k = txGet (ceBolt E) db n k) \<Longrightarrow> metaSize E db' n = metaSize E db n"
  by (simp add: metaSize_def metaOf_cong [of E db' n db])

lemma bucketOk_cong:
  "(\<And>k. txGet (ceBolt E) db' n k = txGet (ceBolt E) db n k) \<Longrightarrow> bucketOk E db' n = bucketOk E db n"
  by (simp add: bucketOk_def metaOf_cong [of E db' n db])

lemma dbSize_gains:
  assumes "bolt_ok (ceBolt E)" and "dbGains E key m db db'"
  shows "dbSize E db' = dbSize E db + pmSize m"
proof -
  let ?N = "{n. txBucket (ceBolt E) db n}"
  have "{n. txBucket (ceBolt E) db' n} = insert key ?N" and key: "key \<notin> ?N"
    using assms(2) by (auto simp: dbGains_def)
  then have "dbSize E db' = metaSize E db' key + (\<Sum>n \<in> ?N. metaSize E db' n)"
    using finite_buckets [OF assms(1), of db] by (simp add: dbSize_sum [OF assms(1)])
  also have "(\<Sum>n \<in> ?N. metaSize E db' n) = dbSize E db"
    unfolding dbSize_sum [OF assms(1)] using assms(2) key
    by (intro sum.cong refl metaSize_cong) (auto simp: dbGains_def)
  finally show ?thesis using assms(2) by (simp add: dbGains_def metaSize_def)
qed

lemma dbSize_loses:
  assumes "bolt_ok (ceBolt E)" and "dbLoses E key db db'"
  shows "dbSize E db' = dbSize E db - metaSize E db key"
proof -
  let ?N = "{n. txBucket (ceBolt E) db n}"
  have N': "{n. txBucket (ceBolt E) db' n} = ?N - {key}" and key: "key \<in> ?N"
    using assms(2) by (auto simp: dbLoses_def)
  have "dbSize E db' = (\<Sum>n \<in> ?N - {key}. metaSize E db n)"
    unfolding dbSize_sum [OF assms(1)] N' using assms(2)
    by (intro sum.cong refl metaSize_cong) (auto simp: dbLoses_def)
  moreover have "dbSize E db = metaSize E db key + (\<Sum>n \<in> ?N - {key}. metaSize E db n)"
    unfolding dbSize_sum [OF assms(1)]
    using finite_buckets [OF assms(1), of db] key by (rule sum.remove)
  ultimately show ?thesis by simp
qed

lemma metaOf_counts: "dbCounts E key db db' \<Longrightarrow> metaOf E db' n = metaOf E db n"
  by (simp add: dbCounts_def metaOf_def)

lemma dbSize_counts:
  assumes "bolt_ok (ceBolt E)" and "dbCounts E key db db'"
  shows "dbSize E db' = dbSize E db"
proof -
  have "{n. txBucket (ceBolt E) db' n} = {n. txBucket (ceBolt E) db n}"
    using assms(2) by (auto simp: dbCounts_def)
  then show ?thesis
    by (simp add: dbSize_sum [OF assms(1)] metaSize_def metaOf_counts [OF assms(2)])
qed

lemma cache_ok_alt:
  assumes "bolt_ok (ceBolt E)"
  shows "cache_ok E p \<longleftrightarrow>
    (\<forall>n. txBucket (ceBolt E) (cpDb p) n \<longrightarrow> bucketOk E (cpDb p) n) \<and> Size p = dbSize E (cpDb p)"
  using bolt_names(2) [OF assms] by (auto simp: cache_ok_def list_all_iff)

text \<open>The part of it about the database alone, and the number of buckets.\<close>

definition dbOk :: "'db cacheEnv \<Rightarrow> 'db \<Rightarrow> bool" where
  "dbOk E db \<longleftrightarrow> (\<forall>n. txBucket (ceBolt E) db n \<longrightarrow> bucketOk E db n)"

definition buckets :: "'db cacheEnv \<Rightarrow> 'db \<Rightarrow> int" where
  "buckets E db = int (card {n. txBucket (ceBolt E) db n})"

lemma cache_ok_dbOk: "bolt_ok (ceBolt E) \<Longrightarrow> cache_ok E p \<longleftrightarrow> dbOk E (cpDb p) \<and> Size p = dbSize E (cpDb p)"
  by (simp add: dbOk_def cache_ok_alt)

lemma dbOk_bucket: "dbOk E db \<Longrightarrow> txBucket (ceBolt E) db n \<Longrightarrow> bucketOk E db n"
  by (simp add: dbOk_def)

lemma dbOk_gains:
  assumes "bolt_ok (ceBolt E)" "dbOk E db" "dbGains E key m db db'" "diskKey key"
  shows "dbOk E db' \<and> buckets E db' = buckets E db + 1"
proof -
  let ?N = "{n. txBucket (ceBolt E) db n}"
  have "{n. txBucket (ceBolt E) db' n} = insert key ?N" "key \<notin> ?N" using assms(3) by (auto simp: dbGains_def)
  then have "buckets E db' = buckets E db + 1"
    using finite_buckets [OF assms(1), of db] by (simp add: buckets_def)
  moreover have "bucketOk E db' n" if "txBucket (ceBolt E) db' n" for n
  proof (cases "n = key")
    case True
    with assms(3,4) show ?thesis by (simp add: bucketOk_def dbGains_def)
  next
    case False
    then have "bucketOk E db' n = bucketOk E db n"
      using assms(3) by (intro bucketOk_cong) (simp add: dbGains_def)
    with False that assms show ?thesis by (simp add: dbOk_def dbGains_def)
  qed
  ultimately show ?thesis by (simp add: dbOk_def)
qed

lemma dbOk_loses:
  assumes "bolt_ok (ceBolt E)" "dbOk E db" "dbLoses E key db db'"
  shows "dbOk E db' \<and> buckets E db' = buckets E db - 1"
proof -
  let ?N = "{n. txBucket (ceBolt E) db n}"
  have N: "{n. txBucket (ceBolt E) db' n} = ?N - {key}" "key \<in> ?N" using assms(3) by (auto simp: dbLoses_def)
  have "Suc (card (?N - {key})) = card ?N"
    by (rule card_Suc_Diff1 [OF finite_buckets [OF assms(1)] N(2)])
  then have "buckets E db' = buckets E db - 1" unfolding buckets_def N(1) by linarith
  moreover have "bucketOk E db' n" if "txBucket (ceBolt E) db' n" for n
  proof -
    from that assms(3) have "n \<noteq> key" "txBucket (ceBolt E) db n" by (auto simp: dbLoses_def)
    moreover from this have "bucketOk E db' n = bucketOk E db n"
      using assms(3) by (intro bucketOk_cong) (simp add: dbLoses_def)
    ultimately show ?thesis using assms by (simp add: dbOk_def)
  qed
  ultimately show ?thesis by (simp add: dbOk_def)
qed

lemma dbOk_counts:
  assumes "dbOk E db" "dbCounts E key db db'"
  shows "dbOk E db' \<and> buckets E db' = buckets E db"
proof -
  have "{n. txBucket (ceBolt E) db' n} = {n. txBucket (ceBolt E) db n}" using assms(2) by (auto simp: dbCounts_def)
  moreover have "bucketOk E db' n" if "txBucket (ceBolt E) db' n" for n
  proof -
    have "bucketOk E db n" using that assms by (simp add: dbOk_def dbCounts_def)
    then show ?thesis
      using assms(2) by (cases "n = key")
        (auto simp: bucketOk_def metaOf_counts [OF assms(2)] dbCounts_def)
  qed
  ultimately show ?thesis by (simp add: buckets_def dbOk_def)
qed

lemma cache_ok_gains:
  assumes "bolt_ok (ceBolt E)" "cache_ok E p" "dbGains E key m (cpDb p) db'" "diskKey key"
  shows "cache_ok E (UpdateCachePagesCount 1 (IncrementSize (pmSize m) (p\<lparr>cpDb := db'\<rparr>)))"
  using assms dbOk_gains [OF assms(1) _ assms(3,4)] by (simp add: cache_ok_dbOk dbSize_gains)

lemma cache_ok_loses:
  assumes "bolt_ok (ceBolt E)" "cache_ok E p" "dbLoses E key (cpDb p) db'"
    and "metaOf E (cpDb p) key = Some m"
  shows "cache_ok E (UpdateCachePagesCount (- 1) (IncrementSize (- pmSize m) (p\<lparr>cpDb := db'\<rparr>)))"
  using assms dbOk_loses [OF assms(1) _ assms(3)] by (simp add: cache_ok_dbOk dbSize_loses metaSize_def)

lemma cache_ok_counts:
  assumes "bolt_ok (ceBolt E)" "cache_ok E p" "dbCounts E key (cpDb p) db'"
  shows "cache_ok E (p\<lparr>cpDb := db'\<rparr>)"
  using assms dbOk_counts [OF _ assms(3)] by (simp add: cache_ok_dbOk dbSize_counts)

lemma cache_ok_fs [simp]: "cache_ok E (p\<lparr>cpFs := fs\<rparr>) = cache_ok E p"
  by (simp add: cache_ok_def)

section \<open>What the metadata operations do\<close>

text \<open>Inserting: a new bucket and the counters, or nothing. An existing bucket makes the closure
  return \<open>ErrBucketExists\<close>, which rolls back the two writes; the caller is told all is well.\<close>

text \<open>The three writes of an insertion under a free key.\<close>

lemma insert_writes:
  assumes "bolt_ok (ceBolt E)" "diskKey key" "\<not> txBucket (ceBolt E) db key"
    and "unmarshalMeta (ceCodec E) v = Inr (Some m)" "length v \<le> maxValueSize"
  obtains db1 db2 db3 where "txCreate (ceBolt E) db key = (None, db1)"
    "txPut (ceBolt E) db1 key pageMetadataKey v = (None, db2)"
    "txPut (ceBolt E) db2 key usesKey (replicate 4 (CHR 0x00)) = (None, db3)" "dbGains E key m db db3"
proof -
  let ?B = "ceBolt E"
  have zeros: "length (replicate 4 (CHR 0x00)) \<le> maxValueSize" by (simp add: maxValueSize_def)
  from bolt_create_new [OF assms(1) validName_diskKey [OF assms(2)] assms(3)] obtain db1 where
    1: "txCreate ?B db key = (None, db1)" "\<And>n. txBucket ?B db1 n \<longleftrightarrow> n = key \<or> txBucket ?B db n"
      "\<And>n k. txGet ?B db1 n k = (if n = key then None else txGet ?B db n k)" by metis
  have "txBucket ?B db1 key" by (simp add: 1(2))
  from bolt_put [OF assms(1) this validName_keys(1) assms(5)] obtain db2 where
    2: "txPut ?B db1 key pageMetadataKey v = (None, db2)" "\<And>n. txBucket ?B db2 n \<longleftrightarrow> txBucket ?B db1 n"
      "\<And>n j. txGet ?B db2 n j = (if n = key \<and> j = pageMetadataKey then Some v else txGet ?B db1 n j)" by metis
  have "txBucket ?B db2 key" by (simp add: 1(2) 2(2))
  from bolt_put [OF assms(1) this validName_keys(2) zeros] obtain db3 where
    3: "txPut ?B db2 key usesKey (replicate 4 (CHR 0x00)) = (None, db3)" "\<And>n. txBucket ?B db3 n \<longleftrightarrow> txBucket ?B db2 n"
      "\<And>n j. txGet ?B db3 n j = (if n = key \<and> j = usesKey then Some (replicate 4 (CHR 0x00)) else txGet ?B db2 n j)"
    by metis
  have "dbGains E key m db db3" using assms(3,4) 1 2 3 by (auto simp: dbGains_def metaOf_def)
  then show thesis by (rule that [OF 1(1) 2(1) 3(1)])
qed

lemma insertMeta_cases:
  assumes "bolt_ok (ceBolt E)" and "codec_ok (ceCodec E)" and "diskKey key"
  obtains (fresh) db' where
      "insertPageMetadataToDB E key m p =
         (Ok (), UpdateCachePagesCount 1 (IncrementSize (pmSize m) (p\<lparr>cpDb := db'\<rparr>)))"
      "dbGains E key m (cpDb p) db'"
    | (present) "txBucket (ceBolt E) (cpDb p) key" "insertPageMetadataToDB E key m p = (Ok (), p)"
    | (failed) e where "insertPageMetadataToDB E key m p = (Err e, p)"
proof (cases "marshalMeta (ceCodec E) m")
  case (Inl e)
  then have "insertPageMetadataToDB E key m p = (Err e, p)" by (simp add: insertPageMetadataToDB_def)
  then show ?thesis by (rule failed)
next
  case (Inr v)
  let ?B = "ceBolt E" and ?db = "cpDb p"
  from assms(2) Inr have val: "unmarshalMeta (ceCodec E) v = Inr (Some m)" "length v \<le> maxValueSize"
    using codec_meta by blast+
  show ?thesis
  proof (cases "txBucket ?B ?db key")
    case True
    then have "txCreate ?B ?db key = (Some ErrBucketExists, ?db)" using assms(1) by (simp add: bolt_create_old)
    then have "insertPageMetadataToDB E key m p = (Ok (), p) \<or>
        (\<exists>e. insertPageMetadataToDB E key m p = (Err e, p))"
      using Inr bolt_tx(1) [OF assms(1)]
      by (cases "txBegin ?B ?db") (auto simp: insertPageMetadataToDB_def boltUpdate.simps Let_def split_beta)
    with True present failed show ?thesis by blast
  next
    case False
    obtain db1 db2 db3 where 1: "txCreate ?B ?db key = (None, db1)" and 2: "txPut ?B db1 key pageMetadataKey v = (None, db2)"
      and 3: "txPut ?B db2 key usesKey (replicate 4 (CHR 0x00)) = (None, db3)" and gains: "dbGains E key m ?db db3"
      by (rule insert_writes [OF assms(1,3) False val])
    show ?thesis
    proof (cases "txBegin ?B ?db")
      case (Some e)
      then have "insertPageMetadataToDB E key m p = (Err e, p)"
        using Inr bolt_tx(1) [OF assms(1) Some]
        by (simp add: insertPageMetadataToDB_def boltUpdate.simps Let_def)
      then show ?thesis by (rule failed)
    next
      case begun: None
      show ?thesis
      proof (cases "txCommit ?B db3")
        case None
        with begun Inr 1 2 3 have "insertPageMetadataToDB E key m p =
          (Ok (), UpdateCachePagesCount 1 (IncrementSize (pmSize m) (p\<lparr>cpDb := db3\<rparr>)))"
          by (simp add: insertPageMetadataToDB_def boltUpdate.simps Let_def)
        then show ?thesis using gains by (rule fresh)
      next
        case (Some e)
        with begun Inr 1 2 3 have "insertPageMetadataToDB E key m p = (Err e, p)"
          using bolt_tx(2) [OF assms(1) Some]
          by (simp add: insertPageMetadataToDB_def boltUpdate.simps Let_def)
        then show ?thesis by (rule failed)
      qed
    qed
  qed
qed

text \<open>Looking up: the stored metadata, with the use counter advanced when that commits.\<close>

lemma cache_ok_bucket:
  assumes "bolt_ok (ceBolt E)" "cache_ok E p" "txBucket (ceBolt E) (cpDb p) key"
  obtains m v u where "metaOf E (cpDb p) key = Some m"
    "txGet (ceBolt E) (cpDb p) key pageMetadataKey = Some v"
    "unmarshalMeta (ceCodec E) v = Inr (Some m)"
    "txGet (ceBolt E) (cpDb p) key usesKey = Some u" "length u = 4" "diskKey key"
proof -
  have "bucketOk E (cpDb p) key" using assms by (simp add: cache_ok_alt)
  then show ?thesis using that
    by (auto simp: bucketOk_def metaOf_def split: option.splits sum.splits)
qed

lemma getMeta_cases:
  assumes "bolt_ok (ceBolt E)" and "cache_ok E p"
  obtains (hit) m db' where "getPageMetadata E key p = (Ok m, p\<lparr>cpDb := db'\<rparr>)"
      "txBucket (ceBolt E) (cpDb p) key" "metaOf E (cpDb p) key = Some m"
      "dbCounts E key (cpDb p) db'"
    | (uncounted) m where "getPageMetadata E key p = (Ok m, p)"
      "txBucket (ceBolt E) (cpDb p) key" "metaOf E (cpDb p) key = Some m" "\<not> bolt_live (ceBolt E)"
    | (missed) e where "getPageMetadata E key p = (Err e, p)"
      "\<not> txBucket (ceBolt E) (cpDb p) key \<or> \<not> bolt_live (ceBolt E)"
proof (cases "txBucket (ceBolt E) (cpDb p) key \<and> txBegin (ceBolt E) (cpDb p) = None")
  case False
  then have "\<exists>e. getPageMetadata E key p = (Err e, p)"
    by (cases "txBegin (ceBolt E) (cpDb p)") (auto simp: getPageMetadata_def boltView.simps Let_def)
  with False missed show ?thesis by (auto simp: bolt_live_def)
next
  case True
  then have bucket: "txBucket (ceBolt E) (cpDb p) key" and begun: "txBegin (ceBolt E) (cpDb p) = None"
    by auto
  from cache_ok_bucket [OF assms bucket] obtain m v u where
    m: "metaOf E (cpDb p) key = Some m" "txGet (ceBolt E) (cpDb p) key pageMetadataKey = Some v"
      "unmarshalMeta (ceCodec E) v = Inr (Some m)"
      "txGet (ceBolt E) (cpDb p) key usesKey = Some u" "length u = 4" by metis
  then obtain c where c: "getUint32 u = Some c" using getUint32_isSome [of u] by auto
  have "length (putUint32 (c + 1)) \<le> maxValueSize" by (simp add: maxValueSize_def)
  from bolt_put [OF assms(1) bucket validName_keys(2) this] obtain db' where
    db': "txPut (ceBolt E) (cpDb p) key usesKey (putUint32 (c + 1)) = (None, db')"
      "\<And>n. txBucket (ceBolt E) db' n \<longleftrightarrow> txBucket (ceBolt E) (cpDb p) n"
      "\<And>n j. txGet (ceBolt E) db' n j =
        (if n = key \<and> j = usesKey then Some (putUint32 (c + 1)) else txGet (ceBolt E) (cpDb p) n j)"
    by metis
  have counts: "dbCounts E key (cpDb p) db'"
    using db' m c by (auto simp: dbCounts_def)
  show ?thesis
  proof (cases "txCommit (ceBolt E) db'")
    case None
    then have "getPageMetadata E key p = (Ok m, p\<lparr>cpDb := db'\<rparr>)"
      using begun bucket m c db'(1)
      by (simp add: getPageMetadata_def boltView.simps boltUpdate.simps Let_def)
    then show ?thesis using bucket m(1) counts by (rule hit)
  next
    case (Some e)
    then have "getPageMetadata E key p = (Ok m, p)"
      using begun bucket m c db'(1)
      by (simp add: getPageMetadata_def boltView.simps boltUpdate.simps Let_def)
    then show ?thesis using bucket m(1) Some uncounted by (auto simp: bolt_live_def)
  qed
qed

text \<open>Removing: the bucket goes and the counters follow, or nothing happens.\<close>

lemma removeMeta_cases:
  assumes "bolt_ok (ceBolt E)" and "cache_ok E p"
  obtains (removed) m db' where
      "removePageMetadata E key p =
         (Ok m, UpdateCachePagesCount (- 1) (IncrementSize (- pmSize m) (p\<lparr>cpDb := db'\<rparr>)))"
      "metaOf E (cpDb p) key = Some m" "dbLoses E key (cpDb p) db'"
    | (kept) e where "removePageMetadata E key p = (Err e, p)"
      "\<not> txBucket (ceBolt E) (cpDb p) key \<or> \<not> bolt_live (ceBolt E)"
proof (cases "txBucket (ceBolt E) (cpDb p) key \<and> txBegin (ceBolt E) (cpDb p) = None")
  case False
  then have "\<exists>e. removePageMetadata E key p = (Err e, p)"
    by (cases "txBegin (ceBolt E) (cpDb p)") (auto simp: removePageMetadata_def boltUpdate.simps Let_def)
  with False kept show ?thesis by (auto simp: bolt_live_def)
next
  case True
  then have bucket: "txBucket (ceBolt E) (cpDb p) key" and begun: "txBegin (ceBolt E) (cpDb p) = None"
    by auto
  from cache_ok_bucket [OF assms bucket] obtain m v where
    m: "metaOf E (cpDb p) key = Some m" "txGet (ceBolt E) (cpDb p) key pageMetadataKey = Some v"
      "unmarshalMeta (ceCodec E) v = Inr (Some m)" by metis
  from bolt_delete_old [OF assms(1) bucket] obtain db' where
    db': "txDelete (ceBolt E) (cpDb p) key = (None, db')"
      "\<And>n. txBucket (ceBolt E) db' n \<longleftrightarrow> n \<noteq> key \<and> txBucket (ceBolt E) (cpDb p) n"
      "\<And>n k. n \<noteq> key \<Longrightarrow> txGet (ceBolt E) db' n k = txGet (ceBolt E) (cpDb p) n k" by metis
  have loses: "dbLoses E key (cpDb p) db'" using bucket db' by (auto simp: dbLoses_def)
  show ?thesis
  proof (cases "txCommit (ceBolt E) db'")
    case None
    then show ?thesis using begun bucket m db'(1) loses
      by (intro removed [of m db']) (simp_all add: removePageMetadata_def boltUpdate.simps Let_def)
  next
    case (Some e)
    then show ?thesis using begun bucket m db'(1)
      by (intro kept [of e])
        (auto simp: removePageMetadata_def boltUpdate.simps Let_def bolt_live_def)
  qed
qed

section \<open>The operations keep the accounts\<close>

lemma cache_ok_insertMeta:
  assumes "bolt_ok (ceBolt E)" "codec_ok (ceCodec E)" "diskKey key" "cache_ok E p"
  shows "cache_ok E (snd (insertPageMetadataToDB E key m p))"
  by (rule insertMeta_cases [OF assms(1-3), of m p])
    (use assms in \<open>auto intro: cache_ok_gains\<close>)

lemma cache_ok_getMeta:
  assumes "bolt_ok (ceBolt E)" "cache_ok E p"
  shows "cache_ok E (snd (getPageMetadata E key p))"
  by (rule getMeta_cases [OF assms, of key]) (use assms in \<open>auto intro: cache_ok_counts\<close>)

lemma cache_ok_removeMeta:
  assumes "bolt_ok (ceBolt E)" "cache_ok E p"
  shows "cache_ok E (snd (removePageMetadata E key p))"
  by (rule removeMeta_cases [OF assms, of key]) (use assms in \<open>auto intro: cache_ok_loses\<close>)

lemma cache_ok_Remove:
  assumes "bolt_ok (ceBolt E)" "cache_ok E p"
  shows "cache_ok E (snd (RemovePageFromCache E key p))"
  using cache_ok_removeMeta [OF assms, of key]
  by (auto simp: RemovePageFromCache_def split: prod.split res.split unit.split)

lemma cache_ok_Insert:
  assumes "bolt_ok (ceBolt E)" "codec_ok (ceCodec E)" "diskKey key" "cache_ok E p"
  shows "cache_ok E (snd (InsertPageInCache E clk key req resp page p))"
proof -
  let ?m = "createCacheInfo (clk 2) resp (of_nat (length (pageBody page)))"
  obtain r p1 where ins: "insertPageMetadataToDB E key ?m p = (r, p1)" by force
  then have ok1: "cache_ok E p1" using cache_ok_insertMeta [OF assms, of ?m] by simp
  have rm: "cache_ok E (snd (removePageMetadata E key (p1\<lparr>cpFs := fs\<rparr>)))" for fs
    using ok1 by (intro cache_ok_removeMeta [OF assms(1)]) simp
  show ?thesis
    using assms(4) ins ok1 rm
    by (auto simp: InsertPageInCache_def Let_def split: res.split prod.split option.split unit.split)
      (metis snd_conv)+
qed

lemma cache_ok_Get:
  assumes "bolt_ok (ceBolt E)" "cache_ok E p"
  shows "cache_ok E (snd (snd (GetPageFromCache E clk t1 t2 key req p)))"
proof -
  obtain r p1 where get: "getPageMetadata E key p = (r, p1)" by force
  then have ok1: "cache_ok E p1" using cache_ok_getMeta [OF assms, of key] by simp
  have rm: "cache_ok E (snd (removePageMetadata E key p1))"
    by (rule cache_ok_removeMeta [OF assms(1) ok1])
  show ?thesis
    using get ok1 rm
    by (auto simp: GetPageFromCache_def Let_def split: res.split prod.split sum.split)
qed

end
