(* ===== verification/Cleaner.thy ===== *)
theory Cleaner
  imports CacheStore "HOL-Library.Multiset"
begin

text \<open>
  The operations of package \<open>cache\<close> on the whole cache: the cleaner (\<open>cache/cacheCleaner.go\<close>),
  and \<open>CalculateSize\<close> and \<open>ClearCache\<close> (\<open>cache/cache.go\<close>). The cleaner is a tick of a timer: when
  the watermark is passed it removes expired pages, then the least used ones until the size is
  below the watermark again.
\<close>

section \<open>Iterating over the buckets\<close>

text \<open>\<open>tx.ForEach(fn)\<close>, which stops at the first error; the accumulator holds what the closure
  assigns.\<close>

fun forEach :: "('n \<Rightarrow> 'a \<Rightarrow> 'a txRes) \<Rightarrow> 'n list \<Rightarrow> 'a \<Rightarrow> 'a txRes" where
  "forEach f [] a = TxDone a"
| "forEach f (n # ns) a =
     (case f n a of TxDone a \<Rightarrow> forEach f ns a | TxErr e a \<Rightarrow> TxErr e a | TxPanic m \<Rightarrow> TxPanic m)"

text \<open>\<open>copy(dst, src)\<close>, and decoding into a struct variable, which \<open>null\<close> leaves at zero.\<close>

definition goCopy :: "'a list \<Rightarrow> 'a list \<Rightarrow> 'a list" where
  "goCopy dst src = take (length dst) src @ drop (length src) dst"

definition decodeMeta :: "'db cacheEnv \<Rightarrow> bytes option \<Rightarrow> goerror + PageMetadata" where
  "decodeMeta E v =
     (case unmarshalMeta (ceCodec E) (case v of None \<Rightarrow> [] | Some b \<Rightarrow> b) of
        Inl e \<Rightarrow> Inl e
      | Inr None \<Rightarrow> Inr zeroMetadata
      | Inr (Some m) \<Rightarrow> Inr m)"

section \<open>The cleaner\<close>

definition isSizeExceeded :: "'db CachingProperties \<Rightarrow> bool" where
  "isSizeExceeded p \<longleftrightarrow>
     toFloat (toFloat (sint (maxFileSize (cpCleaner p))) * int (fillFactor (cpCleaner p)))
       < toFloat (sint (Size p)) * 2 ^ 53"

fun removeExpired ::
  "'db cacheEnv \<Rightarrow> (bytes \<times> int64) list \<Rightarrow> int64 \<Rightarrow> 'db CachingProperties \<Rightarrow>
   int64 res \<times> 'db CachingProperties" where
  "removeExpired E [] sz p = (Ok sz, p)"
| "removeExpired E ((key, _) # items) sz p =
     (case RemovePageFromCache E key p of
        (Panic m, p) \<Rightarrow> (Panic m, p)
      | (Err _, p) \<Rightarrow> removeExpired E items sz p
      | (Ok meta, p) \<Rightarrow> removeExpired E items (sz + pmSize meta) p)"

text \<open>\<open>addExpiredKeys\<close> for bucket \<open>i\<close>, which reads the clock as \<open>now\<close>. \<open>make([]byte, 0, len(name))\<close> is an
  empty slice.\<close>

definition addExpiredKeys ::
  "'db cacheEnv \<Rightarrow> time \<Rightarrow> 'db \<Rightarrow> bytes \<Rightarrow> (bytes \<times> int64) list \<Rightarrow> (bytes \<times> int64) list txRes" where
  "addExpiredKeys E now db name expiredKeys =
     (case decodeMeta E (txGet (ceBolt E) db name pageMetadataKey) of
        Inl e \<Rightarrow> TxErr e expiredKeys
      | Inr info \<Rightarrow>
          let nameCopy = goCopy [] name in
          if isExpired now info 0 then TxDone (expiredKeys @ [(nameCopy, pmSize info)])
          else TxDone expiredKeys)"

definition nullSizeOr :: "int64 res \<times> 'db CachingProperties \<Rightarrow> int64 res \<times> 'db CachingProperties" where
  "nullSizeOr rp =
     (case rp of
        (Ok sz, p) \<Rightarrow> (if sz = 0 then Err (ErrMsg ''null size'') else Ok sz, p)
      | (r, p) \<Rightarrow> (r, p))"

definition deleteExpiredCache ::
  "'db cacheEnv \<Rightarrow> (nat \<Rightarrow> time) \<Rightarrow> 'db CachingProperties \<Rightarrow> int64 res \<times> 'db CachingProperties" where
  "deleteExpiredCache E clk p =
     (case boltView (ceBolt E) []
        (\<lambda>db. forEach (\<lambda>(i, name). addExpiredKeys E (clk i) db name)
                (enumerate 0 (txNames (ceBolt E) db)) [])
        (cpDb p) of
        TxErr e _ \<Rightarrow> (Err e, p)
      | TxPanic m \<Rightarrow> (Panic m, p)
      | TxDone expiredKeys \<Rightarrow> nullSizeOr (removeExpired E expiredKeys 0 p))"

definition addLruItem ::
  "'db cacheEnv \<Rightarrow> 'db \<Rightarrow> bytes \<Rightarrow> (bytes \<times> uint32) list \<Rightarrow> (bytes \<times> uint32) list txRes" where
  "addLruItem E db name lruItems =
     (case txGet (ceBolt E) db name usesKey of
        None \<Rightarrow> TxErr (ErrMsg ''cannot access to uses'') lruItems
      | Some bs \<Rightarrow>
          (case getUint32 bs of
             None \<Rightarrow> TxPanic ''index out of range''
           | Some uses \<Rightarrow>
               TxDone (lruItems @ [(goCopy (replicate (length name) (CHR 0x00)) name, uses)])))"

text \<open>The loop of \<open>deletePagesLRU\<close>.\<close>

fun removeWhileExceeded ::
  "'db cacheEnv \<Rightarrow> (bytes \<times> uint32) list \<Rightarrow> int64 \<Rightarrow> 'db CachingProperties \<Rightarrow>
   int64 res \<times> 'db CachingProperties" where
  "removeWhileExceeded E [] sz p = (Ok sz, p)"
| "removeWhileExceeded E ((key, _) # items) sz p =
     (if \<not> isSizeExceeded p then (Ok sz, p)
      else case RemovePageFromCache E key p of
             (Panic m, p) \<Rightarrow> (Panic m, p)
           | (Err _, p) \<Rightarrow> removeWhileExceeded E items sz p
           | (Ok meta, p) \<Rightarrow> removeWhileExceeded E items (sz + pmSize meta) p)"

definition deletePagesLRU ::
  "'db cacheEnv \<Rightarrow> 'db CachingProperties \<Rightarrow> int64 res \<times> 'db CachingProperties" where
  "deletePagesLRU E p =
     (case boltView (ceBolt E) []
        (\<lambda>db. forEach (addLruItem E db) (txNames (ceBolt E) db) []) (cpDb p) of
        TxErr e _ \<Rightarrow> (Err e, p)
      | TxPanic m \<Rightarrow> (Panic m, p)
      | TxDone lruItems \<Rightarrow> nullSizeOr (removeWhileExceeded E (ceSort E lruItems) 0 p))"

text \<open>One tick of the timer, and \<open>Observe\<close> over the ticks that arrive.\<close>

definition observeTick ::
  "'db cacheEnv \<Rightarrow> (nat \<Rightarrow> time) \<Rightarrow> 'db CachingProperties \<Rightarrow> unit res \<times> 'db CachingProperties" where
  "observeTick E clk p =
     (if isSizeExceeded p then
        (case deleteExpiredCache E clk p of
           (Panic m, p) \<Rightarrow> (Panic m, p)
         | (_, p) \<Rightarrow>
             (case deletePagesLRU E p of (Panic m, p) \<Rightarrow> (Panic m, p) | (_, p) \<Rightarrow> (Ok (), p)))
      else (Ok (), p))"

fun Observe ::
  "'db cacheEnv \<Rightarrow> (nat \<Rightarrow> time) list \<Rightarrow> 'db CachingProperties \<Rightarrow> unit res \<times> 'db CachingProperties" where
  "Observe E [] p = (Ok (), p)"
| "Observe E (clk # ticks) p =
     (case observeTick E clk p of (Ok (), p) \<Rightarrow> Observe E ticks p | (r, p) \<Rightarrow> (r, p))"

section \<open>Counting and clearing the whole cache\<close>

definition checkDisk :: "'db cacheEnv \<Rightarrow> bytes \<Rightarrow> fsys \<Rightarrow> goerror option" where
  "checkDisk E k fs = osStat (ceOs E) (makePath k subHashCount @ ''/'' @ k) fs"

definition countPage ::
  "'db cacheEnv \<Rightarrow> fsys \<Rightarrow> 'db \<Rightarrow> bytes \<Rightarrow> int64 \<times> int \<Rightarrow> (int64 \<times> int) txRes" where
  "countPage E fs db name sc =
     (case txGet (ceBolt E) db name pageMetadataKey of
        None \<Rightarrow> TxErr (ErrMsg ''all the buckets must have pageMetadataKey-value, you should clear the database and cache'') sc
      | Some metaBytes \<Rightarrow>
          (case decodeMeta E (Some metaBytes) of
             Inl e \<Rightarrow> TxErr (ErrMsg (''Non-persistent json-data, clear the cache! '' @ errText e)) sc
           | Inr m \<Rightarrow>
               if checkDisk E name fs \<noteq> None then TxDone sc
               else TxDone (fst sc + pmSize m, snd sc + 1)))"

definition CalculateSize ::
  "'db cacheEnv \<Rightarrow> 'db CachingProperties \<Rightarrow> unit res \<times> 'db CachingProperties" where
  "CalculateSize E p =
     (case boltView (ceBolt E) (0, 0)
        (\<lambda>db. forEach (countPage E (cpFs p) db) (txNames (ceBolt E) db) (0, 0)) (cpDb p) of
        TxErr e _ \<Rightarrow> (Panic (errText e), p)
      | TxPanic m \<Rightarrow> (Panic m, p)
      | TxDone (sz, pagesCount) \<Rightarrow> (Ok (), p\<lparr>Size := sz, PagesCount := pagesCount\<rparr>))"

text \<open>
  The closure of \<open>ClearCache\<close> for one bucket. It works on the database of the transaction and,
  at the same time, on the counters of \<open>p\<close>, which no transaction restores. \<open>b\<close> is nil when the
  bucket is gone.
\<close>

definition clearBucket ::
  "'db cacheEnv \<Rightarrow> bytes \<Rightarrow> 'db \<times> 'db CachingProperties \<Rightarrow> ('db \<times> 'db CachingProperties) txRes" where
  "clearBucket E name st =
     (let (db, p) = st; B = ceBolt E in
      if \<not> txBucket B db name then TxPanic ''nil pointer dereference''
      else case txGet B db name pageMetadataKey of
        None \<Rightarrow> TxErr (ErrMsg (''buckets must contain '' @ pageMetadataKey)) (db, p)
      | Some v \<Rightarrow>
          (case decodeMeta E (Some v) of
             Inl e \<Rightarrow> TxErr e (db, p)
           | Inr meta \<Rightarrow>
               (case checkDisk E name (cpFs p) of
                  Some e \<Rightarrow> TxErr e (db, p)
                | None \<Rightarrow>
                    let p = UpdateCachePagesCount (- 1) (IncrementSize (- pmSize meta) p);
                        (err, db) = txDelete B db name
                    in (case err of None \<Rightarrow> TxDone (db, p) | Some e \<Rightarrow> TxErr e (db, p)))))"

text \<open>
  \<open>visit\<close> is the order in which \<open>tx.ForEach\<close> presents the buckets of this call: bolt leaves it
  undefined which buckets an iteration sees once its closure deletes some.
\<close>

definition clearTx ::
  "'db cacheEnv \<Rightarrow> bytes list \<Rightarrow> 'db CachingProperties \<Rightarrow> 'db CachingProperties txRes \<times> 'db" where
  "clearTx E visit p =
     boltUpdate (ceBolt E) p
       (\<lambda>db. case forEach (clearBucket E) visit (db, p) of
               TxDone (db, p) \<Rightarrow> (TxDone p, db)
             | TxErr e (db, p) \<Rightarrow> (TxErr e p, db)
             | TxPanic m \<Rightarrow> (TxPanic m, db))
       (cpDb p)"

text \<open>What the additions made in the transaction leave of the counters, also when the iteration panics.\<close>

fun visited :: "'db cacheEnv \<Rightarrow> bytes list \<Rightarrow> 'db \<times> 'db CachingProperties \<Rightarrow> 'db CachingProperties" where
  "visited E [] st = snd st"
| "visited E (n # ns) st =
     (case clearBucket E n st of
        TxDone st \<Rightarrow> visited E ns st
      | TxErr e st \<Rightarrow> snd st
      | TxPanic m \<Rightarrow> snd st)"

definition ClearCache ::
  "'db cacheEnv \<Rightarrow> bytes list \<Rightarrow> 'db CachingProperties \<Rightarrow> unit res \<times> 'db CachingProperties" where
  "ClearCache E visit p =
     (case clearTx E visit p of
        (TxPanic m, db) \<Rightarrow> (Panic m, (visited E visit (cpDb p, p))\<lparr>cpDb := db\<rparr>)
      | (TxErr e p, db) \<Rightarrow> (Err e, p\<lparr>cpDb := db, gaugeSize := toFloat (sint (Size p))\<rparr>)
      | (TxDone p, db) \<Rightarrow>
          (case clearPages (ceOs E) (cpFs p) of
             (Some e, fs) \<Rightarrow> (Err e, p\<lparr>cpDb := db, gaugeSize := toFloat (sint (Size p)), cpFs := fs\<rparr>)
           | (None, fs) \<Rightarrow> (Ok (), p\<lparr>cpDb := db, gaugeSize := toFloat (sint (Size p)), cpFs := fs\<rparr>)))"

section \<open>Removing a page always takes its metadata along\<close>

lemma beforeLast_root:
  "s = CHR ''/'' # t \<Longrightarrow>
     \<exists>s'. beforeLast CHR ''/'' (p @ s) = Some (p @ s') \<and> (s' = [] \<or> hd s' = CHR ''/'')"
proof (induction p)
  case Nil
  have "\<exists>s'. beforeLast CHR ''/'' (CHR ''/'' # t) = Some s' \<and> (s' = [] \<or> hd s' = CHR ''/'')"
    by (cases "beforeLast CHR ''/'' t") auto
  with Nil show ?case by simp
next
  case (Cons c p)
  then show ?case by auto
qed

lemma removeDirs_no_panic:
  "path = PagesPath @ s \<Longrightarrow> s = [] \<or> hd s = CHR ''/'' \<Longrightarrow> fst (removeDirs F path fs) \<noteq> Panic m"
proof (induction F path fs arbitrary: s rule: removeDirs.induct)
  case (1 F path fs)
  show ?case
  proof (cases "path = PagesPath")
    case True
    then show ?thesis by (subst removeDirs.simps) simp
  next
    case False
    with "1.prems" obtain t where "s = CHR ''/'' # t" by (cases s) auto
    from beforeLast_root [OF this, of PagesPath] "1.prems"(1) obtain s' where
      parent: "beforeLast CHR ''/'' path = Some (PagesPath @ s')" and s': "s' = [] \<or> hd s' = CHR ''/''"
      by auto
    show ?thesis
    proof (cases "osRemove F path fs")
      case (Pair r fs1)
      with 1(1) [OF False Pair [symmetric]] False parent s' show ?thesis
        by (cases r) (simp_all add: removeDirs.simps [of F path fs])
    qed
  qed
qed

lemma fold_path: "fold (\<lambda>v path. path @ ''/'' @ v) vs p = p @ concat (map (\<lambda>v. ''/'' @ v) vs)"
  by (induction vs arbitrary: p) auto

lemma removePageFromDisk_no_panic:
  assumes "diskKey k"
  shows "fst (removePageFromDisk F k fs) \<noteq> Panic m"
proof -
  obtain s where s: "makePath k subHashCount = PagesPath @ s" "s = [] \<or> hd s = CHR ''/''"
    by (auto simp: makePath_def Let_def fold_path subHashCount_def upt_4)
  then show ?thesis
    using removeDirs_no_panic [OF s]
    by (auto simp: removePageFromDisk_unfold [OF assms] split: prod.split option.split)
qed

lemma removePage_live:
  assumes "bolt_ok (ceBolt E)" "bolt_live (ceBolt E)" "cache_ok E p" "txBucket (ceBolt E) (cpDb p) key"
  obtains r p' where "RemovePageFromCache E key p = (r, p')" "\<And>m. r \<noteq> Panic m"
    "dbLoses E key (cpDb p) (cpDb p')" "cpCleaner p' = cpCleaner p"
    "Size p' = Size p - metaSize E (cpDb p) key" "cache_ok E p'"
proof -
  have dk: "diskKey key" using cache_ok_bucket [OF assms(1,3,4)] by metis
  from removeMeta_cases [OF assms(1,3), of key] assms(2,4) obtain m db' where
    1: "removePageMetadata E key p =
         (Ok m, UpdateCachePagesCount (- 1) (IncrementSize (- pmSize m) (p\<lparr>cpDb := db'\<rparr>)))"
      "metaOf E (cpDb p) key = Some m" "dbLoses E key (cpDb p) db'" by metis
  let ?p1 = "UpdateCachePagesCount (- 1) (IncrementSize (- pmSize m) (p\<lparr>cpDb := db'\<rparr>))"
  obtain r2 fs2 where 2: "removePageFromDisk (ceOs E) key (cpFs ?p1) = (r2, fs2)" by force
  have np: "r2 \<noteq> Panic x" for x
    using removePageFromDisk_no_panic [OF dk, of "ceOs E" "cpFs ?p1" x] 2 by simp
  have ok: "cache_ok E (?p1\<lparr>cpFs := fs2\<rparr>)"
    using cache_ok_loses [OF assms(1,3) 1(3,2)] by simp
  have "\<exists>r. RemovePageFromCache E key p = (r, ?p1\<lparr>cpFs := fs2\<rparr>) \<and> (\<forall>m. r \<noteq> Panic m)"
    using 1(1) 2 np by (cases r2) (auto simp: RemovePageFromCache_def)
  then show ?thesis using that 1 ok by (fastforce simp: metaSize_def)
qed

section \<open>What the cleaner removes\<close>

lemma goCopy_simps [simp]:
  "goCopy [] xs = []" "length xs = length ys \<Longrightarrow> goCopy xs ys = ys"
  by (simp_all add: goCopy_def)

definition usesOf :: "'db cacheEnv \<Rightarrow> 'db \<Rightarrow> bytes \<Rightarrow> uint32" where
  "usesOf E db n = the (getUint32 (the (txGet (ceBolt E) db n usesKey)))"

definition lruItemsOf :: "'db cacheEnv \<Rightarrow> 'db \<Rightarrow> (bytes \<times> uint32) list" where
  "lruItemsOf E db = map (\<lambda>n. (n, usesOf E db n)) (txNames (ceBolt E) db)"

lemma addLruItem_ok:
  assumes "bucketOk E db n"
  shows "addLruItem E db n items = TxDone (items @ [(n, usesOf E db n)])"
proof -
  from assms obtain u where u: "txGet (ceBolt E) db n usesKey = Some u" "length u = 4"
    by (auto simp: bucketOk_def split: option.splits)
  then obtain c where "getUint32 u = Some c" using getUint32_isSome [of u] by auto
  with u show ?thesis by (simp add: addLruItem_def usesOf_def)
qed

lemma collect_lruItems:
  "\<forall>n \<in> set ns. bucketOk E db n \<Longrightarrow>
     forEach (addLruItem E db) ns items = TxDone (items @ map (\<lambda>n. (n, usesOf E db n)) ns)"
  by (induction ns arbitrary: items) (auto simp: addLruItem_ok)

lemma deletePagesLRU_live:
  assumes "bolt_ok (ceBolt E)" "bolt_live (ceBolt E)" "cache_ok E p"
  shows "deletePagesLRU E p =
    nullSizeOr (removeWhileExceeded E (ceSort E (lruItemsOf E (cpDb p))) 0 p)"
proof -
  have "\<forall>n \<in> set (txNames (ceBolt E) (cpDb p)). bucketOk E (cpDb p) n"
    using assms(3) by (simp add: cache_ok_def list_all_iff)
  from collect_lruItems [OF this, of "[]"] show ?thesis
    by (simp add: deletePagesLRU_def boltView_live [OF assms(2)] lruItemsOf_def)
qed

text \<open>The bytes the first pages of a list account for.\<close>

definition sizeOfItems :: "'db cacheEnv \<Rightarrow> 'db \<Rightarrow> (bytes \<times> uint32) list \<Rightarrow> int64" where
  "sizeOfItems E db items = sum_list (map (\<lambda>(n, _). metaSize E db n) items)"

lemma sizeOfItems_simps [simp]:
  "sizeOfItems E db [] = 0"
  "sizeOfItems E db ((n, u) # items) = metaSize E db n + sizeOfItems E db items"
  by (simp_all add: sizeOfItems_def)

text \<open>
  The loop removes a prefix of the list it is given: as long a prefix as it takes to get below
  the watermark, and no longer.
\<close>

definition removedPrefix ::
  "'db cacheEnv \<Rightarrow> (bytes \<times> uint32) list \<Rightarrow> nat \<Rightarrow> 'db CachingProperties \<Rightarrow> 'db CachingProperties \<Rightarrow> bool"
  where
  "removedPrefix E items k p p' \<longleftrightarrow>
     k \<le> length items \<and> cpCleaner p' = cpCleaner p \<and>
     Size p' = Size p - sizeOfItems E (cpDb p) (take k items) \<and>
     (\<forall>n. txBucket (ceBolt E) (cpDb p') n \<longleftrightarrow>
        txBucket (ceBolt E) (cpDb p) n \<and> n \<notin> fst ` set (take k items)) \<and>
     (\<forall>n j. n \<notin> fst ` set (take k items) \<longrightarrow>
        txGet (ceBolt E) (cpDb p') n j = txGet (ceBolt E) (cpDb p) n j) \<and>
     (k < length items \<longrightarrow> \<not> isSizeExceeded p') \<and>
     (\<forall>i < k. isSizeExceeded (p\<lparr>Size := Size p - sizeOfItems E (cpDb p) (take i items)\<rparr>))"

lemma isSizeExceeded_cong:
  "cpCleaner p' = cpCleaner p \<Longrightarrow> Size p' = Size p \<Longrightarrow> isSizeExceeded p' = isSizeExceeded p"
  by (simp add: isSizeExceeded_def)

lemma removedPrefix_step:
  assumes "dbLoses E key (cpDb p) (cpDb p1)" "cpCleaner p1 = cpCleaner p"
    and "Size p1 = Size p - metaSize E (cpDb p) key" "isSizeExceeded p"
    and "key \<notin> fst ` set items" "removedPrefix E items k p1 p'"
  shows "removedPrefix E ((key, u) # items) (Suc k) p p'"
proof -
  have same: "metaSize E (cpDb p1) n = metaSize E (cpDb p) n" if "n \<noteq> key" for n
    using assms(1) that by (intro metaSize_cong) (simp add: dbLoses_def)
  have sz: "sizeOfItems E (cpDb p1) (take i items) = sizeOfItems E (cpDb p) (take i items)" for i
    unfolding sizeOfItems_def using assms(5)
    by (intro arg_cong [where f = sum_list] map_cong refl)
      (auto simp: same image_iff dest!: in_set_takeD)
  have "isSizeExceeded (p\<lparr>Size := Size p - sizeOfItems E (cpDb p) (take i ((key, u) # items))\<rparr>)"
    if "i < Suc k" for i
  proof (cases i)
    case 0
    with assms(4) show ?thesis by (simp add: sizeOfItems_def isSizeExceeded_def)
  next
    case (Suc i')
    with that assms(6) have "isSizeExceeded (p1\<lparr>Size := Size p1 - sizeOfItems E (cpDb p1) (take i' items)\<rparr>)"
      by (simp add: removedPrefix_def)
    with Suc assms(2,3) show ?thesis
      by (simp add: isSizeExceeded_def sz diff_diff_eq)
  qed
  with assms show ?thesis
    by (auto simp: removedPrefix_def dbLoses_def sz)
qed

lemma removeWhileExceeded_prefix:
  assumes "bolt_ok (ceBolt E)" "bolt_live (ceBolt E)"
  shows "cache_ok E p \<Longrightarrow> distinct (map fst items) \<Longrightarrow>
      \<forall>n \<in> fst ` set items. txBucket (ceBolt E) (cpDb p) n \<Longrightarrow>
    \<exists>k s p'. removeWhileExceeded E items sz p = (Ok s, p') \<and> cache_ok E p' \<and>
      removedPrefix E items k p p'"
proof (induction items arbitrary: sz p)
  case Nil
  then show ?case by (simp add: removedPrefix_def sizeOfItems_def)
next
  case (Cons it items)
  obtain key u where it: "it = (key, u)" by (cases it)
  show ?case
  proof (cases "isSizeExceeded p")
    case False
    then have "removedPrefix E (it # items) 0 p p" by (simp add: removedPrefix_def sizeOfItems_def)
    with False Cons.prems(1) it show ?thesis by auto
  next
    case exceeded: True
    have "txBucket (ceBolt E) (cpDb p) key" using Cons.prems(3) it by simp
    from removePage_live [OF assms Cons.prems(1) this] obtain r p1 where
      1: "RemovePageFromCache E key p = (r, p1)" "\<And>m. r \<noteq> Panic m"
        "dbLoses E key (cpDb p) (cpDb p1)" "cpCleaner p1 = cpCleaner p"
        "Size p1 = Size p - metaSize E (cpDb p) key" "cache_ok E p1" by metis
    have key: "key \<notin> fst ` set items" using Cons.prems(2) it by simp
    have "\<forall>n \<in> fst ` set items. txBucket (ceBolt E) (cpDb p1) n"
      using Cons.prems(3) 1(3) key it by (auto simp: dbLoses_def image_iff)
    then have IH: "\<exists>k s p'. removeWhileExceeded E items sz' p1 = (Ok s, p') \<and> cache_ok E p' \<and>
        removedPrefix E items k p1 p'" for sz'
      using Cons.IH [OF 1(6)] Cons.prems(2) it by simp
    have "\<exists>sz'. removeWhileExceeded E (it # items) sz p = removeWhileExceeded E items sz' p1"
      using exceeded 1(1,2) it by (cases r) auto
    with IH show ?thesis
      using removedPrefix_step [OF 1(3-5) exceeded key] it by metis
  qed
qed

text \<open>\<open>sort.Slice\<close>: a rearrangement in which the counts do not descend.\<close>

definition sort_ok :: "((bytes \<times> uint32) list \<Rightarrow> (bytes \<times> uint32) list) \<Rightarrow> bool" where
  "sort_ok s \<longleftrightarrow> (\<forall>xs. mset (s xs) = mset xs \<and> sorted (map snd (s xs)))"

definition lruOrder :: "'db cacheEnv \<Rightarrow> 'db \<Rightarrow> (bytes \<times> uint32) list" where
  "lruOrder E db = ceSort E (lruItemsOf E db)"

lemma lruOrder_mset: "sort_ok (ceSort E) \<Longrightarrow> mset (lruOrder E db) = mset (lruItemsOf E db)"
  by (simp add: sort_ok_def lruOrder_def)

lemma lruOrder_names:
  assumes "sort_ok (ceSort E)" and "bolt_ok (ceBolt E)"
  shows "distinct (map fst (lruOrder E db))" and "fst ` set (lruOrder E db) = {n. txBucket (ceBolt E) db n}"
    and "(n, u) \<in> set (lruOrder E db) \<Longrightarrow> u = usesOf E db n"
proof -
  have "mset (map fst (lruOrder E db)) = mset (map fst (lruItemsOf E db))"
    using lruOrder_mset [OF assms(1)] by (metis mset_map)
  also have "map fst (lruItemsOf E db) = txNames (ceBolt E) db"
    by (simp add: lruItemsOf_def comp_def)
  finally have names: "mset (map fst (lruOrder E db)) = mset (txNames (ceBolt E) db)" .
  then show "distinct (map fst (lruOrder E db))"
    using bolt_names(1) [OF assms(2)] mset_eq_imp_distinct_iff by blast
  show "fst ` set (lruOrder E db) = {n. txBucket (ceBolt E) db n}"
    using mset_eq_setD [OF names] bolt_names(2) [OF assms(2)] by simp
  have "set (lruOrder E db) = set (lruItemsOf E db)"
    using lruOrder_mset [OF assms(1)] by (rule mset_eq_setD)
  then show "(n, u) \<in> set (lruOrder E db) \<Longrightarrow> u = usesOf E db n"
    by (auto simp: lruItemsOf_def)
qed

lemma deletePagesLRU_prefix:
  assumes "bolt_ok (ceBolt E)" "bolt_live (ceBolt E)" "sort_ok (ceSort E)" "cache_ok E p"
  obtains k r p' where "deletePagesLRU E p = (r, p')" "\<And>m. r \<noteq> Panic m" "cache_ok E p'"
    "removedPrefix E (lruOrder E (cpDb p)) k p p'"
proof -
  have "\<exists>k s p'. removeWhileExceeded E (lruOrder E (cpDb p)) 0 p = (Ok s, p') \<and> cache_ok E p' \<and>
      removedPrefix E (lruOrder E (cpDb p)) k p p'"
    using lruOrder_names [OF assms(3,1)]
    by (intro removeWhileExceeded_prefix [OF assms(1,2,4)]) auto
  then obtain k s p' where 1: "removeWhileExceeded E (lruOrder E (cpDb p)) 0 p = (Ok s, p')"
    and 2: "cache_ok E p'" "removedPrefix E (lruOrder E (cpDb p)) k p p'" by blast
  have "\<exists>r. deletePagesLRU E p = (r, p') \<and> (\<forall>m. r \<noteq> Panic m)"
    using 1 by (simp add: deletePagesLRU_live [OF assms(1,2,4)] lruOrder_def nullSizeOr_def)
  with 2 that show ?thesis by blast
qed

text \<open>An empty cache is below any watermark.\<close>

lemma empty_not_exceeded:
  assumes "0 \<le> sint (maxFileSize (cpCleaner p))" and "Size p = 0"
  shows "\<not> isSizeExceeded p"
proof -
  have "0 \<le> toFloat (toFloat (sint (maxFileSize (cpCleaner p))) * int (fillFactor (cpCleaner p)))"
    using toFloat_nonneg [OF assms(1)] by (simp add: toFloat_nonneg)
  then show ?thesis using assms(2) by (simp add: isSizeExceeded_def toFloat_exact)
qed

lemma no_buckets_no_bytes:
  assumes "bolt_ok (ceBolt E)" "cache_ok E p" "\<And>n. \<not> txBucket (ceBolt E) (cpDb p) n"
  shows "Size p = 0"
  using assms by (simp add: cache_ok_alt dbSize_sum)

text \<open>The expired pages are noted under an empty name, which no bucket has.\<close>

lemma addExpiredKeys_empty:
  "\<forall>(key, _) \<in> set items. key = [] \<Longrightarrow>
    (case forEach (\<lambda>(i, name). addExpiredKeys E (clk i) db name) ns items of
       TxDone items' \<Rightarrow> \<forall>(key, _) \<in> set items'. key = []
     | TxErr _ _ \<Rightarrow> True
     | TxPanic _ \<Rightarrow> False)"
proof (induction ns arbitrary: items)
  case Nil
  then show ?case by simp
next
  case (Cons n ns)
  obtain i name where n: "n = (i, name)" by (cases n)
  have "(\<exists>items'. addExpiredKeys E (clk i) db name items = TxDone items' \<and>
          (\<forall>(key, _) \<in> set items'. key = [])) \<or>
      (\<exists>e. addExpiredKeys E (clk i) db name items = TxErr e items)"
    using Cons.prems by (auto simp: addExpiredKeys_def Let_def split: sum.split)
  with Cons.IH n show ?case by auto
qed

lemma removeExpired_empty:
  assumes "bolt_ok (ceBolt E)"
  shows "\<forall>(key, _) \<in> set items. key = [] \<Longrightarrow> removeExpired E items sz p = (Ok sz, p)"
proof (induction items arbitrary: sz)
  case Nil
  then show ?case by simp
next
  case (Cons it items)
  have "\<exists>e. removePageMetadata E [] p = (Err e, p)"
    using bolt_names(3) [OF assms, of "cpDb p"]
    by (cases "txBegin (ceBolt E) (cpDb p)") (auto simp: removePageMetadata_def boltUpdate.simps Let_def)
  then have "\<exists>e. RemovePageFromCache E [] p = (Err e, p)" by (auto simp: RemovePageFromCache_def)
  with Cons show ?case by (cases it) auto
qed

lemma deleteExpiredCache_nothing:
  assumes "bolt_ok (ceBolt E)"
  shows "\<exists>e. deleteExpiredCache E clk p = (Err e, p)"
proof (cases "txBegin (ceBolt E) (cpDb p)")
  case (Some e)
  then show ?thesis by (simp add: deleteExpiredCache_def boltView.simps)
next
  case None
  let ?r = "forEach (\<lambda>(i, name). addExpiredKeys E (clk i) (cpDb p) name)
    (enumerate 0 (txNames (ceBolt E) (cpDb p))) []"
  show ?thesis
    using addExpiredKeys_empty [of "[]" E clk "cpDb p" "enumerate 0 (txNames (ceBolt E) (cpDb p))"]
      None removeExpired_empty [OF assms]
    by (cases ?r) (simp_all add: deleteExpiredCache_def boltView.simps nullSizeOr_def)
qed

section \<open>Counting and clearing\<close>

lemma decodeMeta_ok:
  assumes "bucketOk E db n"
  obtains m v where "metaOf E db n = Some m" "txGet (ceBolt E) db n pageMetadataKey = Some v"
    "decodeMeta E (Some v) = Inr m"
proof -
  from assms obtain m where m: "metaOf E db n = Some m" by (auto simp: bucketOk_def)
  then obtain v where v: "txGet (ceBolt E) db n pageMetadataKey = Some v"
    "unmarshalMeta (ceCodec E) v = Inr (Some m)"
    by (auto simp: metaOf_def split: option.splits sum.splits)
  then show ?thesis using m by (intro that [of m v]) (simp_all add: decodeMeta_def)
qed

lemma countPages:
  "\<forall>n \<in> set ns. bucketOk E db n \<Longrightarrow>
     forEach (countPage E fs db) ns (s, c) =
       TxDone (s + sum_list (map (metaSize E db) (filter (\<lambda>n. checkDisk E n fs = None) ns)),
               c + int (length (filter (\<lambda>n. checkDisk E n fs = None) ns)))"
proof (induction ns arbitrary: s c)
  case Nil
  then show ?case by simp
next
  case (Cons n ns)
  then have "bucketOk E db n" by simp
  from decodeMeta_ok [OF this] obtain m v where
    m: "metaOf E db n = Some m" "txGet (ceBolt E) db n pageMetadataKey = Some v"
      "decodeMeta E (Some v) = Inr m" by metis
  with Cons show ?case
    by (auto simp: countPage_def metaSize_def algebra_simps)
qed

lemma clearBucket_ok:
  assumes "bolt_ok (ceBolt E)" "bucketOk E db n" "txBucket (ceBolt E) db n"
    and "checkDisk E n (cpFs p) = None"
  obtains m db' where "metaOf E db n = Some m" "dbLoses E n db db'"
    "clearBucket E n (db, p) =
       TxDone (db', UpdateCachePagesCount (- 1) (IncrementSize (- pmSize m) p))"
proof -
  from decodeMeta_ok [OF assms(2)] obtain m v where
    m: "metaOf E db n = Some m" "txGet (ceBolt E) db n pageMetadataKey = Some v"
      "decodeMeta E (Some v) = Inr m" by metis
  from bolt_delete_old [OF assms(1,3)] obtain db' where
    db': "txDelete (ceBolt E) db n = (None, db')"
      "\<And>j. txBucket (ceBolt E) db' j \<longleftrightarrow> j \<noteq> n \<and> txBucket (ceBolt E) db j"
      "\<And>j k. j \<noteq> n \<Longrightarrow> txGet (ceBolt E) db' j k = txGet (ceBolt E) db j k" by metis
  have "dbLoses E n db db'" using assms(3) db' by (auto simp: dbLoses_def)
  then show ?thesis
    using assms m db'(1) by (intro that [of m db']) (simp_all add: clearBucket_def Let_def)
qed

lemma clearBucket_done:
  assumes "bolt_ok (ceBolt E)" "dbOk E db" "clearBucket E n (db, p) = TxDone (db', p')"
  obtains m where "metaOf E db n = Some m" "dbLoses E n db db'"
    "p' = UpdateCachePagesCount (- 1) (IncrementSize (- pmSize m) p)"
proof -
  have bucket: "txBucket (ceBolt E) db n"
    using assms(3) by (auto simp: clearBucket_def Let_def split: if_splits)
  have disk: "checkDisk E n (cpFs p) = None"
    using assms(3) by (auto simp: clearBucket_def Let_def split: if_splits option.splits sum.splits)
  from clearBucket_ok [OF assms(1) dbOk_bucket [OF assms(2) bucket] bucket disk] assms(3) that
  show ?thesis by auto
qed

text \<open>What clearing takes off the counters is what it takes out of the database.\<close>

lemma clearBuckets_done:
  assumes "bolt_ok (ceBolt E)"
  shows "dbOk E db \<Longrightarrow> forEach (clearBucket E) ns (db, p) = TxDone (db', p') \<Longrightarrow>
    dbOk E db' \<and> cpFs p' = cpFs p \<and> cpCleaner p' = cpCleaner p \<and>
    Size p' - dbSize E db' = Size p - dbSize E db \<and> gaugePages p' - buckets E db' = gaugePages p - buckets E db \<and>
    (\<forall>n. txBucket (ceBolt E) db' n \<longleftrightarrow> txBucket (ceBolt E) db n \<and> n \<notin> set ns) \<and>
    (\<forall>n k. n \<notin> set ns \<longrightarrow> txGet (ceBolt E) db' n k = txGet (ceBolt E) db n k)"
proof (induction ns arbitrary: db p)
  case Nil
  then show ?case by simp
next
  case (Cons n ns)
  then obtain db1 p1 where 1: "clearBucket E n (db, p) = TxDone (db1, p1)"
    and 2: "forEach (clearBucket E) ns (db1, p1) = TxDone (db', p')"
    by (auto split: txRes.splits)
  from clearBucket_done [OF assms Cons.prems(1) 1] obtain m where
    c: "metaOf E db n = Some m" "dbLoses E n db db1" "p1 = UpdateCachePagesCount (- 1) (IncrementSize (- pmSize m) p)" .
  have sizes: "Size p1 - dbSize E db1 = Size p - dbSize E db" "gaugePages p1 - buckets E db1 = gaugePages p - buckets E db"
    using dbOk_loses [OF assms Cons.prems(1) c(2)] dbSize_loses [OF assms c(2)] c(1,3)
    by (simp_all add: metaSize_def)
  have "dbOk E db1" using dbOk_loses [OF assms Cons.prems(1) c(2)] by simp
  from Cons.IH [OF this 2] sizes c(2,3) show ?case by (auto simp: dbLoses_def)
qed

text \<open>The pages before one that is missing from the disk are counted down for nothing.\<close>

lemma clearBuckets_stops:
  assumes "bolt_ok (ceBolt E)"
  shows "dbOk E db \<Longrightarrow> distinct (xs @ [y]) \<Longrightarrow>
      \<forall>n \<in> set (xs @ [y]). txBucket (ceBolt E) db n \<Longrightarrow>
      \<forall>n \<in> set xs. checkDisk E n (cpFs p) = None \<Longrightarrow> checkDisk E y (cpFs p) = Some e \<Longrightarrow>
    \<exists>db' p'. forEach (clearBucket E) (xs @ y # zs) (db, p) = TxErr e (db', p') \<and>
      Size p' = Size p - sum_list (map (metaSize E db) xs)"
proof (induction xs arbitrary: db p)
  case Nil
  then have "bucketOk E db y" by (simp add: dbOk_def)
  from decodeMeta_ok [OF this] obtain m v where "txGet (ceBolt E) db y pageMetadataKey = Some v"
    "decodeMeta E (Some v) = Inr m" by metis
  with Nil show ?case by (simp add: clearBucket_def Let_def)
next
  case (Cons x xs)
  have bucket: "txBucket (ceBolt E) db x" and disk: "checkDisk E x (cpFs p) = None"
    using Cons.prems by auto
  have ok: "bucketOk E db x" by (rule dbOk_bucket [OF Cons.prems(1) bucket])
  from clearBucket_ok [OF assms ok bucket disk] obtain m db1 where
    m: "metaOf E db x = Some m" and c: "dbLoses E x db db1"
    and 1: "clearBucket E x (db, p) = TxDone (db1, UpdateCachePagesCount (- 1) (IncrementSize (- pmSize m) p))" .
  let ?p1 = "UpdateCachePagesCount (- 1) (IncrementSize (- pmSize m) p)"
  have same: "metaSize E db1 n = metaSize E db n" if "n \<in> set xs" for n
  proof (rule metaSize_cong)
    have "n \<noteq> x" using that Cons.prems(2) by auto
    then show "txGet (ceBolt E) db1 n k = txGet (ceBolt E) db n k" for k
      using c by (simp add: dbLoses_def)
  qed
  have "\<forall>n \<in> set (xs @ [y]). txBucket (ceBolt E) db1 n"
    using c Cons.prems(2,3) by (auto simp: dbLoses_def)
  then have "\<exists>db' p'. forEach (clearBucket E) (xs @ y # zs) (db1, ?p1) = TxErr e (db', p') \<and>
      Size p' = Size ?p1 - sum_list (map (metaSize E db1) xs)"
    using Cons.IH [of db1 ?p1] dbOk_loses [OF assms Cons.prems(1) c] Cons.prems(2,4,5) by simp
  moreover have "map (metaSize E db1) xs = map (metaSize E db) xs" using same by simp
  ultimately show ?case using 1 m by (auto simp: metaSize_def [of E db x] diff_diff_eq)
qed

lemma clearBucket_fs:
  "case clearBucket E n (db, p) of
     TxDone (_, p') \<Rightarrow> cpFs p' = cpFs p
   | TxErr _ (_, p') \<Rightarrow> cpFs p' = cpFs p
   | TxPanic _ \<Rightarrow> True"
  by (auto simp: clearBucket_def Let_def split: txRes.split option.split sum.split prod.split)

lemma clearBuckets_fs:
  "case forEach (clearBucket E) ns (db, p) of
     TxDone (_, p') \<Rightarrow> cpFs p' = cpFs p
   | TxErr _ (_, p') \<Rightarrow> cpFs p' = cpFs p
   | TxPanic _ \<Rightarrow> True"
proof (induction ns arbitrary: db p)
  case Nil
  then show ?case by simp
next
  case (Cons n ns)
  note first = clearBucket_fs [of p E n db]
  show ?case
  proof (cases "clearBucket E n (db, p)")
    case (TxDone st)
    obtain db1 p1 where st: "st = (db1, p1)" by (rule prod.exhaust)
    with first TxDone have "cpFs p1 = cpFs p" by simp
    with Cons.IH [of p1 db1] TxDone st show ?thesis by (auto split: txRes.splits)
  qed (use first in auto)
qed

lemma visited_fs: "cpFs (visited E ns (db, p)) = cpFs p"
proof (induction ns arbitrary: db p)
  case (Cons n ns)
  with clearBucket_fs [of p E n db] show ?case
    by (cases "clearBucket E n (db, p)") auto
qed simp

text \<open>The transaction of a clearing: it takes out what it visited and keeps the accounts, or leaves the
  database as it was.\<close>

lemma clearTx_cases:
  assumes "bolt_ok (ceBolt E)" "dbOk E (cpDb p)"
  obtains (cleared) p1 db' where "clearTx E visit p = (TxDone p1, db')" "dbOk E db'"
      "cpFs p1 = cpFs p" "cpCleaner p1 = cpCleaner p"
      "Size p1 - dbSize E db' = Size p - dbSize E (cpDb p)"
      "gaugePages p1 - buckets E db' = gaugePages p - buckets E (cpDb p)"
      "\<And>n. txBucket (ceBolt E) db' n \<longleftrightarrow> txBucket (ceBolt E) (cpDb p) n \<and> n \<notin> set visit"
      "\<And>n k. n \<notin> set visit \<Longrightarrow> txGet (ceBolt E) db' n k = txGet (ceBolt E) (cpDb p) n k"
    | (failed) e p1 where "clearTx E visit p = (TxErr e p1, cpDb p)"
    | (panicked) m where "clearTx E visit p = (TxPanic m, cpDb p)"
proof -
  let ?fn = "\<lambda>db. case forEach (clearBucket E) visit (db, p) of
                TxDone (db, p) \<Rightarrow> (TxDone p, db)
              | TxErr e (db, p) \<Rightarrow> (TxErr e p, db)
              | TxPanic m \<Rightarrow> (TxPanic m, db)"
  show ?thesis
  proof (cases rule: boltUpdate_cases [of "ceBolt E" p ?fn "cpDb p"])
    case (commit p1 db')
    then have "forEach (clearBucket E) visit (cpDb p, p) = TxDone (db', p1)"
      by (auto split: txRes.splits prod.splits)
    from clearBuckets_done [OF assms this] commit(1) show ?thesis
      by (intro that(1) [of p1 db']) (simp_all add: clearTx_def)
  next
    case (rollback e p1)
    then show ?thesis by (intro that(2)) (simp add: clearTx_def)
  next
    case (unwind m)
    then show ?thesis by (intro that(3)) (simp add: clearTx_def)
  qed
qed

lemma clearTx_fs:
  "case fst (clearTx E visit p) of
     TxDone p' \<Rightarrow> cpFs p' = cpFs p
   | TxErr e p' \<Rightarrow> cpFs p' = cpFs p
   | TxPanic m \<Rightarrow> True"
  using clearBuckets_fs [of p E visit "cpDb p"]
  by (auto simp: clearTx_def boltUpdate.simps split: txRes.splits prod.splits option.split)

text \<open>A clearing that fails leaves the counters as they were only when it fails before the first page.\<close>

definition clearsWhole :: "'db cacheEnv \<Rightarrow> bytes list \<Rightarrow> 'db CachingProperties \<Rightarrow> bool" where
  "clearsWhole E visit p =
     (case fst (clearTx E visit p) of
        TxDone p' \<Rightarrow> True
      | TxErr e p' \<Rightarrow> Size p' = Size p \<and> gaugePages p' = gaugePages p
      | TxPanic m \<Rightarrow> False)"

lemma metaOf_removed: "cache_ok E p \<Longrightarrow> bolt_ok (ceBolt E) \<Longrightarrow> txBucket (ceBolt E) (cpDb p) n \<Longrightarrow>
    \<exists>m. metaOf E (cpDb p) n = Some m"
  by (auto simp: cache_ok_alt bucketOk_def)

section \<open>The operations of the cache as one machine\<close>

lemma cache_ok_removeExpired:
  assumes "bolt_ok (ceBolt E)"
  shows "cache_ok E p \<Longrightarrow> cache_ok E (snd (removeWhileExceeded E items sz p))"
proof (induction items arbitrary: sz p)
  case Nil
  then show ?case by simp
next
  case (Cons it items)
  obtain key u where it: "it = (key, u)" by (cases it)
  obtain r p1 where 1: "RemovePageFromCache E key p = (r, p1)" by force
  then have "cache_ok E p1" using cache_ok_Remove [OF assms Cons.prems, of key] by simp
  with Cons 1 it show ?case by (cases r) auto
qed

lemma cache_ok_LRU:
  assumes "bolt_ok (ceBolt E)" "cache_ok E p"
  shows "cache_ok E (snd (deletePagesLRU E p))"
proof -
  have *: "snd (nullSizeOr rp) = snd rp" for rp :: "int64 res \<times> 'a CachingProperties"
    by (auto simp: nullSizeOr_def split: prod.split res.split)
  show ?thesis using assms cache_ok_removeExpired [OF assms]
    by (auto simp: deletePagesLRU_def * split: txRes.split)
qed

lemma cache_ok_tick:
  assumes "bolt_ok (ceBolt E)" "cache_ok E p"
  shows "cache_ok E (snd (observeTick E clk p))"
proof -
  obtain e where "deleteExpiredCache E clk p = (Err e, p)"
    using deleteExpiredCache_nothing [OF assms(1)] by blast
  moreover obtain r p' where "deletePagesLRU E p = (r, p')" by force
  moreover from this have "cache_ok E p'" using cache_ok_LRU [OF assms] by simp
  ultimately show ?thesis using assms(2) by (auto simp: observeTick_def split: res.split)
qed

text \<open>One operation of the running cache with its arguments.\<close>

datatype cacheEvent =
    EvInsert "nat \<Rightarrow> nat \<Rightarrow> time" bytes request response Page
  | EvGet "nat \<Rightarrow> time" time time bytes request
  | EvRemove bytes
  | EvTick "nat \<Rightarrow> time"
  | EvClear "bytes list"

fun cacheStep :: "'db cacheEnv \<Rightarrow> cacheEvent \<Rightarrow> 'db CachingProperties \<Rightarrow> 'db CachingProperties" where
  "cacheStep E (EvInsert clk key req resp page) p = snd (InsertPageInCache E clk key req resp page p)"
| "cacheStep E (EvGet clk t1 t2 key req) p = snd (snd (GetPageFromCache E clk t1 t2 key req p))"
| "cacheStep E (EvRemove key) p = snd (RemovePageFromCache E key p)"
| "cacheStep E (EvTick clk) p = snd (observeTick E clk p)"
| "cacheStep E (EvClear visit) p = snd (ClearCache E visit p)"

fun eventOk :: "cacheEvent \<Rightarrow> bool" where
  "eventOk (EvInsert clk key req resp page) = diskKey key"
| "eventOk (EvGet clk t1 t2 key req) = True"
| "eventOk (EvRemove key) = True"
| "eventOk (EvTick clk) = True"
| "eventOk (EvClear visit) = True"

text \<open>The events that keep the accounts: all but clearings that fail half-way.\<close>

fun whole :: "'db cacheEnv \<Rightarrow> cacheEvent \<Rightarrow> 'db CachingProperties \<Rightarrow> bool" where
  "whole E (EvClear visit) p = clearsWhole E visit p"
| "whole E _ p = True"

lemma cache_ok_clear:
  assumes "bolt_ok (ceBolt E)" "cache_ok E p" "clearsWhole E visit p"
  shows "cache_ok E (snd (ClearCache E visit p))"
proof -
  have ok: "dbOk E (cpDb p)" "Size p = dbSize E (cpDb p)" using assms(2) by (simp_all add: cache_ok_dbOk [OF assms(1)])
  from clearTx_cases [OF assms(1) ok(1), of visit] show ?thesis
    by cases (use ok assms(3) in
      \<open>auto simp: ClearCache_def clearsWhole_def cache_ok_dbOk [OF assms(1)] split: option.split prod.split\<close>)
qed

interpretation cache_run: invariant_machine "cacheStep E" "\<lambda>e p. eventOk e \<and> whole E e p"
    "\<lambda>p. env_ok E \<and> cache_ok E p" for E
proof
  fix e p
  assume "eventOk e \<and> whole E e p" "env_ok E \<and> cache_ok E p"
  then show "env_ok E \<and> cache_ok E (cacheStep E e p)"
    by (cases e) (auto simp: env_okD cache_ok_Insert cache_ok_Get cache_ok_Remove cache_ok_tick cache_ok_clear)
qed

end
