(* ===== verification/RefEnv.thy ===== *)
theory RefEnv
  imports CacheStore RefBolt
begin

text \<open>
  A concrete environment for the page cache: the association-list database of \<open>RefBolt\<close>, a text
  encoding of pages and metadata that satisfies the laws asked of \<open>encoding/json\<close>, a stand-in
  for SHA-1 of the right length, and insertion sort. The theorems that assume such an
  environment are applied to it by their witnesses.
\<close>

section \<open>Numbers and bytes as text\<close>

definition decimal :: "string \<Rightarrow> nat" where
  "decimal s = fold (\<lambda>c n. 10 * n + digitVal c) s 0"

lemma decimal_goItoa [simp]: "decimal (goItoa n) = n"
proof (induction n rule: goItoa.induct)
  case (1 n)
  show ?case
  proof (cases "n < 10")
    case True
    then show ?thesis by (simp add: goItoa_small decimal_def)
  next
    case False
    with 1 have "decimal (goItoa n) = 10 * (n div 10) + digitVal (digitChar (n mod 10))"
      by (subst goItoa.simps) (simp add: decimal_def)
    then show ?thesis by simp
  qed
qed

lemma length_goItoa: "n < 10 ^ Suc k \<Longrightarrow> length (goItoa n) \<le> Suc k"
proof (induction k arbitrary: n)
  case 0
  then show ?case by (simp add: goItoa_small)
next
  case (Suc k)
  show ?case
  proof (cases "n < 10")
    case True
    then show ?thesis by (simp add: goItoa_small)
  next
    case False
    have "n div 10 < 10 ^ Suc k" using Suc.prems by (simp add: less_mult_imp_div_less)
    from Suc.IH [OF this] False show ?thesis by (subst goItoa.simps) simp
  qed
qed

lemma goItoa_code: "c \<in> set (goItoa n) \<Longrightarrow> 48 \<le> (of_char c :: nat) \<and> (of_char c :: nat) \<le> 57"
  using goItoa_digits by (auto simp: isDigit_def)

definition hexVal :: "char \<Rightarrow> nat" where
  "hexVal c = (let n = of_char c in if n < 58 then n - 48 else n - 87)"

fun hexDecode :: "string \<Rightarrow> bytes" where
  "hexDecode (a # b # cs) = char_of (16 * hexVal a + hexVal b) # hexDecode cs"
| "hexDecode _ = []"

lemma hexVal_hexDigit: "d < 16 \<Longrightarrow> hexVal (hexDigit d) = d"
  by (simp add: hexVal_def hexDigit_code)

lemma hexDecode_hexEncode [simp]: "hexDecode (hexEncode bs) = bs"
proof (induction bs)
  case Nil
  then show ?case by (simp add: hexEncode_def)
next
  case (Cons b bs)
  have "(of_char b :: nat) div 16 < 16"
    using of_char_less_256 [of b] by (simp add: less_mult_imp_div_less)
  with Cons show ?case by (simp add: hexEncode_def hexVal_hexDigit)
qed

text \<open>Lists as terminated items.\<close>

definition terminated :: "char \<Rightarrow> string list \<Rightarrow> string" where
  "terminated c xs = concat (map (\<lambda>x. x @ [c]) xs)"

definition unterminate :: "char \<Rightarrow> string \<Rightarrow> string list" where
  "unterminate c s = butlast (splitOn c s)"

lemma unterminate_terminated:
  "\<forall>x \<in> set xs. c \<notin> set x \<Longrightarrow> unterminate c (terminated c xs) = xs"
  unfolding unterminate_def
  by (induction xs) (auto simp: terminated_def splitOn_append)

lemma set_terminated: "d \<in> set (terminated c xs) \<Longrightarrow> d = c \<or> (\<exists>x \<in> set xs. d \<in> set x)"
  by (auto simp: terminated_def split: if_splits)

section \<open>The encodings\<close>

definition flag :: "bool \<Rightarrow> string" where
  "flag b = (if b then ''1'' else ''0'')"

definition refMarshalMeta :: "PageMetadata \<Rightarrow> goerror + bytes" where
  "refMarshalMeta m =
     (if \<not> jsonMeta m then Inl (ErrMsg ''year outside of range [0,9999]'')
      else let d = pmResponseDirectives m in
        Inr (terminated CHR ''/''
          ([goItoa (unat (pmSize m)), goItoa (nat (rsMaxAge d)), goItoa (nat (rsSMaxAge d))] @
           map flag [rsMustRevalidate d, rsNoCache d, rsNoStore d, rsNoTransform d, rsPrivate d,
                     rsProxyRevalidate d])))"

definition refUnmarshalMeta :: "bytes \<Rightarrow> goerror + PageMetadata option" where
  "refUnmarshalMeta s =
     (case unterminate CHR ''/'' s of
        [sz, a, b, f1, f2, f3, f4, f5, f6] \<Rightarrow>
          Inr (Some
            \<lparr>pmSize = of_nat (decimal sz),
             pmResponseDirectives =
               \<lparr>rsMustRevalidate = (f1 = ''1''), rsNoCache = (f2 = ''1''), rsNoStore = (f3 = ''1''),
                rsNoTransform = (f4 = ''1''), rsPrivate = (f5 = ''1''), rsProxyRevalidate = (f6 = ''1''),
                rsMaxAge = int (decimal a), rsSMaxAge = int (decimal b)\<rparr>\<rparr>)
      | _ \<Rightarrow> Inl (ErrMsg ''unexpected end of JSON input''))"

definition refMarshalPage :: "Page \<Rightarrow> goerror + bytes" where
  "refMarshalPage p =
     Inr (hexEncode (pageBody p) @ ''.'' @
       terminated CHR ''/''
         (map (\<lambda>(k, vs). hexEncode k @ ''-'' @ terminated CHR '','' (map hexEncode vs)) (pageHeader p)))"

definition refUnmarshalPage :: "bytes \<Rightarrow> goerror + Page" where
  "refUnmarshalPage s =
     (case splitOn CHR ''.'' s of
        [body, h] \<Rightarrow>
          Inr \<lparr>pageBody = hexDecode body,
               pageHeader =
                 map (\<lambda>e. (hexDecode (hd (splitOn CHR ''-'' e)),
                           map hexDecode (unterminate CHR '','' (last (splitOn CHR ''-'' e)))))
                   (unterminate CHR ''/'' h)\<rparr>
      | _ \<Rightarrow> Inl (ErrMsg ''unexpected end of JSON input''))"

definition refCodec :: codec where
  "refCodec =
     \<lparr>marshalPage = refMarshalPage, unmarshalPage = refUnmarshalPage,
      marshalMeta = refMarshalMeta, unmarshalMeta = refUnmarshalMeta\<rparr>"

lemma refCodec_simps [simp]:
  "marshalPage refCodec = refMarshalPage" "unmarshalPage refCodec = refUnmarshalPage"
  "marshalMeta refCodec = refMarshalMeta" "unmarshalMeta refCodec = refUnmarshalMeta"
  by (simp_all add: refCodec_def)

lemma separator_fresh:
  assumes "(of_char c :: nat) < 48"
  shows "c \<notin> set (hexEncode s)" and "c \<notin> set (goItoa n)" and "c \<notin> set (flag b)"
  using assms hexEncode_codes [of c s] goItoa_code [of c n] by (auto simp: flag_def)

lemma refMeta_roundtrip:
  assumes "refMarshalMeta m = Inr v"
  shows "refUnmarshalMeta v = Inr (Some m)"
proof -
  let ?d = "pmResponseDirectives m"
  let ?xs = "[goItoa (unat (pmSize m)), goItoa (nat (rsMaxAge ?d)), goItoa (nat (rsSMaxAge ?d))] @
    map flag [rsMustRevalidate ?d, rsNoCache ?d, rsNoStore ?d, rsNoTransform ?d, rsPrivate ?d,
      rsProxyRevalidate ?d]"
  have times: "0 \<le> rsMaxAge ?d" "0 \<le> rsSMaxAge ?d" and v: "v = terminated CHR ''/'' ?xs"
    using assms by (auto simp: refMarshalMeta_def jsonMeta_def jsonTime_def Let_def split: if_splits)
  have "unterminate CHR ''/'' v = ?xs"
    unfolding v by (rule unterminate_terminated) (simp add: separator_fresh)
  then show ?thesis
    using times by (simp add: refUnmarshalMeta_def flag_def)
qed

lemma refMeta_length:
  assumes "refMarshalMeta m = Inr v"
  shows "length v \<le> maxValueSize"
proof -
  let ?d = "pmResponseDirectives m"
  have "goDate 10000 1 1 < 10 ^ 21"
    by (simp add: goDate_def monthDays_def leapYear_def nsPerSec_def)
  then have "nat (rsMaxAge ?d) < 10 ^ Suc 20" "nat (rsSMaxAge ?d) < 10 ^ Suc 20"
    using assms by (auto simp: refMarshalMeta_def jsonMeta_def jsonTime_def split: if_splits)
  moreover have "unat (pmSize m) < 10 ^ Suc 20"
    using unsigned_less [of "pmSize m", where ?'a = nat] by simp
  ultimately have "length (goItoa (nat (rsMaxAge ?d))) \<le> Suc 20"
      "length (goItoa (nat (rsSMaxAge ?d))) \<le> Suc 20" "length (goItoa (unat (pmSize m))) \<le> Suc 20"
    by (metis length_goItoa)+
  moreover have "length (flag b) = 1" for b by (simp add: flag_def)
  ultimately have "length v \<le> 100"
    using assms by (auto simp: refMarshalMeta_def Let_def terminated_def split: if_splits)
  then show ?thesis by (simp add: maxValueSize_def)
qed

lemma refPage_roundtrip:
  assumes "refMarshalPage p = Inr v"
  shows "refUnmarshalPage v = Inr p" and "CHR 0x00 \<notin> set v"
proof -
  let ?entry = "\<lambda>(k, vs). hexEncode k @ ''-'' @ terminated CHR '','' (map hexEncode vs)"
  let ?h = "terminated CHR ''/'' (map ?entry (pageHeader p))"
  have v: "v = hexEncode (pageBody p) @ CHR ''.'' # ?h"
    using assms by (simp add: refMarshalPage_def)
  have vals: "c \<notin> set (terminated CHR '','' (map hexEncode vs))"
    if "(of_char c :: nat) < 48" "c \<noteq> CHR '',''" for c vs
    using that set_terminated [of c "CHR '',''" "map hexEncode vs"] by (auto simp: separator_fresh)
  have entries: "c \<notin> set (?entry e)" if "(of_char c :: nat) < 48" "c \<notin> {CHR '','', CHR ''-''}" for c e
    using that vals [of c] by (auto simp: separator_fresh split: prod.split)
  have header: "c \<notin> set ?h" if "(of_char c :: nat) < 48" "c \<notin> {CHR '','', CHR ''-'', CHR ''/''}" for c
    using that entries [of c] set_terminated [of c "CHR ''/''" "map ?entry (pageHeader p)"] by auto
  have parts: "splitOn CHR ''.'' v = [hexEncode (pageBody p), ?h]"
    unfolding v using header [of "CHR ''.''"]
    by (simp add: splitOn_append separator_fresh splitOn_no_sep)
  have split_entry: "splitOn CHR ''-'' (?entry (k, vs)) = [hexEncode k, terminated CHR '','' (map hexEncode vs)]"
    for k vs
    using vals [of "CHR ''-''" vs] by (simp add: splitOn_append separator_fresh splitOn_no_sep)
  have vals_back: "unterminate CHR '','' (terminated CHR '','' (map hexEncode vs)) = map hexEncode vs" for vs
    by (rule unterminate_terminated) (simp add: separator_fresh)
  have "unterminate CHR ''/'' ?h = map ?entry (pageHeader p)"
    using entries [of "CHR ''/''"] by (intro unterminate_terminated) auto
  moreover have "map (\<lambda>e. (hexDecode (hd (splitOn CHR ''-'' e)),
      map hexDecode (unterminate CHR '','' (last (splitOn CHR ''-'' e))))) (map ?entry (pageHeader p)) =
    pageHeader p"
    unfolding map_map
  proof (rule map_idI)
    fix e :: "string \<times> string list"
    obtain k vs where "e = (k, vs)" by (cases e)
    then show "((\<lambda>e. (hexDecode (hd (splitOn CHR ''-'' e)),
        map hexDecode (unterminate CHR '','' (last (splitOn CHR ''-'' e))))) \<circ> ?entry) e = e"
      using split_entry [of k vs] vals_back [of vs] by (simp add: comp_def)
  qed
  ultimately show "refUnmarshalPage v = Inr p"
    using parts by (simp add: refUnmarshalPage_def)
  show "CHR 0x00 \<notin> set v"
    unfolding v using header [of "CHR 0x00"] by (simp add: separator_fresh)
qed

lemma codec_ok_ref: "codec_ok refCodec"
proof -
  have "\<exists>v. refMarshalPage p = Inr v" for p by (simp add: refMarshalPage_def)
  moreover have "\<exists>v. refMarshalMeta m = Inr v" if "jsonMeta m" for m
    using that by (simp add: refMarshalMeta_def Let_def)
  moreover have "CHR 0x00 \<notin> set v" if "refMarshalPage p = Inr v" for p v
    using that by (rule refPage_roundtrip)
  ultimately show ?thesis
    by (auto simp: codec_ok_def refPage_roundtrip(1) refMeta_roundtrip refMeta_length)
qed

section \<open>The environment\<close>

text \<open>The last 20 bytes of the input, padded: of the right length, and enough for witnesses.\<close>

definition refSha1 :: "bytes \<Rightarrow> bytes" where
  "refSha1 s = take 20 (rev s @ replicate 20 (CHR 0x00))"

definition refSort :: "(bytes \<times> uint32) list \<Rightarrow> (bytes \<times> uint32) list" where
  "refSort xs = sort_key snd xs"

definition refEnv :: "refDb cacheEnv" where
  "refEnv = \<lparr>ceBolt = refBolt, ceCodec = refCodec, ceOs = noFaults, ceSha1 = refSha1, ceSort = refSort\<rparr>"

lemma refEnv_simps [simp]:
  "ceBolt refEnv = refBolt" "ceCodec refEnv = refCodec" "ceOs refEnv = noFaults"
  "ceSha1 refEnv = refSha1" "ceSort refEnv = refSort"
  by (simp_all add: refEnv_def)

lemma env_ok_ref: "env_ok refEnv"
  by (simp add: env_ok_def bolt_ok_ref codec_ok_ref refSha1_def min_def)

text \<open>Sample values for the witnesses.\<close>

definition refKey :: "char \<Rightarrow> bytes" where
  "refKey c = replicate 40 c"

definition refRequest :: "string \<Rightarrow> header \<Rightarrow> request" where
  "refRequest method h =
     \<lparr>reqMethod = method, reqProto = ''HTTP/1.1'', reqHost = ''example.org'', reqURI = ''/a'',
      reqURL = \<lparr>urlScheme = [], urlHost = [], urlRest = ''/a''\<rparr>, reqHeader = h, reqBody = [],
      reqBodyClosed = False,
      ctxHash = None, ctxOnlyIfCached = None, ctxUser = None\<rparr>"

definition refResponse :: "nat \<Rightarrow> header \<Rightarrow> bytes \<Rightarrow> response" where
  "refResponse status h body = \<lparr>respStatus = status, respHeader = h, respBody = body\<rparr>"

definition refPage :: "bytes \<Rightarrow> Page" where
  "refPage body = \<lparr>pageBody = body, pageHeader = []\<rparr>"

definition refCache :: "int64 \<Rightarrow> refDb CachingProperties" where
  "refCache maxSize = NewCachingProperties [] [] (NewCacheCleaner maxSize 8106479329266893)"

lemma refKey_diskKey [simp]: "c \<noteq> CHR ''/'' \<Longrightarrow> diskKey (refKey c)"
  by (simp add: refKey_def diskKey_def hashLength_def)

lemma cache_ok_refCache [simp]: "cache_ok refEnv (refCache maxSize)"
  by (simp add: cache_ok_def dbSize_def refCache_def NewCachingProperties_def refNames_def)

lemma tree_ok_refCache [simp]: "tree_ok (cpFs (refCache maxSize))"
  by (simp add: refCache_def NewCachingProperties_def tree_ok_def)

lemma refRequest_simps [simp]:
  "reqMethod (refRequest m h) = m" "reqHeader (refRequest m h) = h"
  "respStatus (refResponse s h b) = s" "respHeader (refResponse s h b) = h"
  "respBody (refResponse s h b) = b" "pageBody (refPage b) = b" "pageHeader (refPage b) = []"
  by (simp_all add: refRequest_def refResponse_def refPage_def)

end
