(* ===== verification/CacheProps.thy ===== *)
theory CacheProps
  imports Cleaner RefEnv
begin

text \<open>
  The properties of the page cache: its contents as a map from keys to metadata and what each
  operation does to it, the accounts, what a lookup returns after an insertion, the cleaner.
  The hypotheses about the environment are \<open>env_ok\<close> (the documented behaviour of bolt, of JSON
  and of SHA-1's length), \<open>bolt_live\<close> (transactions open and commit) and \<open>noFaults\<close> (the
  operating system fails no call for a reason of its own); \<open>refEnv\<close> satisfies them.
\<close>

section \<open>The cache as a map\<close>

definition cacheMap :: "'db cacheEnv \<Rightarrow> 'db \<Rightarrow> bytes \<Rightarrow> PageMetadata option" where
  "cacheMap E db n = (if txBucket (ceBolt E) db n then metaOf E db n else None)"

lemma cacheMap_gains:
  assumes "dbGains E key m db db'"
  shows "cacheMap E db' = (cacheMap E db)(key \<mapsto> m)" and "cacheMap E db key = None"
proof -
  have "metaOf E db' n = metaOf E db n" if "n \<noteq> key" for n
    using assms that by (intro metaOf_cong) (simp add: dbGains_def)
  then show "cacheMap E db' = (cacheMap E db)(key \<mapsto> m)"
    using assms by (auto simp: cacheMap_def dbGains_def fun_eq_iff)
  show "cacheMap E db key = None" using assms by (simp add: cacheMap_def dbGains_def)
qed

lemma cacheMap_loses:
  assumes "dbLoses E key db db'"
  shows "cacheMap E db' = (cacheMap E db)(key := None)"
proof -
  have "metaOf E db' n = metaOf E db n" if "n \<noteq> key" for n
    using assms that by (intro metaOf_cong) (simp add: dbLoses_def)
  then show ?thesis using assms by (auto simp: cacheMap_def dbLoses_def fun_eq_iff)
qed

lemma cacheMap_counts: "dbCounts E key db db' \<Longrightarrow> cacheMap E db' = cacheMap E db"
  using metaOf_counts [of E key db db'] by (auto simp: cacheMap_def fun_eq_iff dbCounts_def)

lemma cacheMap_removeMeta:
  assumes "bolt_ok (ceBolt E)" "cache_ok E p"
  shows "cacheMap E (cpDb (snd (removePageMetadata E key p))) \<in>
    {cacheMap E (cpDb p), (cacheMap E (cpDb p))(key := None)}"
  by (rule removeMeta_cases [OF assms, of key]) (auto simp: cacheMap_loses)

lemma cacheMap_getMeta:
  assumes "bolt_ok (ceBolt E)" "cache_ok E p"
  shows "cacheMap E (cpDb (snd (getPageMetadata E key p))) = cacheMap E (cpDb p)"
  by (rule getMeta_cases [OF assms, of key]) (auto simp: cacheMap_counts)

lemma cacheMap_Remove:
  assumes "bolt_ok (ceBolt E)" "cache_ok E p"
  shows "cacheMap E (cpDb (snd (RemovePageFromCache E key p))) \<in>
    {cacheMap E (cpDb p), (cacheMap E (cpDb p))(key := None)}"
  using cacheMap_removeMeta [OF assms, of key]
  by (auto simp: RemovePageFromCache_def split: prod.splits res.splits unit.splits)

lemma cacheMap_removeWhile:
  assumes "bolt_ok (ceBolt E)"
  shows "cache_ok E p \<Longrightarrow>
    \<exists>S. cacheMap E (cpDb (snd (removeWhileExceeded E items sz p))) = cacheMap E (cpDb p) |` S"
proof (induction items arbitrary: sz p)
  case Nil
  then show ?case by (intro exI [of _ UNIV]) (simp add: restrict_map_def)
next
  case (Cons it items)
  obtain key u where it: "it = (key, u)" by (cases it)
  obtain r p1 where 1: "RemovePageFromCache E key p = (r, p1)" by force
  have ok: "cache_ok E p1" using cache_ok_Remove [OF assms Cons.prems, of key] 1 by simp
  have "\<exists>T. cacheMap E (cpDb p1) = cacheMap E (cpDb p) |` T"
  proof -
    have "(cacheMap E (cpDb p))(key := None) = cacheMap E (cpDb p) |` (- {key})"
      by (auto simp: restrict_map_def)
    moreover have "cacheMap E (cpDb p) = cacheMap E (cpDb p) |` UNIV" by (simp add: restrict_map_def)
    ultimately show ?thesis using cacheMap_Remove [OF assms Cons.prems, of key] 1
      by (metis empty_iff insert_iff snd_conv)
  qed
  then obtain T where T: "cacheMap E (cpDb p1) = cacheMap E (cpDb p) |` T" ..
  have id: "\<exists>S. cacheMap E (cpDb p) = cacheMap E (cpDb p) |` S"
    by (intro exI [of _ UNIV]) (simp add: restrict_map_def)
  have IH: "\<exists>S. cacheMap E (cpDb (snd (removeWhileExceeded E items sz' p1))) = cacheMap E (cpDb p) |` S"
    for sz'
    using Cons.IH [OF ok, of sz'] T by (metis restrict_restrict)
  show ?case using 1 it id IH T by (cases r) auto
qed

section \<open>Inserting a page\<close>

text \<open>The conditions under which \<open>InsertPageInCache\<close> tries to store.\<close>

definition fits :: "'db CachingProperties \<Rightarrow> Page \<Rightarrow> bool" where
  "fits p page \<longleftrightarrow>
     sint (Size p + of_nat (length (pageBody page))) \<le> sint (maxFileSize (cpCleaner p))"

definition storable :: "request \<Rightarrow> response \<Rightarrow> bool" where
  "storable req resp \<longleftrightarrow>
     reqMethod req = ''GET'' \<and>
     ''no-store'' \<notin> set (cacheControlPieces (reqHeader req)) \<and>
     ''no-store'' \<notin> set (cacheControlPieces (respHeader resp)) \<and>
     ''private'' \<notin> set (cacheControlPieces (respHeader resp))"

definition newMeta :: "(nat \<Rightarrow> nat \<Rightarrow> time) \<Rightarrow> response \<Rightarrow> Page \<Rightarrow> PageMetadata" where
  "newMeta clk resp page = createCacheInfo (clk 2) resp (of_nat (length (pageBody page)))"

lemma InsertPage_refused:
  "\<not> (fits p page \<and> storable req resp) \<Longrightarrow>
     \<exists>e. InsertPageInCache E clk key req resp page p = (Err e, p)"
  by (auto simp: InsertPageInCache_def Let_def fits_def storable_def directive_flags)

lemma InsertPage_accepted:
  assumes "fits p page" "storable req resp"
  shows "InsertPageInCache E clk key req resp page p =
    (case insertPageMetadataToDB E key (newMeta clk resp page) p of
       (Err e, p) \<Rightarrow> (Err e, p)
     | (Panic m, p) \<Rightarrow> (Panic m, p)
     | (Ok (), p) \<Rightarrow>
         (case writePageToDisk (ceCodec E) (ceOs E) key page (cpFs p) of
            (None, fs) \<Rightarrow> (Ok (), p\<lparr>cpFs := fs\<rparr>)
          | (Some e, fs) \<Rightarrow>
              (case removePageMetadata E key (p\<lparr>cpFs := fs\<rparr>) of
                 (Panic m, p) \<Rightarrow> (Panic m, p)
               | (_, p) \<Rightarrow> (Err e, p))))"
  using assms
  by (simp add: InsertPageInCache_def Let_def fits_def storable_def directive_flags newMeta_def)

text \<open>An accepted insertion that reports success, in the two cases of the metadata.\<close>

lemma InsertPage_Ok:
  assumes "bolt_ok (ceBolt E)" "codec_ok (ceCodec E)" "diskKey key"
    and "InsertPageInCache E clk key req resp page p = (Ok (), p')"
  obtains (fresh) db' fs' where "dbGains E key (newMeta clk resp page) (cpDb p) db'"
      "writePageToDisk (ceCodec E) (ceOs E) key page (cpFs p) = (None, fs')"
      "p' = UpdateCachePagesCount 1 (IncrementSize (pmSize (newMeta clk resp page)) (p\<lparr>cpDb := db'\<rparr>))
              \<lparr>cpFs := fs'\<rparr>"
      "fits p page" "storable req resp"
    | (present) fs' where "txBucket (ceBolt E) (cpDb p) key"
      "writePageToDisk (ceCodec E) (ceOs E) key page (cpFs p) = (None, fs')" "p' = p\<lparr>cpFs := fs'\<rparr>"
      "fits p page" "storable req resp"
proof -
  have acc: "fits p page" "storable req resp"
    using InsertPage_refused [of p page req resp E clk key] assms(4) by auto
  note unf = assms(4) [unfolded InsertPage_accepted [OF acc]]
  show ?thesis
  proof (rule insertMeta_cases [OF assms(1-3), of "newMeta clk resp page" p])
    fix db'
    assume f: "insertPageMetadataToDB E key (newMeta clk resp page) p =
        (Ok (), UpdateCachePagesCount 1 (IncrementSize (pmSize (newMeta clk resp page)) (p\<lparr>cpDb := db'\<rparr>)))"
      "dbGains E key (newMeta clk resp page) (cpDb p) db'"
    with unf show ?thesis
      by (cases "writePageToDisk (ceCodec E) (ceOs E) key page (cpFs p)")
        (auto intro: fresh [OF f(2) _ _ acc] split: option.splits prod.splits res.splits)
  next
    assume f: "txBucket (ceBolt E) (cpDb p) key"
      "insertPageMetadataToDB E key (newMeta clk resp page) p = (Ok (), p)"
    with unf show ?thesis
      by (cases "writePageToDisk (ceCodec E) (ceOs E) key page (cpFs p)")
        (auto intro: present [OF f(1) _ _ acc] split: option.splits prod.splits res.splits)
  next
    fix e
    assume "insertPageMetadataToDB E key (newMeta clk resp page) p = (Err e, p)"
    with unf show ?thesis by simp
  qed
qed

text \<open>What an insertion can do to the map, whatever its outcome.\<close>

lemma cacheMap_Insert:
  assumes "env_ok E" "diskKey key" "cache_ok E p"
  defines "M \<equiv> cacheMap E (cpDb p)"
  shows "cacheMap E (cpDb (snd (InsertPageInCache E clk key req resp page p))) \<in>
    {M, M(key := None)} \<union>
    (if fits p page \<and> storable req resp \<and> M key = None then {M(key \<mapsto> newMeta clk resp page)} else {})"
proof (cases "fits p page \<and> storable req resp")
  case False
  from InsertPage_refused [OF this] M_def show ?thesis by (metis Un_iff insertI1 snd_conv)
next
  case True
  then have acc: "fits p page" "storable req resp" by auto
  have B: "bolt_ok (ceBolt E)" "codec_ok (ceCodec E)" using assms(1) by (auto simp: env_ok_def)
  let ?m = "newMeta clk resp page"
  obtain r p1 where ins: "insertPageMetadataToDB E key ?m p = (r, p1)" by force
  have ok1: "cache_ok E p1" using cache_ok_insertMeta [OF B assms(2,3), of ?m] ins by simp
  have M1: "cacheMap E (cpDb p1) \<in> {M} \<union> (if M key = None then {M(key \<mapsto> ?m)} else {})"
    by (rule insertMeta_cases [OF B assms(2), of ?m p])
      (use ins in \<open>auto simp: M_def cacheMap_gains\<close>)
  obtain w fs where w: "writePageToDisk (ceCodec E) (ceOs E) key page (cpFs p1) = (w, fs)" by force
  obtain r2 p2 where rm: "removePageMetadata E key (p1\<lparr>cpFs := fs\<rparr>) = (r2, p2)" by force
  have M2: "cacheMap E (cpDb p2) \<in> {cacheMap E (cpDb p1), (cacheMap E (cpDb p1))(key := None)}"
    using cacheMap_removeMeta [OF B(1), of "p1\<lparr>cpFs := fs\<rparr>" key] ok1 rm by simp
  have "cpDb (snd (InsertPageInCache E clk key req resp page p)) \<in> {cpDb p1, cpDb p2}"
    using ins w rm by (auto simp: InsertPage_accepted [OF acc] split: res.split option.split)
  with M1 M2 True show ?thesis by (auto split: if_splits)
qed

lemma cacheMap_tick:
  assumes "bolt_ok (ceBolt E)" "cache_ok E p"
  shows "\<exists>S. cacheMap E (cpDb (snd (observeTick E clk p))) = cacheMap E (cpDb p) |` S"
proof -
  have id: "\<exists>S. cacheMap E (cpDb p) = cacheMap E (cpDb p) |` S"
    by (intro exI [of _ UNIV]) (simp add: restrict_map_def)
  have *: "snd (nullSizeOr rp) = snd rp" for rp :: "int64 res \<times> 'a CachingProperties"
    by (auto simp: nullSizeOr_def split: prod.split res.split)
  have "\<exists>S. cacheMap E (cpDb (snd (deletePagesLRU E p))) = cacheMap E (cpDb p) |` S"
    using id cacheMap_removeWhile [OF assms] by (simp add: deletePagesLRU_def * split: txRes.split)
  moreover obtain e where "deleteExpiredCache E clk p = (Err e, p)"
    using deleteExpiredCache_nothing [OF assms(1)] by blast
  ultimately show ?thesis using id
    by (auto simp: observeTick_def split: res.split prod.split)
qed

section \<open>Specification\<close>

text \<open>What an operation may do to the map: nothing, drop its own key, enter a new page under a key
  that is free (an insertion that fits and may be stored), drop any pages (a tick), drop those that the
  iteration presented or, failing, nothing (a clearing).\<close>

fun cacheSpec ::
  "'db CachingProperties \<Rightarrow> cacheEvent \<Rightarrow> (bytes \<rightharpoonup> PageMetadata) \<Rightarrow> (bytes \<rightharpoonup> PageMetadata) \<Rightarrow> bool" where
  "cacheSpec p (EvInsert clk key req resp page) M M' \<longleftrightarrow>
     M' = M \<or> M' = M(key := None) \<or>
     (M key = None \<and> fits p page \<and> storable req resp \<and> M' = M(key \<mapsto> newMeta clk resp page))"
| "cacheSpec p (EvGet clk t1 t2 key req) M M' \<longleftrightarrow> M' = M \<or> M' = M(key := None)"
| "cacheSpec p (EvRemove key) M M' \<longleftrightarrow> M' = M \<or> M' = M(key := None)"
| "cacheSpec p (EvTick clk) M M' \<longleftrightarrow> (\<exists>S. M' = M |` S)"
| "cacheSpec p (EvClear visit) M M' \<longleftrightarrow> M' = M \<or> M' = M |` (- set visit)"

lemma cacheMap_Get:
  assumes "bolt_ok (ceBolt E)" "cache_ok E p"
  shows "cacheMap E (cpDb (snd (snd (GetPageFromCache E clk t1 t2 key req p)))) \<in>
    {cacheMap E (cpDb p), (cacheMap E (cpDb p))(key := None)}"
proof -
  obtain r p1 where get: "getPageMetadata E key p = (r, p1)" by force
  have ok1: "cache_ok E p1" using cache_ok_getMeta [OF assms, of key] get by simp
  have M1: "cacheMap E (cpDb p1) = cacheMap E (cpDb p)"
    using cacheMap_getMeta [OF assms, of key] get by simp
  obtain r2 p2 where rm: "removePageMetadata E key p1 = (r2, p2)" by force
  have "cacheMap E (cpDb p2) \<in> {cacheMap E (cpDb p1), (cacheMap E (cpDb p1))(key := None)}"
    using cacheMap_removeMeta [OF assms(1) ok1, of key] rm by simp
  with M1 get rm show ?thesis
    by (auto simp: GetPageFromCache_def Let_def split: res.split sum.split)
qed

lemma cacheMap_clear:
  assumes "bolt_ok (ceBolt E)" "cache_ok E p"
  shows "cacheMap E (cpDb (snd (ClearCache E visit p))) \<in>
    {cacheMap E (cpDb p), cacheMap E (cpDb p) |` (- set visit)}"
proof -
  have ok: "dbOk E (cpDb p)" using assms(2) by (simp add: cache_ok_dbOk [OF assms(1)])
  show ?thesis
  proof (cases rule: clearTx_cases [OF assms(1) ok, of visit])
    case (1 p1 db')
    have "metaOf E db' n = metaOf E (cpDb p) n" if "n \<notin> set visit" for n
      using that 1(8) by (intro metaOf_cong) simp
    then have "cacheMap E db' = cacheMap E (cpDb p) |` (- set visit)"
      using 1(7) by (auto simp: cacheMap_def restrict_map_def fun_eq_iff)
    with 1(1) show ?thesis by (simp add: ClearCache_def split: prod.split option.split)
  qed (simp_all add: ClearCache_def)
qed

text \<open>C2: Refinement. Seen as a map from keys to metadata, the cache does on every operation what
  the specification allows: only an insertion adds an entry, only for a storable page that fits,
  only under a free key, and never replaces one; a clearing drops what it visited or nothing.\<close>
theorem cache_refines_map:
  assumes "env_ok E" and "cache_ok E p" and "eventOk e"
  shows "cacheSpec p e (cacheMap E (cpDb p)) (cacheMap E (cpDb (cacheStep E e p)))"
proof (cases e)
  case (EvInsert clk key req resp page)
  with cacheMap_Insert [OF assms(1) _ assms(2), of key clk req resp page] assms(3)
  show ?thesis by (auto split: if_splits)
next
  case (EvGet clk t1 t2 key req)
  with cacheMap_Get [OF env_okD(1) [OF assms(1)] assms(2), of clk t1 t2 key req]
  show ?thesis by auto
next
  case (EvRemove key)
  with cacheMap_Remove [OF env_okD(1) [OF assms(1)] assms(2), of key] show ?thesis by auto
next
  case (EvTick clk)
  with cacheMap_tick [OF env_okD(1) [OF assms(1)] assms(2), of clk] show ?thesis by simp
next
  case (EvClear visit)
  with cacheMap_clear [OF env_okD(1) [OF assms(1)] assms(2), of visit] show ?thesis by simp
qed

theorem cache_refines_map_witness:
  "cacheSpec (refCache 100)
     (EvInsert (\<lambda>_ _. 5) (refKey CHR ''a'') (refRequest ''GET'' []) (refResponse 200 [] ''hi'') (refPage ''hi''))
     (cacheMap refEnv (cpDb (refCache 100)))
     (cacheMap refEnv (cpDb (cacheStep refEnv
       (EvInsert (\<lambda>_ _. 5) (refKey CHR ''a'') (refRequest ''GET'' []) (refResponse 200 [] ''hi'') (refPage ''hi''))
       (refCache 100))))"
  by (rule cache_refines_map [OF env_ok_ref cache_ok_refCache]) simp

text \<open>Accounting. Along every run of insertions, lookups, removals, cleaner ticks and clearings on page
  keys, whatever succeeds or fails but for clearings that fail half-way, \<open>Size\<close> is the sum of the sizes in the metadata, every bucket
  is named by a page key, and every bucket holds decodable metadata and a four-byte counter.\<close>
theorem cache_accounts_run:
  assumes "env_ok E" and "cache_ok E p" and "runOk (cacheStep E) (\<lambda>e p. eventOk e \<and> whole E e p) es p"
  shows "cache_ok E (fold (cacheStep E) es p)"
  using cache_run.inv_run [of E es p] assms by simp

theorem cache_accounts_run_witness:
  "cache_ok refEnv (fold (cacheStep refEnv)
     [EvInsert (\<lambda>_ _. 5) (refKey CHR ''a'') (refRequest ''GET'' []) (refResponse 200 [] ''hi'') (refPage ''hi''),
      EvGet (\<lambda>_. 6) 6 6 (refKey CHR ''a'') (refRequest ''GET'' []),
      EvTick (\<lambda>_. 7), EvRemove (refKey CHR ''a'')] (refCache 100))"
  by (rule cache_accounts_run [OF env_ok_ref cache_ok_refCache]) simp

section \<open>Insertions\<close>

text \<open>Safety. A page is never stored, and nothing changes, when the request is not a GET, when
  the request or the response says no-store or the response says private (as a whole piece
  between semicolons), or when the page does not fit; and when an insertion reports success the
  cache is still within \<open>maxFileSize\<close> if it was before.\<close>
theorem insert_guards:
  assumes "env_ok E" and "diskKey key"
    and "InsertPageInCache E clk key req resp page p = (r, p')"
  shows "(\<not> storable req resp \<or> \<not> fits p page \<longrightarrow> (\<exists>e. r = Err e) \<and> p' = p) \<and>
    (r = Ok () \<and> sint (Size p) \<le> sint (maxFileSize (cpCleaner p)) \<longrightarrow>
       sint (Size p') \<le> sint (maxFileSize (cpCleaner p')))"
proof (intro conjI impI)
  assume "\<not> storable req resp \<or> \<not> fits p page"
  then show "\<exists>e. r = Err e" "p' = p"
    using InsertPage_refused [of p page req resp E clk key] assms(3) by auto
next
  assume r: "r = Ok () \<and> sint (Size p) \<le> sint (maxFileSize (cpCleaner p))"
  with assms(3) have ins: "InsertPageInCache E clk key req resp page p = (Ok (), p')" by simp
  show "sint (Size p') \<le> sint (maxFileSize (cpCleaner p'))"
    by (rule InsertPage_Ok [OF env_okD [OF assms(1)] assms(2) ins])
      (use r in \<open>simp_all add: fits_def newMeta_def createCacheInfo_def\<close>)
qed

theorem insert_guards_witness:
  "\<exists>r p'. InsertPageInCache refEnv (\<lambda>_ _. 5) (refKey CHR ''a'') (refRequest ''POST'' [])
       (refResponse 200 [] ''hi'') (refPage ''hi'') (refCache 100) = (r, p') \<and> is_ok r = False \<and> p' = refCache 100"
proof -
  obtain r p' where 1: "InsertPageInCache refEnv (\<lambda>_ _. 5) (refKey CHR ''a'') (refRequest ''POST'' [])
       (refResponse 200 [] ''hi'') (refPage ''hi'') (refCache 100) = (r, p')" by force
  have "\<not> storable (refRequest ''POST'' []) (refResponse 200 [] ''hi'')" by (simp add: storable_def)
  with insert_guards [OF env_ok_ref _ 1] have "\<exists>e. r = Err e" "p' = refCache 100" by simp_all
  with 1 show ?thesis by auto
qed

lemma getMeta_present:
  assumes "bolt_ok (ceBolt E)" "bolt_live (ceBolt E)" "cache_ok E p" "cacheMap E (cpDb p) key = Some m"
  shows "\<exists>db'. getPageMetadata E key p = (Ok m, p\<lparr>cpDb := db'\<rparr>) \<and> dbCounts E key (cpDb p) db'"
proof -
  have "txBucket (ceBolt E) (cpDb p) key" "metaOf E (cpDb p) key = Some m"
    using assms(4) by (auto simp: cacheMap_def split: if_splits)
  then show ?thesis
    by (cases rule: getMeta_cases [OF assms(1,3), of key]) (use assms(2) in auto)
qed

lemma GetPage_hit:
  assumes "env_ok E" "bolt_live (ceBolt E)" "cache_ok E p" "cacheMap E (cpDb p) key = Some m"
    and "isFresh t1 t2 (loadRequestDirectives clk (reqHeader req)) m"
    and "readPageFromDisk (ceCodec E) (ceOs E) key (cpFs p) = Inr page"
  shows "fst (GetPageFromCache E clk t1 t2 key req p) = Ok page"
    and "\<exists>db'. snd (snd (GetPageFromCache E clk t1 t2 key req p)) = p\<lparr>cpDb := db'\<rparr> \<and>
      dbCounts E key (cpDb p) db'"
proof -
  obtain db' where "getPageMetadata E key p = (Ok m, p\<lparr>cpDb := db'\<rparr>)" "dbCounts E key (cpDb p) db'"
    using getMeta_present [OF env_okD(1) [OF assms(1)] assms(2-4)] by metis
  with assms(5,6) show "fst (GetPageFromCache E clk t1 t2 key req p) = Ok page"
    "\<exists>db'. snd (snd (GetPageFromCache E clk t1 t2 key req p)) = p\<lparr>cpDb := db'\<rparr> \<and>
      dbCounts E key (cpDb p) db'"
    by (auto simp: GetPageFromCache_def Let_def)
qed

text \<open>What an accepted insertion leaves behind when nothing fails.\<close>

lemma insertMeta_live:
  assumes "env_ok E" "bolt_live (ceBolt E)" "diskKey key" "\<not> txBucket (ceBolt E) (cpDb p) key" "jsonMeta m"
  obtains db' where "insertPageMetadataToDB E key m p =
       (Ok (), UpdateCachePagesCount 1 (IncrementSize (pmSize m) (p\<lparr>cpDb := db'\<rparr>)))"
    "dbGains E key m (cpDb p) db'"
proof (rule insertMeta_cases [OF env_okD [OF assms(1)] assms(3), of m p])
  fix e
  assume err: "insertPageMetadataToDB E key m p = (Err e, p)"
  obtain v where "marshalMeta (ceCodec E) m = Inr v"
    using env_okD(2) [OF assms(1)] assms(5) by (auto simp: codec_ok_def)
  moreover obtain db1 where "txCreate (ceBolt E) (cpDb p) key = (None, db1)"
    using bolt_create_new [OF env_okD(1) [OF assms(1)] validName_diskKey [OF assms(3)] assms(4)] by metis
  ultimately show ?thesis using err
    by (simp add: insertPageMetadataToDB_def boltUpdate_live [OF assms(2)] Let_def split_beta)
qed (use that assms(4) in auto)

lemma insertMeta_present:
  assumes "env_ok E" "bolt_live (ceBolt E)" "txBucket (ceBolt E) (cpDb p) key" "jsonMeta m"
  shows "insertPageMetadataToDB E key m p = (Ok (), p)"
proof -
  obtain v where "marshalMeta (ceCodec E) m = Inr v"
    using env_okD(2) [OF assms(1)] assms(4) by (auto simp: codec_ok_def)
  moreover have "txCreate (ceBolt E) (cpDb p) key = (Some ErrBucketExists, cpDb p)"
    by (rule bolt_create_old [OF env_okD(1) [OF assms(1)] assms(3)])
  ultimately show ?thesis
    by (simp add: insertPageMetadataToDB_def boltUpdate_live [OF assms(2)] Let_def split_beta)
qed

lemma insert_stores:
  assumes "env_ok E" and "bolt_live (ceBolt E)" and "ceOs E = noFaults" and "cache_ok E p"
    and "tree_ok (cpFs p)" and "diskKey key" and "cacheMap E (cpDb p) key = None"
    and "fits p page" and "storable req resp" and "jsonMeta (newMeta clk resp page)"
  obtains p' v where "InsertPageInCache E clk key req resp page p = (Ok (), p')" "cache_ok E p'"
    "cacheMap E (cpDb p') key = Some (newMeta clk resp page)" "marshalPage (ceCodec E) page = Inr v"
    "storeBytes noFaults key v (cpFs p) = (None, cpFs p')" "tree_ok (cpFs p')"
    "Size p' = Size p + of_nat (length (pageBody page))" "cpCleaner p' = cpCleaner p"
    "txGet (ceBolt E) (cpDb p') key usesKey = Some (replicate 4 (CHR 0x00))"
    "dbGains E key (newMeta clk resp page) (cpDb p) (cpDb p')"
proof -
  have B: "bolt_ok (ceBolt E)" "codec_ok (ceCodec E)" using assms(1) by (auto simp: env_ok_def)
  let ?m = "newMeta clk resp page"
  have nb: "\<not> txBucket (ceBolt E) (cpDb p) key"
    using metaOf_removed [OF assms(4) B(1), of key] assms(7) by (auto simp: cacheMap_def)
  obtain db' where 1: "insertPageMetadataToDB E key ?m p =
       (Ok (), UpdateCachePagesCount 1 (IncrementSize (pmSize ?m) (p\<lparr>cpDb := db'\<rparr>)))"
    "dbGains E key ?m (cpDb p) db'"
    using insertMeta_live [OF assms(1,2,6) nb assms(10)] by metis
  obtain v where v: "marshalPage (ceCodec E) page = Inr v" using B(2) unfolding codec_ok_def by blast
  obtain fs' where fs': "storeBytes noFaults key v (cpFs p) = (None, fs')"
    using storeBytes_succeeds [OF assms(6,5)] by blast
  let ?p' = "UpdateCachePagesCount 1 (IncrementSize (pmSize ?m) (p\<lparr>cpDb := db'\<rparr>))\<lparr>cpFs := fs'\<rparr>"
  have ins: "InsertPageInCache E clk key req resp page p = (Ok (), ?p')"
    using 1(1) v fs' assms(3)
    by (simp add: InsertPage_accepted [OF assms(8,9)] writePageToDisk_def)
  have "cache_ok E ?p'" using cache_ok_gains [OF B(1) assms(4) 1(2) assms(6)] by simp
  moreover have "tree_ok fs'" using tree_ok_storeBytes [OF assms(6,5), of noFaults v] fs' by simp
  ultimately show ?thesis using cacheMap_gains(1) [OF 1(2)] 1(2) fs' v
    by (intro that [OF ins]) (simp_all add: dbGains_def newMeta_def createCacheInfo_def)
qed

lemma readPage_pageFile:
  assumes "codec_ok J" "marshalPage J page = Inr v" "asciiHeader (pageHeader page)"
    and "pageFile key fs = Some v"
  shows "readPageFromDisk J noFaults key fs = Inr page"
proof -
  from assms(1-3) have "unmarshalPage J v = Inr page" "CHR 0x00 \<notin> set v"
    by (auto simp: codec_ok_def)
  moreover have "fsLookup fs (pagePath key) = Some (File v)"
    using assms(4) by (auto simp: pageFile_def split: option.splits node.splits)
  ultimately show ?thesis
    by (simp add: readPageFromDisk_def osReadFile_def readUntilNul_id noFaults_def)
qed

text \<open>C13: Round trip. A storable page that fits, inserted under a free key of a well-shaped page
  tree, is reported stored, and a lookup with that key that finds its metadata fresh returns
  exactly that page, even after any number of other pages have been written.\<close>
theorem insert_then_get:
  assumes "env_ok E" and "bolt_live (ceBolt E)" and "ceOs E = noFaults" and "cache_ok E p"
    and "tree_ok (cpFs p)" and "diskKey key" and "cacheMap E (cpDb p) key = None"
    and "fits p page" and "storable req resp" and "asciiHeader (pageHeader page)"
    and "jsonMeta (newMeta clk resp page)"
    and "isFresh t1 t2 (loadRequestDirectives clk' (reqHeader req')) (newMeta clk resp page)"
  shows "\<exists>p'. InsertPageInCache E clk key req resp page p = (Ok (), p') \<and>
    fst (GetPageFromCache E clk' t1 t2 key req' p') = Ok page \<and>
    (\<forall>kvs. (\<forall>(k, v) \<in> set kvs. diskKey k) \<and> key \<notin> fst ` set kvs \<longrightarrow>
       fst (GetPageFromCache E clk' t1 t2 key req' (p'\<lparr>cpFs := pages.putAll noFaults kvs (cpFs p')\<rparr>)) = Ok page)"
proof -
  obtain p' v where 1: "InsertPageInCache E clk key req resp page p = (Ok (), p')" "cache_ok E p'"
      "cacheMap E (cpDb p') key = Some (newMeta clk resp page)" "marshalPage (ceCodec E) page = Inr v"
      "storeBytes noFaults key v (cpFs p) = (None, cpFs p')"
    using insert_stores [OF assms(1-9,11)] by metis
  have hit: "fst (GetPageFromCache E clk' t1 t2 key req' (p'\<lparr>cpFs := fs\<rparr>)) = Ok page"
    if "pageFile key fs = Some v" for fs
  proof -
    have "readPageFromDisk (ceCodec E) (ceOs E) key fs = Inr page"
      using readPage_pageFile [OF env_okD(2) [OF assms(1)] 1(4) assms(10) that] assms(3) by simp
    with 1(2,3) show ?thesis
      by (intro GetPage_hit [OF assms(1,2) _ _ assms(12), of "p'\<lparr>cpFs := fs\<rparr>"]) auto
  qed
  have "pageFile key (cpFs p') = Some v" using assms(6) 1(5) by (rule pages.put_same)
  moreover from this have "pageFile key (pages.putAll noFaults kvs (cpFs p')) = Some v"
    if "\<forall>(k, v) \<in> set kvs. diskKey k" "key \<notin> fst ` set kvs" for kvs
    using pages.putAll_other [OF that(1) assms(6) that(2)] by simp
  ultimately show ?thesis using 1(1) hit [of "cpFs p'"] hit by auto
qed

lemma newMeta_plain:
  "newMeta clk (refResponse s [] b) (refPage b) =
     \<lparr>pmSize = of_nat (length b),
      pmResponseDirectives =
        \<lparr>rsMustRevalidate = False, rsNoCache = False, rsNoStore = False, rsNoTransform = False,
         rsPrivate = False, rsProxyRevalidate = False, rsMaxAge = infinityTime, rsSMaxAge = nullTime\<rparr>\<rparr>"
  by (simp add: newMeta_def createCacheInfo_def loadResponseDirectives_def cacheControlPieces_def
      headerGet_def trimSpace_def responseDirective_def ageOf_def)

lemma plain_request:
  "loadRequestDirectives clk [] =
     \<lparr>rqMaxAge = nullTime, rqMaxStale = 0, rqMinFresh = nullTime, rqNoCache = False,
      rqNoStore = False, rqNoTransform = False, rqOnlyIfCached = False\<rparr>"
  by (simp add: loadRequestDirectives_def cacheControlPieces_def headerGet_def trimSpace_def
      requestDirective_def)

lemma plain_storable: "storable (refRequest ''GET'' []) (refResponse s [] b)"
  by (simp add: storable_def cacheControlPieces_def headerGet_def trimSpace_def)

lemma plain_jsonMeta: "jsonMeta (newMeta clk (refResponse s [] b) (refPage b))"
  by (simp add: newMeta_plain jsonMeta_def jsonTime_def infinityTime_value nullTime_def goDate_def
      monthDays_def leapYear_def nsPerSec_def)

lemma plain_fits: "2 \<le> sint mx \<Longrightarrow> fits (refCache mx) (refPage ''hi'')"
  by (simp add: fits_def refCache_def NewCachingProperties_def NewCacheCleaner_def)

lemma plain_fresh:
  "isFresh 5 5 (loadRequestDirectives clk []) (newMeta clk' (refResponse s [] b) (refPage b))"
  by (simp add: isFresh_def newMeta_plain plain_request isZeroTime_def nullTime_def timeAfter_def
      timeAdd_def infinityTime_value goDate_def monthDays_def leapYear_def nsPerSec_def)

lemma refCache_empty [simp]: "cacheMap refEnv (cpDb (refCache n)) key = None"
  by (simp add: cacheMap_def refCache_def NewCachingProperties_def refBucket_def)

theorem insert_then_get_witness:
  "\<exists>p'. InsertPageInCache refEnv (\<lambda>_ _. 5) (refKey CHR ''a'') (refRequest ''GET'' [])
       (refResponse 200 [] ''hi'') (refPage ''hi'') (refCache 100) = (Ok (), p') \<and>
     fst (GetPageFromCache refEnv (\<lambda>_. 5) 5 5 (refKey CHR ''a'') (refRequest ''GET'' []) p') = Ok (refPage ''hi'')"
  using insert_then_get [OF env_ok_ref, of "refCache 100" "refKey CHR ''a''" "refPage ''hi''"
      "refRequest ''GET'' []" "refResponse 200 [] ''hi''" "\<lambda>_ _. 5" 5 5 "\<lambda>_. 5" "refRequest ''GET'' []"]
  by (simp add: bolt_live_ref plain_fits plain_storable plain_jsonMeta plain_fresh asciiHeader_def) blast

text \<open>A cache with one page, for the witnesses.\<close>

lemma refStored:
  assumes "2 \<le> sint mx"
  obtains p where "cache_ok refEnv p" "tree_ok (cpFs p)" "Size p = 2"
    "cpCleaner p = cpCleaner (refCache mx)"
    "cacheMap refEnv (cpDb p) (refKey CHR ''a'') =
       Some (newMeta (\<lambda>_ _. 5) (refResponse 200 [] ''hi'') (refPage ''hi''))"
    "txGet (ceBolt refEnv) (cpDb p) (refKey CHR ''a'') usesKey = Some (replicate 4 (CHR 0x00))"
    "pageFile (refKey CHR ''a'') (cpFs p) = Some ''6869.''"
    "InsertPageInCache refEnv (\<lambda>_ _. 5) (refKey CHR ''a'') (refRequest ''GET'' [])
       (refResponse 200 [] ''hi'') (refPage ''hi'') (refCache mx) = (Ok (), p)"
    "\<And>n. refBucket (cpDb p) n \<longleftrightarrow> n = refKey CHR ''a''"
    "\<And>j. diskKey j \<Longrightarrow> j \<noteq> refKey CHR ''a'' \<Longrightarrow> fsLookup (cpFs p) (pagePath j) = None"
proof (rule insert_stores [OF env_ok_ref _ _ cache_ok_refCache tree_ok_refCache])
  show "bolt_live (ceBolt refEnv)" "ceOs refEnv = noFaults" by (simp_all add: bolt_live_ref)
  show "diskKey (refKey CHR ''a'')" "cacheMap refEnv (cpDb (refCache mx)) (refKey CHR ''a'') = None"
    by simp_all
  show "fits (refCache mx) (refPage ''hi'')" "storable (refRequest ''GET'' []) (refResponse 200 [] ''hi'')"
    "jsonMeta (newMeta (\<lambda>_ _. 5) (refResponse 200 [] ''hi'') (refPage ''hi''))"
    by (rule plain_fits [OF assms] plain_storable plain_jsonMeta)+
  fix p v
  assume p: "InsertPageInCache refEnv (\<lambda>_ _. 5) (refKey CHR ''a'') (refRequest ''GET'' [])
       (refResponse 200 [] ''hi'') (refPage ''hi'') (refCache mx) = (Ok (), p)"
    "cache_ok refEnv p" "tree_ok (cpFs p)" "cpCleaner p = cpCleaner (refCache mx)"
    "cacheMap refEnv (cpDb p) (refKey CHR ''a'') =
       Some (newMeta (\<lambda>_ _. 5) (refResponse 200 [] ''hi'') (refPage ''hi''))"
    "txGet (ceBolt refEnv) (cpDb p) (refKey CHR ''a'') usesKey = Some (replicate 4 (CHR 0x00))"
    "Size p = Size (refCache mx) + of_nat (length (pageBody (refPage ''hi'')))"
    "marshalPage (ceCodec refEnv) (refPage ''hi'') = Inr v"
    "storeBytes noFaults (refKey CHR ''a'') v (cpFs (refCache mx)) = (None, cpFs p)"
    "dbGains refEnv (refKey CHR ''a'') (newMeta (\<lambda>_ _. 5) (refResponse 200 [] ''hi'') (refPage ''hi''))
       (cpDb (refCache mx)) (cpDb p)"
  have "v = ''6869.''"
    using p(8) by (auto simp: refMarshalPage_def terminated_def hexEncode_def hexDigit_def char_of_def bit_iff_odd)
  moreover have "pageFile (refKey CHR ''a'') (cpFs p) = Some v"
    by (rule pages.put_same [OF _ p(9)]) simp
  moreover have "Size p = 2" using p(7) by (simp add: refCache_def NewCachingProperties_def)
  moreover have "refBucket (cpDb p) n \<longleftrightarrow> n = refKey CHR ''a''" for n
    using p(10) by (simp add: dbGains_def refCache_def NewCachingProperties_def refBucket_def)
  moreover have "fsLookup (cpFs p) (pagePath j) = None" if "diskKey j" "j \<noteq> refKey CHR ''a''" for j
  proof -
    have "fsLookup (cpFs p) (pagePath j) = fsLookup (cpFs (refCache mx)) (pagePath j)"
      using storeBytes_other [OF _ that, of noFaults v "cpFs (refCache mx)"] p(9) by simp
    also have "\<dots> = None"
      using pagePath_not_dot [OF that(1)]
      by (simp add: fsLookup_def refCache_def NewCachingProperties_def)
    finally show ?thesis .
  qed
  ultimately show ?thesis using p(1-6) by (intro that [of p]) simp_all
qed

text \<open>C35: Inserting under a key that is already cached reports success, and the page file then holds
  the new page; but the metadata stays as it was (the two writes of the transaction are rolled
  back, because the closure still returns the error of \<open>CreateBucket\<close>), so \<open>Size\<close>, the expiry
  times and the counter of uses are those of the old page.\<close>
theorem reinsert_keeps_metadata:
  assumes "env_ok E" and "bolt_live (ceBolt E)" and "ceOs E = noFaults" and "cache_ok E p"
    and "tree_ok (cpFs p)" and "diskKey key" and "cacheMap E (cpDb p) key = Some old"
    and "fits p page" and "storable req resp" and "jsonMeta (newMeta clk resp page)"
    and "marshalPage (ceCodec E) page = Inr v"
  shows "\<exists>p'. InsertPageInCache E clk key req resp page p = (Ok (), p') \<and>
    pageFile key (cpFs p') = Some v \<and> cpDb p' = cpDb p \<and>
    cacheMap E (cpDb p') key = Some old \<and> Size p' = Size p"
proof -
  have bucket: "txBucket (ceBolt E) (cpDb p) key" using assms(7) by (auto simp: cacheMap_def split: if_splits)
  have ins: "insertPageMetadataToDB E key (newMeta clk resp page) p = (Ok (), p)"
    using insertMeta_present [OF assms(1,2) bucket assms(10)] .
  obtain fs' where fs': "storeBytes noFaults key v (cpFs p) = (None, fs')"
    using storeBytes_succeeds [OF assms(6,5)] by blast
  have "InsertPageInCache E clk key req resp page p = (Ok (), p\<lparr>cpFs := fs'\<rparr>)"
    using ins assms(3,11) fs' by (simp add: InsertPage_accepted [OF assms(8,9)] writePageToDisk_def)
  moreover have "pageFile key fs' = Some v" using assms(6) fs' by (rule pages.put_same)
  ultimately show ?thesis using assms(7) by simp
qed

theorem reinsert_keeps_metadata_witness:
  "\<exists>p p'. Size p = 2 \<and>
     InsertPageInCache refEnv (\<lambda>_ _. 9) (refKey CHR ''a'') (refRequest ''GET'' [])
       (refResponse 200 [] ''longer'') (refPage ''longer'') p = (Ok (), p') \<and>
     Size p' = 2 \<and> map_option pmSize (cacheMap refEnv (cpDb p') (refKey CHR ''a'')) = Some 2"
proof -
  obtain p where p: "cache_ok refEnv p" "tree_ok (cpFs p)" "Size p = 2"
      "cpCleaner p = cpCleaner (refCache 100)"
      "cacheMap refEnv (cpDb p) (refKey CHR ''a'') =
         Some (newMeta (\<lambda>_ _. 5) (refResponse 200 [] ''hi'') (refPage ''hi''))"
    by (rule refStored [of 100]) auto
  have "fits p (refPage ''longer'')"
    using p(3,4) by (simp add: fits_def refCache_def NewCachingProperties_def NewCacheCleaner_def)
  moreover obtain v where "marshalPage (ceCodec refEnv) (refPage ''longer'') = Inr v"
    by (simp add: refMarshalPage_def)
  ultimately obtain p' where "InsertPageInCache refEnv (\<lambda>_ _. 9) (refKey CHR ''a'') (refRequest ''GET'' [])
       (refResponse 200 [] ''longer'') (refPage ''longer'') p = (Ok (), p')" "Size p' = Size p"
      "cacheMap refEnv (cpDb p') (refKey CHR ''a'') =
         Some (newMeta (\<lambda>_ _. 5) (refResponse 200 [] ''hi'') (refPage ''hi''))"
    using reinsert_keeps_metadata [OF env_ok_ref _ _ p(1,2) _ p(5), of "refPage ''longer''"
        "refRequest ''GET'' []" "refResponse 200 [] ''longer''" "\<lambda>_ _. 9" v]
      plain_storable plain_jsonMeta bolt_live_ref by auto
  with p(3) show ?thesis by (auto simp: newMeta_plain)
qed

section \<open>Lookups and removals\<close>

text \<open>Every lookup that finds the key in the database advances its use counter by one, modulo
  2^32, whether or not the page turns out fresh, unless the page file turns out missing (the
  entry is dropped then); it leaves the metadata and the counters of all other keys alone.\<close>
theorem lookup_counts_use:
  assumes "env_ok E" and "bolt_live (ceBolt E)" and "cache_ok E p"
    and "cacheMap E (cpDb p) key = Some m"
    and "GetPageFromCache E clk t1 t2 key req p = (r, req', p')"
  shows "(cacheMap E (cpDb p') key = None \<or>
      usesOf E (cpDb p') key = usesOf E (cpDb p) key + 1 \<and> cacheMap E (cpDb p') = cacheMap E (cpDb p)) \<and>
    (\<forall>n. n \<noteq> key \<longrightarrow> usesOf E (cpDb p') n = usesOf E (cpDb p) n \<and>
       cacheMap E (cpDb p') n = cacheMap E (cpDb p) n)"
proof -
  have B: "bolt_ok (ceBolt E)" by (rule env_okD(1) [OF assms(1)])
  obtain db' where get: "getPageMetadata E key p = (Ok m, p\<lparr>cpDb := db'\<rparr>)"
    and c: "dbCounts E key (cpDb p) db'"
    using getMeta_present [OF B assms(2-4)] by metis
  have ok1: "cache_ok E (p\<lparr>cpDb := db'\<rparr>)" by (rule cache_ok_counts [OF B assms(3) c])
  have uses: "usesOf E db' key = usesOf E (cpDb p) key + 1"
    "n \<noteq> key \<Longrightarrow> usesOf E db' n = usesOf E (cpDb p) n" for n
    using c by (auto simp: usesOf_def dbCounts_def)
  note M = cacheMap_counts [OF c]
  have loses: "cpDb (snd (removePageMetadata E key (p\<lparr>cpDb := db'\<rparr>))) = db' \<or>
      dbLoses E key db' (cpDb (snd (removePageMetadata E key (p\<lparr>cpDb := db'\<rparr>))))"
    by (rule removeMeta_cases [OF B ok1, of key]) auto
  have "cpDb p' = db' \<or> dbLoses E key db' (cpDb p')"
    using get loses assms(5) unfolding GetPageFromCache_def
    by (auto simp: Let_def split: sum.splits res.splits prod.splits if_splits)
  then show ?thesis
  proof
    assume "cpDb p' = db'"
    with uses M show ?thesis by simp
  next
    assume l: "dbLoses E key db' (cpDb p')"
    moreover from l have "usesOf E (cpDb p') n = usesOf E db' n" if "n \<noteq> key" for n
      using that by (simp add: usesOf_def dbLoses_def)
    ultimately show ?thesis using cacheMap_loses [OF l] uses M by simp
  qed
qed

theorem lookup_counts_use_witness:
  "\<exists>p. usesOf refEnv (cpDb p) (refKey CHR ''a'') = 0 \<and>
    fst (GetPageFromCache refEnv (\<lambda>_. 5) 5 5 (refKey CHR ''a'') (refRequest ''GET'' []) p) = Ok (refPage ''hi'') \<and>
    usesOf refEnv (cpDb (snd (snd (GetPageFromCache refEnv (\<lambda>_. 5) 5 5 (refKey CHR ''a'')
      (refRequest ''GET'' []) p)))) (refKey CHR ''a'') = 1"
proof -
  obtain p where p: "cache_ok refEnv p"
      "cacheMap refEnv (cpDb p) (refKey CHR ''a'') =
         Some (newMeta (\<lambda>_ _. 5) (refResponse 200 [] ''hi'') (refPage ''hi''))"
      "txGet (ceBolt refEnv) (cpDb p) (refKey CHR ''a'') usesKey = Some (replicate 4 (CHR 0x00))"
      "pageFile (refKey CHR ''a'') (cpFs p) = Some ''6869.''"
    by (rule refStored [of 100]) auto
  let ?g = "GetPageFromCache refEnv (\<lambda>_. 5) 5 5 (refKey CHR ''a'') (refRequest ''GET'' []) p"
  have "marshalPage refCodec (refPage ''hi'') = Inr ''6869.''"
    by (simp add: refMarshalPage_def terminated_def hexEncode_def hexDigit_def char_of_def bit_iff_odd)
  then have "readPageFromDisk refCodec noFaults (refKey CHR ''a'') (cpFs p) = Inr (refPage ''hi'')"
    using p(4) by (intro readPage_pageFile [OF codec_ok_ref]) (auto simp: asciiHeader_def)
  then have hit: "fst ?g = Ok (refPage ''hi'')" "\<exists>db'. snd (snd ?g) = p\<lparr>cpDb := db'\<rparr> \<and>
      dbCounts refEnv (refKey CHR ''a'') (cpDb p) db'"
    using GetPage_hit [OF env_ok_ref _ p(1,2), of 5 5 "\<lambda>_. 5" "refRequest ''GET'' []" "refPage ''hi''"]
    by (simp_all add: bolt_live_ref plain_fresh)
  have zero: "usesOf refEnv (cpDb p) (refKey CHR ''a'') = 0" using p(3) by (simp add: usesOf_def)
  have "cacheMap refEnv (cpDb (snd (snd ?g))) (refKey CHR ''a'') \<noteq> None"
    using hit(2) p(2) cacheMap_counts by fastforce
  then have "usesOf refEnv (cpDb (snd (snd ?g))) (refKey CHR ''a'') = 1"
    using lookup_counts_use [OF env_ok_ref _ p(1,2), of "\<lambda>_. 5" 5 5 "refRequest ''GET'' []"
        "fst ?g" "fst (snd ?g)" "snd (snd ?g)"] zero
    by (auto simp: bolt_live_ref)
  with hit(1) zero show ?thesis by blast
qed

lemma removeMeta_fs: "cpFs (snd (removePageMetadata E key p)) = cpFs p"
  by (auto simp: removePageMetadata_def Let_def split: prod.split txRes.split sum.split option.split)

text \<open>Removal. Removing a cached page takes its metadata and its bytes off the accounts even when
  deleting the file fails, a lookup of the key then misses, and neither the metadata nor the
  page file of any other key changes.\<close>
theorem remove_isolated:
  assumes "env_ok E" and "bolt_live (ceBolt E)" and "cache_ok E p" and "diskKey key"
    and "cacheMap E (cpDb p) key = Some m" and "RemovePageFromCache E key p = (r, p')"
  shows "cacheMap E (cpDb p') = (cacheMap E (cpDb p))(key := None) \<and>
    Size p' = Size p - pmSize m \<and>
    fst (GetPageFromCache E clk t1 t2 key req p') = Err (ErrMsg ''missed cache'') \<and>
    (\<forall>j. diskKey j \<and> j \<noteq> key \<longrightarrow> pageFile j (cpFs p') = pageFile j (cpFs p))"
proof -
  have B: "bolt_ok (ceBolt E)" by (rule env_okD(1) [OF assms(1)])
  have bucket: "txBucket (ceBolt E) (cpDb p) key" and m: "metaOf E (cpDb p) key = Some m"
    using assms(5) by (auto simp: cacheMap_def split: if_splits)
  have 1: "dbLoses E key (cpDb p) (cpDb p')" "Size p' = Size p - metaSize E (cpDb p) key"
    using removePage_live [OF B assms(2,3) bucket] assms(6) by (metis prod.inject)+
  have files: "pageFile j (cpFs p') = pageFile j (cpFs p)" if "diskKey j" "j \<noteq> key" for j
    using pages.del_other [OF assms(4) that, of "ceOs E" "cpFs p"]
      removeMeta_fs [of E key p] assms(6)
    unfolding RemovePageFromCache_def
    by (auto split: prod.splits res.splits unit.splits)
  have "\<not> txBucket (ceBolt E) (cpDb p') key" using 1(1) by (simp add: dbLoses_def)
  then have "fst (GetPageFromCache E clk t1 t2 key req p') = Err (ErrMsg ''missed cache'')"
    by (simp add: GetPageFromCache_def getPageMetadata_def boltView_live [OF assms(2)] Let_def)
  with 1 m files cacheMap_loses [OF 1(1)] show ?thesis by (simp add: metaSize_def)
qed

theorem remove_isolated_witness:
  "\<exists>p. Size p = 2 \<and> Size (snd (RemovePageFromCache refEnv (refKey CHR ''a'') p)) = 0"
proof -
  obtain p where p: "cache_ok refEnv p" "Size p = 2"
      "cacheMap refEnv (cpDb p) (refKey CHR ''a'') =
         Some (newMeta (\<lambda>_ _. 5) (refResponse 200 [] ''hi'') (refPage ''hi''))"
    by (rule refStored [of 100]) auto
  obtain r p' where rm: "RemovePageFromCache refEnv (refKey CHR ''a'') p = (r, p')" by force
  then have "Size p' = 0"
    using remove_isolated [OF env_ok_ref _ p(1) _ p(3) rm] p(2)
    by (simp add: bolt_live_ref newMeta_plain)
  with rm have "Size (snd (RemovePageFromCache refEnv (refKey CHR ''a'') p)) = 0" by simp
  with p(2) show ?thesis by blast
qed

section \<open>The cleaner\<close>

lemma sort_ok_ref: "sort_ok (ceSort refEnv)"
  by (simp add: sort_ok_def refSort_def)

text \<open>C19: Eviction order. When the cleaner evicts pages, every page it takes has been used at most
  as often as every page it leaves, nothing is added, and what it leaves keeps its metadata.\<close>
theorem cleaner_evicts_least_used:
  assumes "env_ok E" and "bolt_live (ceBolt E)" and "sort_ok (ceSort E)" and "cache_ok E p"
    and "deletePagesLRU E p = (r, p')"
  shows "(\<forall>n m. txBucket (ceBolt E) (cpDb p) n \<and> \<not> txBucket (ceBolt E) (cpDb p') n \<and>
        txBucket (ceBolt E) (cpDb p') m \<longrightarrow> usesOf E (cpDb p) n \<le> usesOf E (cpDb p) m) \<and>
    (\<forall>m. txBucket (ceBolt E) (cpDb p') m \<longrightarrow>
        cacheMap E (cpDb p') m = cacheMap E (cpDb p) m \<and> cacheMap E (cpDb p) m \<noteq> None)"
proof -
  have B: "bolt_ok (ceBolt E)" by (rule env_okD(1) [OF assms(1)])
  let ?o = "lruOrder E (cpDb p)"
  obtain k where k: "removedPrefix E ?o k p p'"
    using deletePagesLRU_prefix [OF B assms(2-4)] assms(5) by (metis prod.inject)
  have sorted: "sorted (map snd (take k ?o) @ map snd (drop k ?o))"
    using assms(3) by (simp add: sort_ok_def lruOrder_def flip: map_append)
  note names = lruOrder_names(1,2) [OF assms(3) B, of "cpDb p"]
  have evict: "usesOf E (cpDb p) n \<le> usesOf E (cpDb p) m"
    if n: "txBucket (ceBolt E) (cpDb p) n" "\<not> txBucket (ceBolt E) (cpDb p') n"
      and m: "txBucket (ceBolt E) (cpDb p') m" for n m
  proof -
    obtain u where u: "(n, u) \<in> set (take k ?o)"
      using k n by (auto simp: removedPrefix_def)
    have "txBucket (ceBolt E) (cpDb p) m" and not: "m \<notin> fst ` set (take k ?o)"
      using k m by (auto simp: removedPrefix_def)
    then have "m \<in> fst ` set (take k ?o @ drop k ?o)" using names(2) by (simp only: append_take_drop_id) auto
    with not obtain w where w: "(m, w) \<in> set (drop k ?o)" by (auto simp del: append_take_drop_id simp: set_append image_iff)
    have "u \<le> w" using sorted u w by (force simp: sorted_append)
    moreover have "u = usesOf E (cpDb p) n" "w = usesOf E (cpDb p) m"
      using u w by (auto intro!: lruOrder_names(3) [OF assms(3) B] dest: in_set_takeD in_set_dropD)
    ultimately show ?thesis by simp
  qed
  have kept: "cacheMap E (cpDb p') m = cacheMap E (cpDb p) m \<and> cacheMap E (cpDb p) m \<noteq> None"
    if m: "txBucket (ceBolt E) (cpDb p') m" for m
  proof -
    have b: "txBucket (ceBolt E) (cpDb p) m" and "m \<notin> fst ` set (take k ?o)"
      using k m by (auto simp: removedPrefix_def)
    then have "metaOf E (cpDb p') m = metaOf E (cpDb p) m"
      using k by (intro metaOf_cong) (simp add: removedPrefix_def)
    with m b metaOf_removed [OF assms(4) B b] show ?thesis by (auto simp: cacheMap_def)
  qed
  from evict kept show ?thesis by blast
qed

text \<open>C18: Liveness. One tick of the cleaner always brings the cache to or below its watermark: it
  returns, without a panic, with \<open>Size\<close> not exceeding \<open>fillFactor\<close> times \<open>maxFileSize\<close> (in
  \<open>float64\<close>), whatever the operating system makes of the file removals, and the accounts hold.\<close>
theorem tick_reaches_watermark:
  assumes "env_ok E" and "bolt_live (ceBolt E)" and "sort_ok (ceSort E)" and "cache_ok E p"
    and "0 \<le> sint (maxFileSize (cpCleaner p))"
  shows "\<exists>p'. observeTick E clk p = (Ok (), p') \<and> \<not> isSizeExceeded p' \<and> cache_ok E p'"
proof (cases "isSizeExceeded p")
  case False
  with assms(4) show ?thesis by (simp add: observeTick_def)
next
  case True
  have B: "bolt_ok (ceBolt E)" by (rule env_okD(1) [OF assms(1)])
  obtain k r p' where k: "deletePagesLRU E p = (r, p')" "\<And>m. r \<noteq> Panic m" "cache_ok E p'"
      "removedPrefix E (lruOrder E (cpDb p)) k p p'"
    using deletePagesLRU_prefix [OF B assms(2-4)] by metis
  obtain e where "deleteExpiredCache E clk p = (Err e, p)"
    using deleteExpiredCache_nothing [OF B] by blast
  with True k(1,2) have tick: "observeTick E clk p = (Ok (), p')"
    by (cases r) (auto simp: observeTick_def)
  have "\<not> isSizeExceeded p'"
  proof (cases "k < length (lruOrder E (cpDb p))")
    case True
    with k(4) show ?thesis by (simp add: removedPrefix_def)
  next
    case False
    with k(4) have "txBucket (ceBolt E) (cpDb p') n \<longleftrightarrow> False" for n
      using lruOrder_names(2) [OF assms(3) B, of "cpDb p"] by (simp add: removedPrefix_def)
    then have "Size p' = 0" by (intro no_buckets_no_bytes [OF B k(3)]) simp
    moreover have "cpCleaner p' = cpCleaner p" using k(4) by (simp add: removedPrefix_def)
    ultimately show ?thesis using assms(5) by (intro empty_not_exceeded) simp_all
  qed
  with tick k(3) show ?thesis by blast
qed

text \<open>Economy. The cleaner evicts no more than it must: it removes the first \<open>k\<close> pages in the
  order of use, it was above the watermark before each of those removals, and it stops short of
  the last page only when it is no longer above.\<close>
theorem cleaner_evicts_shortest_prefix:
  assumes "env_ok E" and "bolt_live (ceBolt E)" and "sort_ok (ceSort E)" and "cache_ok E p"
    and "deletePagesLRU E p = (r, p')"
  shows "\<exists>k \<le> length (lruOrder E (cpDb p)).
    (\<forall>n. txBucket (ceBolt E) (cpDb p') n \<longleftrightarrow>
       n \<in> fst ` set (drop k (lruOrder E (cpDb p)))) \<and>
    (\<forall>i < k. isSizeExceeded (p\<lparr>Size := Size p - sizeOfItems E (cpDb p) (take i (lruOrder E (cpDb p)))\<rparr>)) \<and>
    (k < length (lruOrder E (cpDb p)) \<longrightarrow> \<not> isSizeExceeded p')"
proof -
  have B: "bolt_ok (ceBolt E)" by (rule env_okD(1) [OF assms(1)])
  let ?o = "lruOrder E (cpDb p)"
  obtain k where k: "removedPrefix E ?o k p p'"
    using deletePagesLRU_prefix [OF B assms(2-4)] assms(5) by (metis prod.inject)
  have d: "distinct (map fst (take k ?o) @ map fst (drop k ?o))"
    using lruOrder_names(1) [OF assms(3) B, of "cpDb p"] by (simp flip: map_append)
  have all: "txBucket (ceBolt E) (cpDb p) n \<longleftrightarrow> n \<in> fst ` set (take k ?o @ drop k ?o)" for n
    using lruOrder_names(2) [OF assms(3) B, of "cpDb p"] by auto
  have "txBucket (ceBolt E) (cpDb p') n \<longleftrightarrow> n \<in> fst ` set (drop k ?o)" for n
    using k d all [of n] by (auto simp: removedPrefix_def simp del: append_take_drop_id)
  with k show ?thesis unfolding removedPrefix_def by blast
qed

text \<open>C36: Expiry does not work. Whatever has expired, the first step of the cleaner removes nothing
  and reports an error: the copies it makes of the expired keys are empty.\<close>
theorem expired_never_deleted:
  assumes "env_ok E"
  shows "\<exists>e. deleteExpiredCache E clk p = (Err e, p)"
  by (rule deleteExpiredCache_nothing [OF env_okD(1) [OF assms]])

theorem expired_never_deleted_witness:
  "\<exists>p e. Size p = 2 \<and> deleteExpiredCache refEnv (\<lambda>_. infinityTime + 1) p = (Err e, p)"
proof -
  obtain p :: "refDb CachingProperties" where "Size p = 2" by (rule refStored [of 100]) auto
  with expired_never_deleted [OF env_ok_ref, of "\<lambda>_. infinityTime + 1" p] show ?thesis by blast
qed

text \<open>A one-page cache above its watermark.\<close>

lemma refExceeded:
  obtains p where "cache_ok refEnv p" "isSizeExceeded p" "sint (maxFileSize (cpCleaner p)) = 2"
    "txBucket (ceBolt refEnv) (cpDb p) (refKey CHR ''a'')" "Size p = 2"
proof (rule refStored [of 2])
  fix p
  assume p: "cache_ok refEnv p" "Size p = 2" "cpCleaner p = cpCleaner (refCache 2)"
    "cacheMap refEnv (cpDb p) (refKey CHR ''a'') =
       Some (newMeta (\<lambda>_ _. 5) (refResponse 200 [] ''hi'') (refPage ''hi''))"
  have cl: "maxFileSize (cpCleaner p) = 2" "fillFactor (cpCleaner p) = 8106479329266893"
    using p(3) by (simp_all add: refCache_def NewCachingProperties_def NewCacheCleaner_def)
  have "rne53 16212958658533786 < 18014398509481984"
    using rne53_error(1) [of 16212958658533786] by simp
  then have "isSizeExceeded p"
    using cl p(2) by (simp add: isSizeExceeded_def toFloat_exact toFloat_nonneg)
  with p cl that show ?thesis by (auto simp: cacheMap_def split: if_splits)
qed simp

theorem tick_reaches_watermark_witness:
  "\<exists>p p'. isSizeExceeded p \<and> observeTick refEnv (\<lambda>_. 7) p = (Ok (), p') \<and> \<not> isSizeExceeded p'"
proof -
  obtain p where p: "cache_ok refEnv p" "isSizeExceeded p" "sint (maxFileSize (cpCleaner p)) = 2"
    by (rule refExceeded) blast
  with tick_reaches_watermark [OF env_ok_ref _ sort_ok_ref p(1), of "\<lambda>_. 7"] show ?thesis
    by (auto simp: bolt_live_ref)
qed

theorem cleaner_evicts_least_used_witness:
  "\<exists>p r p'. isSizeExceeded p \<and> deletePagesLRU refEnv p = (r, p') \<and>
     (\<forall>n m. txBucket refBolt (cpDb p) n \<and> \<not> txBucket refBolt (cpDb p') n \<and>
        txBucket refBolt (cpDb p') m \<longrightarrow> usesOf refEnv (cpDb p) n \<le> usesOf refEnv (cpDb p) m)"
proof -
  obtain p where p: "cache_ok refEnv p" "isSizeExceeded p" by (rule refExceeded) blast
  obtain r p' where "deletePagesLRU refEnv p = (r, p')" by force
  with cleaner_evicts_least_used [OF env_ok_ref _ sort_ok_ref p(1) this] p(2) show ?thesis
    by (auto simp: bolt_live_ref)
qed

theorem cleaner_evicts_shortest_prefix_witness:
  "\<exists>p r p' k. isSizeExceeded p \<and> deletePagesLRU refEnv p = (r, p') \<and>
     (\<forall>n. txBucket (ceBolt refEnv) (cpDb p') n \<longleftrightarrow> n \<in> fst ` set (drop k (lruOrder refEnv (cpDb p))))"
proof -
  obtain p where p: "cache_ok refEnv p" "isSizeExceeded p" by (rule refExceeded) blast
  obtain r p' where d: "deletePagesLRU refEnv p = (r, p')" by force
  have "bolt_live (ceBolt refEnv)" by (simp add: bolt_live_ref)
  from cleaner_evicts_shortest_prefix [OF env_ok_ref this sort_ok_ref p(1) d] p(2) d
  show ?thesis by blast
qed

text \<open>The watermark of the deployed fill factor. With \<open>0.9\<close> as its nearest \<open>float64\<close> and
  sizes up to \<open>2^49\<close>, the floating-point test is the exact comparison with nine tenths of
  \<open>maxFileSize\<close>, except that at equality it may go either way.\<close>
theorem watermark_exact:
  assumes "fillFactor (cpCleaner p) = 8106479329266893"
    and "0 \<le> sint (maxFileSize (cpCleaner p))" and "sint (maxFileSize (cpCleaner p)) \<le> 2 ^ 49"
    and "0 \<le> sint (Size p)" and "sint (Size p) < 2 ^ 53"
  shows "(isSizeExceeded p \<longrightarrow> 9 * sint (maxFileSize (cpCleaner p)) \<le> 10 * sint (Size p)) \<and>
    (\<not> isSizeExceeded p \<longrightarrow> 10 * sint (Size p) \<le> 9 * sint (maxFileSize (cpCleaner p)))"
proof -
  define M where "M = nat (sint (maxFileSize (cpCleaner p)))"
  define S where "S = nat (sint (Size p))"
  have M: "sint (maxFileSize (cpCleaner p)) = int M" "M \<le> 2 ^ 49"
    using assms(2,3) by (auto simp: M_def nat_le_iff)
  have S: "sint (Size p) = int S" "S < 2 ^ 53"
    using assms(4,5) by (auto simp: S_def nat_less_iff)
  let ?R = "rne53 (M * 8106479329266893)"
  have "toFloat (int M) = int M" "toFloat (int S) = int S"
    using M(2) S(2) by (auto intro!: toFloat_exact)
  then have exc: "isSizeExceeded p \<longleftrightarrow> ?R < S * 9007199254740992"
    using M(1) S(1) assms(1)
    by (simp add: isSizeExceeded_def toFloat_nonneg nat_mult_distrib flip: of_nat_less_iff [where 'a = int])
  have pow: "(2::nat) ^ 53 = 9007199254740992" "(2::nat) ^ 53 + 1 = 9007199254740993"
      "(2::nat) ^ 53 - 1 = 9007199254740991" by simp_all
  note err1 = rne53_error(1) [of "M * 8106479329266893", unfolded pow(2), unfolded pow(1)]
  note err2 = rne53_error(2) [of "M * 8106479329266893", unfolded pow(3), unfolded pow(1)]
  have Mb: "M \<le> 562949953421312" using M(2) by simp
  show ?thesis
    using watermark_above [OF err2 Mb, of S] watermark_below [OF err1 Mb, of S]
    unfolding exc M(1) S(1) by (auto simp flip: of_nat_le_iff [where 'a = int])
qed

theorem watermark_exact_witness:
  "\<exists>p :: refDb CachingProperties. Size p = 2 \<and> isSizeExceeded p \<and>
     9 * sint (maxFileSize (cpCleaner p)) \<le> 10 * sint (Size p)"
proof -
  define p :: "refDb CachingProperties" where "p = (refCache 2)\<lparr>Size := 2\<rparr>"
  have cl: "maxFileSize (cpCleaner p) = 2" "fillFactor (cpCleaner p) = 8106479329266893" "Size p = 2"
    by (simp_all add: p_def refCache_def NewCachingProperties_def NewCacheCleaner_def)
  have "rne53 16212958658533786 < 18014398509481984"
    using rne53_error(1) [of 16212958658533786] by simp
  then have e: "isSizeExceeded p"
    using cl by (simp add: isSizeExceeded_def toFloat_exact toFloat_nonneg)
  have "9 * sint (maxFileSize (cpCleaner p)) \<le> 10 * sint (Size p)"
    using watermark_exact [of p] cl e by simp
  with cl e show ?thesis by blast
qed

section \<open>The whole cache\<close>

lemma ClearCache_done:
  assumes "env_ok E" "cache_ok E p" "ClearCache E visit p = (Ok (), p')"
  obtains p1 db1 fs where "cache_ok E (p1\<lparr>cpDb := db1\<rparr>)" "clearPages (ceOs E) (cpFs p1) = (None, fs)"
    "\<And>n. txBucket (ceBolt E) db1 n \<longleftrightarrow> txBucket (ceBolt E) (cpDb p) n \<and> n \<notin> set visit"
    "p' = p1\<lparr>cpDb := db1, gaugeSize := toFloat (sint (Size p1)), cpFs := fs\<rparr>"
proof -
  have B: "bolt_ok (ceBolt E)" by (rule env_okD(1) [OF assms(1)])
  have ok: "dbOk E (cpDb p)" using assms(2) by (simp add: cache_ok_dbOk [OF B])
  show ?thesis
  proof (cases rule: clearTx_cases [OF B ok, of visit])
    case (1 p1 db1)
    obtain w fs where w: "clearPages (ceOs E) (cpFs p1) = (w, fs)" by (rule prod.exhaust)
    with assms(3) 1(1) have "w = None" "p' = p1\<lparr>cpDb := db1, gaugeSize := toFloat (sint (Size p1)), cpFs := fs\<rparr>"
      unfolding ClearCache_def by (auto split: option.splits)
    with 1 w assms(2) show ?thesis
      by (intro that [of db1 p1 fs]) (simp_all add: cache_ok_dbOk [OF B])
  qed (use assms(3) in \<open>simp_all add: ClearCache_def\<close>)
qed

lemma cache_ok_Clear:
  assumes "env_ok E" "cache_ok E p" "ClearCache E visit p = (Ok (), p')"
  shows "cache_ok E p'"
proof -
  from ClearCache_done [OF assms] obtain p1 db1 fs where "cache_ok E (p1\<lparr>cpDb := db1\<rparr>)"
    "p' = p1\<lparr>cpDb := db1, gaugeSize := toFloat (sint (Size p1)), cpFs := fs\<rparr>" by metis
  then show ?thesis by (simp add: cache_ok_def)
qed

text \<open>Clearing. When \<open>ClearCache\<close> reports success, the accounts hold, exactly the buckets the
  iteration presented are gone (so \<open>Size\<close> is zero when it presented them all), and no page file
  is left.\<close>
theorem clear_success:
  assumes "env_ok E" and "cache_ok E p" and "ClearCache E visit p = (Ok (), p')"
  shows "cache_ok E p' \<and>
    (\<forall>n. txBucket (ceBolt E) (cpDb p') n \<longleftrightarrow> txBucket (ceBolt E) (cpDb p) n \<and> n \<notin> set visit) \<and>
    (set (txNames (ceBolt E) (cpDb p)) \<subseteq> set visit \<longrightarrow> Size p' = 0) \<and>
    (\<forall>k. pageFile k (cpFs p') = None)"
proof -
  have B: "bolt_ok (ceBolt E)" by (rule env_okD(1) [OF assms(1)])
  have ok': "cache_ok E p'" by (rule cache_ok_Clear [OF assms])
  from ClearCache_done [OF assms] obtain p1 db1 fs where
    1: "clearPages (ceOs E) (cpFs p1) = (None, fs)"
      "\<And>n. txBucket (ceBolt E) db1 n \<longleftrightarrow> txBucket (ceBolt E) (cpDb p) n \<and> n \<notin> set visit"
      "p' = p1\<lparr>cpDb := db1, gaugeSize := toFloat (sint (Size p1)), cpFs := fs\<rparr>" by metis
  have "Size p' = 0" if "set (txNames (ceBolt E) (cpDb p)) \<subseteq> set visit"
    using that 1(2,3) bolt_names(2) [OF B, of "cpDb p"]
    by (intro no_buckets_no_bytes [OF B ok']) auto
  moreover have "pageFile k (cpFs p') = None" for k
    using clearPages_pageFile 1(1,3) by simp
  ultimately show ?thesis using ok' 1(2,3) by simp
qed

text \<open>A failed clearing. When the iteration meets a bucket whose page file is missing, \<open>ClearCache\<close>
  reports the error and the database and the files are as before, but the bytes of the pages visited earlier
  have been taken off \<open>Size\<close> all the same: the accounts are wrong from then on.\<close>
theorem clear_failure_drifts:
  assumes "env_ok E" and "bolt_live (ceBolt E)" and "cache_ok E p" and "distinct (xs @ [y])"
    and "\<forall>n \<in> set (xs @ [y]). txBucket (ceBolt E) (cpDb p) n"
    and "\<forall>n \<in> set xs. checkDisk E n (cpFs p) = None" and "checkDisk E y (cpFs p) = Some e"
  shows "\<exists>p'. ClearCache E (xs @ y # zs) p = (Err e, p') \<and> cpDb p' = cpDb p \<and> cpFs p' = cpFs p \<and>
    Size p' = Size p - sum_list (map (metaSize E (cpDb p)) xs) \<and>
    (sum_list (map (metaSize E (cpDb p)) xs) \<noteq> 0 \<longrightarrow> \<not> cache_ok E p')"
proof -
  have B: "bolt_ok (ceBolt E)" by (rule env_okD(1) [OF assms(1)])
  have ok: "dbOk E (cpDb p)" using assms(3) by (simp add: cache_ok_dbOk [OF B])
  obtain db1 p1 where 1: "forEach (clearBucket E) (xs @ y # zs) (cpDb p, p) = TxErr e (db1, p1)"
      "Size p1 = Size p - sum_list (map (metaSize E (cpDb p)) xs)"
    using clearBuckets_stops [OF B ok assms(4,5,6,7)] by blast
  let ?p' = "p1\<lparr>cpDb := cpDb p, gaugeSize := toFloat (sint (Size p1))\<rparr>"
  have "ClearCache E (xs @ y # zs) p = (Err e, ?p')"
    using 1(1) by (simp add: ClearCache_def clearTx_def boltUpdate_live [OF assms(2)])
  moreover have "\<not> cache_ok E ?p'" if "sum_list (map (metaSize E (cpDb p)) xs) \<noteq> 0"
    using that 1(2) assms(3) by (simp add: cache_ok_def)
  moreover have "cpFs p1 = cpFs p" using clearBuckets_fs [of p E "xs @ y # zs" "cpDb p"] 1(1) by simp
  ultimately show ?thesis using 1(2) by simp
qed

text \<open>Counting at start-up. On a database whose buckets are intact, \<open>CalculateSize\<close> succeeds and
  sets \<open>Size\<close> and \<open>PagesCount\<close> to the total and the number of the pages that are on the disk;
  when all of them are, the accounting invariant holds.\<close>
theorem calculate_size:
  assumes "env_ok E" and "bolt_live (ceBolt E)"
    and "list_all (bucketOk E (cpDb p)) (txNames (ceBolt E) (cpDb p))"
  shows "\<exists>p'. CalculateSize E p = (Ok (), p') \<and> cpDb p' = cpDb p \<and>
    Size p' = sum_list (map (metaSize E (cpDb p))
      (filter (\<lambda>n. checkDisk E n (cpFs p) = None) (txNames (ceBolt E) (cpDb p)))) \<and>
    PagesCount p' = int (length
      (filter (\<lambda>n. checkDisk E n (cpFs p) = None) (txNames (ceBolt E) (cpDb p)))) \<and>
    (list_all (\<lambda>n. checkDisk E n (cpFs p) = None) (txNames (ceBolt E) (cpDb p)) \<longrightarrow> cache_ok E p')"
proof -
  let ?ns = "txNames (ceBolt E) (cpDb p)"
  let ?s = "sum_list (map (metaSize E (cpDb p)) (filter (\<lambda>n. checkDisk E n (cpFs p) = None) ?ns))"
  let ?c = "int (length (filter (\<lambda>n. checkDisk E n (cpFs p) = None) ?ns))"
  have "\<forall>n \<in> set ?ns. bucketOk E (cpDb p) n" using assms(3) by (simp add: list_all_iff)
  from countPages [OF this, of "cpFs p" 0 0]
  have calc: "CalculateSize E p = (Ok (), p\<lparr>Size := ?s, PagesCount := ?c\<rparr>)"
    by (simp add: CalculateSize_def boltView_live [OF assms(2)])
  have "cache_ok E (p\<lparr>Size := ?s, PagesCount := ?c\<rparr>)"
    if "list_all (\<lambda>n. checkDisk E n (cpFs p) = None) ?ns"
    using that assms(3) by (simp add: cache_ok_def dbSize_def list_all_iff filter_True)
  with calc show ?thesis by simp
qed

lemma checkDisk_noFaults:
  assumes "ceOs E = noFaults"
  shows "checkDisk E k fs = (if fsLookup fs (pagePath k) = None then Some ErrNotExist else None)"
  using assms by (simp add: checkDisk_def osStat_def pagePath_def noFaults_def)

lemma refStored_onDisk:
  assumes "pageFile k fs = Some v"
  shows "checkDisk refEnv k fs = None"
  using assms by (auto simp: checkDisk_noFaults pageFile_def split: option.splits)

theorem calculate_size_witness:
  "\<exists>p p'. Size p = 0 \<and> CalculateSize refEnv p = (Ok (), p') \<and> Size p' = 2 \<and> cache_ok refEnv p'"
proof -
  obtain p where p: "cache_ok refEnv p" "Size p = 2" "pageFile (refKey CHR ''a'') (cpFs p) = Some ''6869.''"
      "\<And>n. refBucket (cpDb p) n \<longleftrightarrow> n = refKey CHR ''a''"
    by (rule refStored [of 100]) auto
  have "set (txNames refBolt (cpDb p)) = {refKey CHR ''a''}"
    using bolt_names(2) [OF bolt_ok_ref, of "cpDb p"] p(4) by simp
  then have "list_all (\<lambda>n. checkDisk refEnv n (cpFs p) = None) (txNames refBolt (cpDb p))"
    using refStored_onDisk [OF p(3)] by (simp add: list_all_iff)
  moreover have "list_all (bucketOk refEnv (cpDb p)) (txNames refBolt (cpDb p))"
    using p(1) by (simp add: cache_ok_def)
  ultimately obtain p' where p': "CalculateSize refEnv (p\<lparr>Size := 0\<rparr>) = (Ok (), p')" "cpDb p' = cpDb p"
      "cache_ok refEnv p'"
    using calculate_size [OF env_ok_ref, of "p\<lparr>Size := 0\<rparr>"] by (auto simp: bolt_live_ref)
  then have "Size p' = 2" using p(1,2) by (simp add: cache_ok_def)
  moreover have "Size (p\<lparr>Size := 0\<rparr>) = 0" by simp
  ultimately show ?thesis using p' by blast
qed

theorem clear_success_witness:
  "\<exists>p p'. Size p = 2 \<and> ClearCache refEnv [refKey CHR ''a''] p = (Ok (), p') \<and> Size p' = 0"
proof -
  obtain p where p: "cache_ok refEnv p" "Size p = 2" "pageFile (refKey CHR ''a'') (cpFs p) = Some ''6869.''"
      "\<And>n. refBucket (cpDb p) n \<longleftrightarrow> n = refKey CHR ''a''"
    by (rule refStored [of 100]) auto
  have "bucketOk refEnv (cpDb p) (refKey CHR ''a'')"
    using p(1,4) cache_ok_alt [of refEnv p] bolt_ok_ref by simp
  then obtain db1 p1 where 1: "clearBucket refEnv (refKey CHR ''a'') (cpDb p, p) = TxDone (db1, p1)"
    using clearBucket_ok [of refEnv "cpDb p" "refKey CHR ''a''" p] refStored_onDisk [OF p(3)] p(4)
      bolt_ok_ref by (metis refBolt_simps(1) refEnv_simps(1))
  have "fst (removeAllEach noFaults ps fs) = None" for ps fs
    by (induction ps arbitrary: fs) (simp_all add: osRemoveAll_def noFaults_def)
  then obtain fs where "clearPages (ceOs refEnv) (cpFs p1) = (None, fs)"
    by (metis clearPages_def prod.collapse refEnv_simps(3))
  with 1 obtain p' where clear: "ClearCache refEnv [refKey CHR ''a''] p = (Ok (), p')"
    using bolt_live_ref by (simp add: ClearCache_def clearTx_def boltUpdate_live)
  moreover have "set (txNames refBolt (cpDb p)) \<subseteq> {refKey CHR ''a''}"
    using bolt_names(2) [OF bolt_ok_ref, of "cpDb p"] p(4) by simp
  ultimately have "Size p' = 0" using clear_success [OF env_ok_ref p(1) clear] by simp
  with clear p(2) show ?thesis by blast
qed

theorem clear_failure_drifts_witness:
  "\<exists>p p' e. cache_ok refEnv p \<and>
     ClearCache refEnv [refKey CHR ''a'', refKey CHR ''b''] p = (Err e, p') \<and>
     cpDb p' = cpDb p \<and> Size p' = Size p - 2 \<and> \<not> cache_ok refEnv p'"
proof -
  let ?a = "refKey CHR ''a''" and ?b = "refKey CHR ''b''"
  let ?m = "newMeta (\<lambda>_ _. 5) (refResponse 200 [] ''hi'') (refPage ''hi'')"
  have ab: "?b \<noteq> ?a" by (simp add: refKey_def)
  obtain p where p: "cache_ok refEnv p" "pageFile ?a (cpFs p) = Some ''6869.''"
      "\<And>n. refBucket (cpDb p) n \<longleftrightarrow> n = ?a" "cacheMap refEnv (cpDb p) ?a = Some ?m"
      "\<And>j. diskKey j \<Longrightarrow> j \<noteq> ?a \<Longrightarrow> fsLookup (cpFs p) (pagePath j) = None"
    by (rule refStored [of 100]) auto
  have nb: "\<not> txBucket (ceBolt refEnv) (cpDb p) ?b" using p(3) ab by simp
  have live: "bolt_live (ceBolt refEnv)" by (simp add: bolt_live_ref)
  have b: "diskKey ?b" by simp
  obtain db' where g: "dbGains refEnv ?b ?m (cpDb p) db'"
    by (rule insertMeta_live [OF env_ok_ref live b nb plain_jsonMeta])
  let ?p = "UpdateCachePagesCount 1 (IncrementSize (pmSize ?m) (p\<lparr>cpDb := db'\<rparr>))"
  have ok: "cache_ok refEnv ?p"
    using cache_ok_gains [OF _ p(1) g b] bolt_ok_ref by simp
  have sz: "metaSize refEnv db' ?a = 2"
    using cacheMap_gains(1) [OF g] p(4) ab
    by (auto simp: metaSize_def cacheMap_def newMeta_plain split: if_splits dest!: fun_cong [of _ _ ?a])
  have "checkDisk refEnv ?b (cpFs ?p) = Some ErrNotExist"
    using p(5) [of ?b] ab by (simp add: checkDisk_noFaults)
  moreover have "checkDisk refEnv ?a (cpFs ?p) = None" using refStored_onDisk [OF p(2)] by simp
  moreover have "txBucket (ceBolt refEnv) (cpDb ?p) ?a" "txBucket (ceBolt refEnv) (cpDb ?p) ?b"
    using g p(3) by (simp_all add: dbGains_def)
  ultimately have "\<exists>p'. ClearCache refEnv ([?a] @ ?b # []) ?p = (Err ErrNotExist, p') \<and> cpDb p' = cpDb ?p \<and> cpFs p' = cpFs ?p \<and>
      Size p' = Size ?p - sum_list (map (metaSize refEnv (cpDb ?p)) [?a]) \<and>
      (sum_list (map (metaSize refEnv (cpDb ?p)) [?a]) \<noteq> 0 \<longrightarrow> \<not> cache_ok refEnv p')"
    using ab bolt_live_ref by (intro clear_failure_drifts [OF env_ok_ref _ ok]) auto
  with ok sz show ?thesis by fastforce
qed

end
