(* ===== verification/LoadBalancer.thy ===== *)
theory LoadBalancer
  imports PoolProps CacheProps
begin

text \<open>
  Package \<open>lb\<close>: the path of a client's request (\<open>lb/lbHandlers.go\<close>, \<open>lb/saveToCache.go\<close>,
  \<open>isHTTPVersionSupported\<close> and the health checker of \<open>lb/loadBalancer.go\<close>), the part of package
  \<open>backend\<close> that talks to a backend (\<open>backend/backend.go\<close>), the time tracker (\<open>timer/timer.go\<close>)
  and the counters of package \<open>metrics\<close> they update.

  \<open>lbWorld\<close> is what one request meets: the answers of the HTTP client, failing writes to the
  client, the clock, and what other goroutines do to the pool meanwhile, as lists of pool
  events. A handler returns its outcome and the state; an error it returns is a value \<open>Err\<close>.
\<close>

section \<open>Metrics\<close>

record Metrics =
  mRequestsNow :: int
  mRequests :: nat
  mRequestsByCache :: nat
  mRequestBodySize :: "nat list"
  mResponseBodySize :: "nat list"
  mBackendProcessingTime :: "nat list"
  mCacheProcessingTime :: "nat list"
  mFullTripTime :: "nat list"

definition NewMetrics :: Metrics where
  "NewMetrics =
     \<lparr>mRequestsNow = 0, mRequests = 0, mRequestsByCache = 0, mRequestBodySize = [], mResponseBodySize = [],
      mBackendProcessingTime = [], mCacheProcessingTime = [], mFullTripTime = []\<rparr>"

text \<open>A body that has been closed cannot be read, and is not counted. \<open>http.NoBody\<close>, which an empty
  body is, reads as empty all the same.\<close>

definition UpdateRequestBodySize :: "request \<Rightarrow> Metrics \<Rightarrow> Metrics" where
  "UpdateRequestBodySize req m =
     (if reqBodyClosed req \<and> reqBody req \<noteq> [] then m
      else m\<lparr>mRequestBodySize := mRequestBodySize m @ [length (reqBody req)]\<rparr>)"

definition UpdateResponseBodySize :: "nat \<Rightarrow> Metrics \<Rightarrow> Metrics" where
  "UpdateResponseBodySize n m = m\<lparr>mResponseBodySize := mResponseBodySize m @ [n]\<rparr>"

definition UpdateCacheProcessingTime :: "nat \<Rightarrow> Metrics \<Rightarrow> Metrics" where
  "UpdateCacheProcessingTime t m = m\<lparr>mCacheProcessingTime := mCacheProcessingTime m @ [t]\<rparr>"

definition UpdateBackendProcessingTime :: "nat \<Rightarrow> Metrics \<Rightarrow> Metrics" where
  "UpdateBackendProcessingTime t m = m\<lparr>mBackendProcessingTime := mBackendProcessingTime m @ [t]\<rparr>"

definition UpdateFullTripTime :: "nat \<Rightarrow> Metrics \<Rightarrow> Metrics" where
  "UpdateFullTripTime t m = m\<lparr>mFullTripTime := mFullTripTime m @ [t]\<rparr>"

text \<open>Durations are nanoseconds on the monotonic clock; \<open>Milliseconds\<close> truncates.\<close>

definition milliseconds :: "nat \<Rightarrow> nat" where
  "milliseconds d = d div 1000000"

definition SaveTimerDataGotFromCache :: "nat \<Rightarrow> Metrics \<Rightarrow> Metrics" where
  "SaveTimerDataGotFromCache d m = UpdateCacheProcessingTime (milliseconds d) m"

definition SaveTimeDataBackend :: "nat \<Rightarrow> Metrics \<Rightarrow> Metrics" where
  "SaveTimeDataBackend d m = UpdateBackendProcessingTime (milliseconds d) m"

definition SaveTimeFullTrip :: "nat \<Rightarrow> Metrics \<Rightarrow> Metrics" where
  "SaveTimeFullTrip d m = UpdateFullTripTime (milliseconds d) m"

section \<open>Talking to a backend\<close>

text \<open>
  What \<open>http.DefaultClient.Do\<close> returns: a response, whose body may fail to be read in full, or
  an error, which is a \<open>*url.Error\<close> around its cause according to the documentation.
\<close>

datatype doRes =
    DoResponse response "goerror option"
  | DoUrlError goerror
  | DoOtherError goerror

record responseError =
  reStatusCode :: int
  reErr :: "goerror option"

text \<open>\<open>newReq := *r\<close> copies the request but shares its URL, so the assignments through \<open>req.URL\<close> reach
  the request of the caller: the first result is the copy, the second the caller's.\<close>

definition prepareRequest :: "Backend \<Rightarrow> request \<Rightarrow> request \<times> request" where
  "prepareRequest b r =
     (let serverUrl = bUrl b;
          u = (reqURL r)\<lparr>urlHost := urlHost serverUrl, urlScheme := urlScheme serverUrl\<rparr>
      in (r\<lparr>reqHost := urlHost serverUrl, reqURL := u, reqURI := []\<rparr>, r\<lparr>reqURL := u\<rparr>))"

definition makeRequest ::
  "doRes \<Rightarrow> (response \<times> goerror option) option \<times> responseError option" where
  "makeRequest answer =
     (case answer of
        DoUrlError e \<Rightarrow>
          (None, Some \<lparr>reStatusCode = (if errors_is e ErrCanceled then - 1 else 500), reErr = Some e\<rparr>)
      | DoOtherError e \<Rightarrow> (None, Some \<lparr>reStatusCode = 0, reErr = None\<rparr>)
      | DoResponse resp rerr \<Rightarrow>
          let status = respStatus resp in
          if status \<ge> 500 \<and> status < 600 \<and> status \<noteq> 505 \<and> status \<noteq> 501 then
            (None, Some \<lparr>reStatusCode = int status, reErr = Some (ErrMsg (''Error: '' @ goItoa status))\<rparr>)
          else (Some (resp, rerr), None))"

text \<open>The HTTP client closes the body of the request it is given, which the copy shares too.\<close>

definition SendRequestToBackend ::
  "(request \<Rightarrow> doRes) \<Rightarrow> Backend \<Rightarrow> request \<Rightarrow>
   ((response \<times> goerror option) option \<times> goerror option) \<times> request" where
  "SendRequestToBackend send b req =
     (let (r, req) = prepareRequest b req;
          (resp, respError) = makeRequest (send r);
          req = req\<lparr>reqBodyClosed := True\<rparr>
      in case respError of
           Some re \<Rightarrow> ((None, reErr re), req)
         | None \<Rightarrow> ((resp, None), req))"

definition WriteBodyAndReturn ::
  "goerror option \<Rightarrow> response \<Rightarrow> goerror option \<Rightarrow> rwriter \<Rightarrow> bytes res \<times> rwriter" where
  "WriteBodyAndReturn fault resp rerr rw =
     (let rw = rw\<lparr>rwHeader := copyHeader (respHeader resp) (rwHeader rw)\<rparr>;
          byteArray = respBody resp in
      case rerr of
        Some e \<Rightarrow>
          if \<not> errors_is e ErrEOF then
            (Err e, httpErrorTo fault ''Internal Server Error'' 500 rw)
          else (case writeBody fault byteArray rw of
                  (Some e, rw) \<Rightarrow> (Err e, httpErrorTo fault ''Internal Server Error'' 500 rw)
                | (None, rw) \<Rightarrow> (Ok byteArray, rw))
      | None \<Rightarrow>
          (case writeBody fault byteArray rw of
             (Some e, rw) \<Rightarrow> (Err e, httpErrorTo fault ''Internal Server Error'' 500 rw)
           | (None, rw) \<Rightarrow> (Ok byteArray, rw)))"

section \<open>The load balancer\<close>

text \<open>\<open>lbSaves\<close> are the goroutines \<open>go lb.SaveToCache(...)\<close> has started and that have not run yet.\<close>

record 'db LoadBalancer =
  lbPool :: ServerPool
  lbCache :: "'db CachingProperties option"
  lbMetrics :: Metrics
  lbSaves :: "(request \<times> response \<times> bytes) list"

record 'db lbWorld =
  lwCache :: "'db cacheEnv"
  lwUrls :: urlLib
  lwSend :: "nat \<Rightarrow> request \<Rightarrow> doRes"
  lwOthers :: "nat \<Rightarrow> nat \<Rightarrow> poolEvent list"
  lwWrite :: "nat \<Rightarrow> goerror option"
  lwElapsed :: "nat \<Rightarrow> nat"
  lwClock :: "nat \<Rightarrow> time"
  lwNow :: "time \<times> time"

record 'db hstate =
  hRw :: rwriter
  hReq :: request
  hLb :: "'db LoadBalancer"

definition onMetrics :: "(Metrics \<Rightarrow> Metrics) \<Rightarrow> 'db hstate \<Rightarrow> 'db hstate" where
  "onMetrics f h = h\<lparr>hLb := (hLb h)\<lparr>lbMetrics := f (lbMetrics (hLb h))\<rparr>\<rparr>"

definition onPool :: "(ServerPool \<Rightarrow> ServerPool) \<Rightarrow> 'db hstate \<Rightarrow> 'db hstate" where
  "onPool f h = h\<lparr>hLb := (hLb h)\<lparr>lbPool := f (lbPool (hLb h))\<rparr>\<rparr>"

definition onRw :: "(rwriter \<Rightarrow> rwriter) \<Rightarrow> 'db hstate \<Rightarrow> 'db hstate" where
  "onRw f h = h\<lparr>hRw := f (hRw h)\<rparr>"

text \<open>\<open>timer.MakeRequestTimeTracker\<close>; \<open>d\<close> is the time the handler takes.\<close>

definition MakeRequestTimeTracker ::
  "('db hstate \<Rightarrow> 'a res \<times> 'db hstate) \<Rightarrow> (nat \<Rightarrow> Metrics \<Rightarrow> Metrics) \<Rightarrow> bool \<Rightarrow> nat \<Rightarrow>
   'db hstate \<Rightarrow> 'a res \<times> 'db hstate" where
  "MakeRequestTimeTracker handler saver saveOnError d h =
     (case handler h of
        (Panic m, h) \<Rightarrow> (Panic m, h)
      | (Ok a, h) \<Rightarrow> (Ok a, onMetrics (saver d) h)
      | (Err e, h) \<Rightarrow> (Err e, if saveOnError then onMetrics (saver d) h else h))"

text \<open>\<open>http.ParseHTTPVersion\<close>.\<close>

definition ParseHTTPVersion :: "string \<Rightarrow> (nat \<times> nat) option" where
  "ParseHTTPVersion v =
     (if v = ''HTTP/1.1'' then Some (1, 1)
      else if v = ''HTTP/1.0'' then Some (1, 0)
      else if \<not> hasPrefix ''HTTP/'' v then None
      else if length v \<noteq> 8 then None
      else if v ! 6 \<noteq> CHR ''.'' then None
      else case (parseUint (goSlice v 5 6), parseUint (goSlice v 7 8)) of
             (UVal a, UVal b) \<Rightarrow> Some (a, b)
           | _ \<Rightarrow> None)"

definition isHTTPVersionSupported :: "request \<Rightarrow> bool" where
  "isHTTPVersionSupported req =
     (case ParseHTTPVersion (reqProto req) of Some (maj, mino) \<Rightarrow> maj = 1 \<and> mino = 1 | None \<Rightarrow> False)"

definition getPageHandler :: "'db lbWorld \<Rightarrow> 'db hstate \<Rightarrow> unit res \<times> 'db hstate" where
  "getPageHandler W h =
     (case lbCache (hLb h) of
        None \<Rightarrow> (Err (ErrMsg ''cache properties weren't set''), h)
      | Some c \<Rightarrow>
          (case ctxHash (hReq h) of
             None \<Rightarrow> (Err (ErrMsg ''couldn't get a hash from request context''), h)
           | Some key \<Rightarrow>
               (case GetPageFromCache (lwCache W) (lwClock W) (fst (lwNow W)) (snd (lwNow W)) key (hReq h) c of
                  (r, req, c) \<Rightarrow>
                    let h = h\<lparr>hReq := req, hLb := (hLb h)\<lparr>lbCache := Some c\<rparr>\<rparr> in
                    (case r of
                       Err e \<Rightarrow> (Err e, h)
                     | Panic m \<Rightarrow> (Panic m, h)
                     | Ok page \<Rightarrow>
                         let h = onRw (\<lambda>rw. rw\<lparr>rwHeader := copyHeader (pageHeader page) (rwHeader rw)\<rparr>) h;
                             (err, rw) = writeBody (lwWrite W 0) (pageBody page) (hRw h);
                             h = h\<lparr>hRw := rw\<rparr>
                         in (case err of
                               Some e \<Rightarrow> (Err e, h)
                             | None \<Rightarrow>
                                 (Ok (), onMetrics (UpdateResponseBodySize (length (pageBody page))) h))))))"

text \<open>
  One pass from the label \<open>ChooseServer\<close>, in three parts: choosing a server, taking a slot of it and
  sending, and what follows the exchange. \<open>None\<close> is \<open>goto ChooseServer\<close>. \<open>defers\<close> counts the passes
  whose two deferred metric updates are pending; they all run when the function returns. What
  other goroutines do to the pool comes before the choice, while the channel send waits, and
  while the backend works.
\<close>

definition others :: "'db lbWorld \<Rightarrow> nat \<Rightarrow> nat \<Rightarrow> 'db hstate \<Rightarrow> 'db hstate" where
  "others W k phase h = onPool (fold (poolStep (lwUrls W)) (lwOthers W k phase)) h"

definition sendTo ::
  "'db lbWorld \<Rightarrow> nat \<Rightarrow> nat \<Rightarrow> 'db hstate \<Rightarrow> (response \<times> goerror option) option res \<times> 'db hstate" where
  "sendTo W k server h =
     (let ((resp, err), req) = SendRequestToBackend (lwSend W k) (backendAt (lbPool (hLb h)) server) (hReq h);
          h = others W k 2 (h\<lparr>hReq := req\<rparr>);
          h = onPool (\<lambda>p. snd (freeAt server p)) h
      in case err of Some e \<Rightarrow> (Err e, h) | None \<Rightarrow> (Ok resp, h))"

definition afterSend ::
  "'db lbWorld \<Rightarrow> nat \<Rightarrow> nat \<Rightarrow> nat \<Rightarrow> (response \<times> goerror option) option res \<times> 'db hstate \<Rightarrow>
   (unit res option \<times> nat) \<times> 'db hstate" where
  "afterSend W k defers server rh =
     (case rh of
        (Panic m, h) \<Rightarrow> ((Some (Panic m), defers), h)
      | (Err e, h) \<Rightarrow>
          if errors_is e ErrCanceled then
            ((Some (Err (ErrWrap (''['' @ serverURL (lwUrls W) (lbPool (hLb h)) server @ '']: '') e)), defers), h)
          else ((None, defers), onPool (SetAlive server False) h)
      | (Ok None, h) \<Rightarrow> ((Some (Panic ''nil pointer dereference''), defers), h)
      | (Ok (Some (resp, rerr)), h) \<Rightarrow>
          (case WriteBodyAndReturn (lwWrite W (k + 1)) resp rerr (hRw h) of
             (Panic m, rw) \<Rightarrow> ((Some (Panic m), defers), h\<lparr>hRw := rw\<rparr>)
           | (Err e, rw) \<Rightarrow>
               ((Some (Err (ErrWrap (''['' @ serverURL (lwUrls W) (lbPool (hLb h)) server @ '']: '') e)), defers),
                h\<lparr>hRw := rw\<rparr>)
           | (Ok byteArray, rw) \<Rightarrow>
               let h = onMetrics (UpdateResponseBodySize (length byteArray)) (h\<lparr>hRw := rw\<rparr>)
               in ((Some (Ok ()), defers),
                   h\<lparr>hLb := (hLb h)\<lparr>lbSaves := lbSaves (hLb h) @ [(hReq h, resp, byteArray)]\<rparr>\<rparr>)))"

definition attemptOn ::
  "'db lbWorld \<Rightarrow> nat \<Rightarrow> nat \<Rightarrow> nat \<Rightarrow> 'db hstate \<Rightarrow> (unit res option \<times> nat) \<times> 'db hstate" where
  "attemptOn W k defers server h =
     (case assignAt server (lbPool (hLb h)) of
        (False, p) \<Rightarrow> ((None, defers), onPool (\<lambda>_. p) h)
      | (True, p) \<Rightarrow>
          afterSend W k (Suc defers) server
            (MakeRequestTimeTracker (sendTo W k server) SaveTimeDataBackend False (lwElapsed W (k + 2))
              (onMetrics (\<lambda>m. m\<lparr>mRequestsNow := mRequestsNow m + 1\<rparr>) (onPool (\<lambda>_. p) h))))"

definition backendAttempt ::
  "'db lbWorld \<Rightarrow> nat \<Rightarrow> nat \<Rightarrow> 'db hstate \<Rightarrow> (unit res option \<times> nat) \<times> 'db hstate" where
  "backendAttempt W k defers h =
     (let h = others W k 0 h in
      case GetNextPeer (lbPool (hLb h)) of
        (Err e, p) \<Rightarrow>
          ((Some (Err e), defers), onRw (httpError (errText e) 503) (onPool (\<lambda>_. p) h))
      | (Panic m, p) \<Rightarrow> ((Some (Panic m), defers), onPool (\<lambda>_. p) h)
      | (Ok server, p) \<Rightarrow> attemptOn W k defers server (others W k 1 (onPool (\<lambda>_. p) h)))"

definition runDefers :: "nat \<Rightarrow> Metrics \<Rightarrow> Metrics" where
  "runDefers n m = m\<lparr>mRequestsNow := mRequestsNow m - int n, mRequests := mRequests m + n\<rparr>"

text \<open>The loop the label makes. It need not end, so it takes fuel; \<open>None\<close> is out of fuel.\<close>

fun backendLoop ::
  "'db lbWorld \<Rightarrow> nat \<Rightarrow> nat \<Rightarrow> nat \<Rightarrow> 'db hstate \<Rightarrow> (unit res \<times> 'db hstate) option" where
  "backendLoop W 0 k defers h = None"
| "backendLoop W (Suc fuel) k defers h =
     (case backendAttempt W k defers h of
        ((Some r, defers), h) \<Rightarrow> Some (r, onMetrics (runDefers defers) h)
      | ((None, defers), h) \<Rightarrow> backendLoop W fuel (Suc k) defers h)"

definition backendHandler :: "'db lbWorld \<Rightarrow> nat \<Rightarrow> 'db hstate \<Rightarrow> (unit res \<times> 'db hstate) option" where
  "backendHandler W fuel h = backendLoop W fuel 0 0 h"

definition ErrOnlyIfCached :: goerror where
  "ErrOnlyIfCached = ErrMsg ''HTTP 504 Unsatisfiable Request (only-if-cached)''"

definition loadBalancerHandler ::
  "'db lbWorld \<Rightarrow> nat \<Rightarrow> 'db hstate \<Rightarrow> (unit res \<times> 'db hstate) option" where
  "loadBalancerHandler W fuel h =
     (if \<not> isHTTPVersionSupported (hReq h) then
        Some (Err (ErrMsg ''expected HTTP/1.1''), onRw (httpError ''Expected HTTP/1.1'' 505) h)
      else
        let requestHash = RequestHashKey (lwCache W) (urlString (lwUrls W)) (hReq h);
            h = h\<lparr>hReq := (hReq h)\<lparr>ctxHash := Some requestHash\<rparr>\<rparr> in
        case MakeRequestTimeTracker (getPageHandler W) SaveTimerDataGotFromCache False (lwElapsed W 1) h of
          (Panic m, h) \<Rightarrow> Some (Panic m, h)
        | (Ok (), h) \<Rightarrow> Some (Ok (), onMetrics (\<lambda>m. m\<lparr>mRequestsByCache := mRequestsByCache m + 1\<rparr>) h)
        | (Err e, h) \<Rightarrow>
            if ctxOnlyIfCached (hReq h) = Some True then
              Some (Err ErrOnlyIfCached, onRw (httpError (errText ErrOnlyIfCached) 504) h)
            else backendHandler W fuel h)"

definition LoadBalancerHandler ::
  "'db lbWorld \<Rightarrow> nat \<Rightarrow> 'db hstate \<Rightarrow> (unit res \<times> 'db hstate) option" where
  "LoadBalancerHandler W fuel h =
     (case loadBalancerHandler W fuel h of
        None \<Rightarrow> None
      | Some r \<Rightarrow>
          (case MakeRequestTimeTracker (\<lambda>_. r) SaveTimeFullTrip True (lwElapsed W 0) h of
             (Panic m, h) \<Rightarrow> Some (Panic m, h)
           | (_, h) \<Rightarrow> Some (Ok (), onMetrics (UpdateRequestBodySize (hReq h)) h)))"

section \<open>Saving to the cache, and the health checker\<close>

text \<open>The goroutine of \<open>SaveToCache\<close>; \<open>clk\<close> are its readings of the clock.\<close>

definition SaveToCache ::
  "'db cacheEnv \<Rightarrow> (nat \<Rightarrow> nat \<Rightarrow> time) \<Rightarrow> request \<times> response \<times> bytes \<Rightarrow> 'db LoadBalancer \<Rightarrow>
   unit res \<times> 'db LoadBalancer" where
  "SaveToCache E clk job lb =
     (let (req, resp, byteArray) = job in
      if \<not> (respStatus resp \<ge> 200 \<and> respStatus resp < 400) then (Ok (), lb)
      else let cacheItem = \<lparr>pageBody = byteArray, pageHeader = respHeader resp\<rparr> in
        case ctxHash req of
          None \<Rightarrow> (Ok (), lb)
        | Some key \<Rightarrow>
            (case lbCache lb of
               None \<Rightarrow> (Panic ''nil pointer dereference'', lb)
             | Some c \<Rightarrow>
                 (case InsertPageInCache E clk key req resp cacheItem c of
                    (Panic m, c) \<Rightarrow> (Panic m, lb\<lparr>lbCache := Some c\<rparr>)
                  | (_, c) \<Rightarrow> (Ok (), lb\<lparr>lbCache := Some c\<rparr>))))"

text \<open>A pending save runs.\<close>

definition runSave ::
  "'db cacheEnv \<Rightarrow> (nat \<Rightarrow> nat \<Rightarrow> time) \<Rightarrow> 'db LoadBalancer \<Rightarrow> unit res \<times> 'db LoadBalancer" where
  "runSave E clk lb =
     (case lbSaves lb of
        [] \<Rightarrow> (Ok (), lb)
      | job # jobs \<Rightarrow> SaveToCache E clk job (lb\<lparr>lbSaves := jobs\<rparr>))"

text \<open>\<open>healthCheckFunc\<close> of \<open>main.go\<close>, and one round of \<open>HealthChecker\<close>: the checks run in goroutines,
  here in the order \<open>order\<close>, a rearrangement of the servers listed when the round began.\<close>

definition healthCheckFunc :: "(string \<Rightarrow> int64 \<Rightarrow> bool) \<Rightarrow> nat \<Rightarrow> ServerPool \<Rightarrow> ServerPool" where
  "healthCheckFunc dial server p = SetAlive server (CheckIfAlive dial (backendAt p server)) p"

definition healthRound :: "(string \<Rightarrow> int64 \<Rightarrow> bool) \<Rightarrow> nat list \<Rightarrow> ServerPool \<Rightarrow> ServerPool" where
  "healthRound dial order p = fold (healthCheckFunc dial) order p"

end
