(* ===== verification/AdminHandlers.thy ===== *)
theory AdminHandlers
  imports LoadBalancer GoJson
begin

text \<open>
  The administration handlers of package \<open>lb\<close> (\<open>lb/adminHandlers.go\<close>): adding and removing a
  backend, listing the backends, clearing the cache. The forms are decoded by \<open>GoJson\<close>, whose decoder
  gives its error together with what it had filled into the form by then; \<open>http.ServeFile\<close> is an
  argument.
\<close>

section \<open>The handlers\<close>

record AddForm =
  afUrl :: string
  afHealthCheckTcpTimeout :: int64
  afMaximalRequests :: int64

record RemoveForm =
  rfUrl :: string

record getResponseJSON =
  grURL :: string
  grHealthCheckTcpTimeout :: int
  grMaximalRequests :: nat
  grAlive :: bool

record adminLib =
  alUrls :: urlLib
  alDial :: "string \<Rightarrow> int64 \<Rightarrow> bool"
  serveFile :: "string \<Rightarrow> rwriter \<Rightarrow> rwriter"

text \<open>\<open>json.NewDecoder(req.Body).Decode(&add)\<close> into a zero form, and the text of the server list.\<close>

definition addFields :: "AddForm field list" where
  "addFields =
     [(''Url'', strField (\<lambda>s f. f\<lparr>afUrl := s\<rparr>)),
      (''HealthCheckTcpTimeout'', intField 64 (\<lambda>i f. f\<lparr>afHealthCheckTcpTimeout := of_int i\<rparr>)),
      (''MaximalRequests'', intField 64 (\<lambda>i f. f\<lparr>afMaximalRequests := of_int i\<rparr>))]"

definition decodeAdd :: "bytes \<Rightarrow> goerror option \<times> AddForm" where
  "decodeAdd body =
     decodeBody addFields \<lparr>afUrl = [], afHealthCheckTcpTimeout = 0, afMaximalRequests = 0\<rparr> body"

definition decodeRemove :: "bytes \<Rightarrow> goerror option \<times> RemoveForm" where
  "decodeRemove body = decodeBody [(''Url'', strField (\<lambda>s f. f\<lparr>rfUrl := s\<rparr>))] \<lparr>rfUrl = []\<rparr> body"

definition rowJson :: "getResponseJSON \<Rightarrow> json" where
  "rowJson r =
     JObj [(''URL'', JStr (grURL r)), (''HealthCheckTcpTimeout'', JNum (printInt (grHealthCheckTcpTimeout r))),
           (''MaximalRequests'', JNum (printInt (int (grMaximalRequests r)))), (''Alive'', JBool (grAlive r))]"

definition encodeServers :: "getResponseJSON list \<Rightarrow> goerror + bytes" where
  "encodeServers rows = Inr (printJson (JArr (map rowJson rows)))"

text \<open>\<open>%\<close> on an \<open>int\<close> and the conversion to \<open>int32\<close>.\<close>

definition goRem :: "int64 \<Rightarrow> int \<Rightarrow> int64" where
  "goRem a b = of_int (sgn (sint a) * (\<bar>sint a\<bar> mod \<bar>b\<bar>))"

definition toInt32 :: "int64 \<Rightarrow> int32" where
  "toInt32 a = of_int (sint a)"

definition addForm :: "adminLib \<Rightarrow> AddForm \<Rightarrow> rwriter \<Rightarrow> ServerPool \<Rightarrow> unit res \<times> rwriter \<times> ServerPool" where
  "addForm L form rw p =
     (if FindServerByUrl (alUrls L) (afUrl form) p \<noteq> None then
        (Ok (), httpError ''Server already exists'' 412 rw, p)
      else if sint (afHealthCheckTcpTimeout form) \<le> 0 then
        (Ok (), httpError ''Bad Request: timeout is below zero or equal'' 400 rw, p)
      else if sint (afMaximalRequests form) \<le> 0 then
        (Ok (), httpError ''Bad Request: maxReq is below zero or equal'' 400 rw, p)
      else
        let maxReq = goRem (afMaximalRequests form) (2 ^ 31);
            server = \<lparr>scURL = afUrl form, scHealthCheckTcpTimeout = afHealthCheckTcpTimeout form,
                      scMaximalRequests = toInt32 maxReq\<rparr>
        in (case NewBackendConfig (alUrls L) server of
              Panic m \<Rightarrow> (Panic m, rw, p)
            | Err e \<Rightarrow> (Err e, rw, p)
            | Ok None \<Rightarrow> (Ok (), httpError ''Bad URL'' 400 rw, p)
            | Ok (Some b) \<Rightarrow>
                let i = length (backends p);
                    p = healthCheckFunc (alDial L) i (AddServer b p)
                in (Ok (), snd (writeBody None ''Success!'' rw), p)))"

definition AddServerHandler ::
  "adminLib \<Rightarrow> request \<Rightarrow> rwriter \<Rightarrow> ServerPool \<Rightarrow> unit res \<times> rwriter \<times> ServerPool" where
  "AddServerHandler L req rw p =
     (if reqMethod req = ''POST'' then
        let (err, form) = decodeAdd (reqBody req);
            rw = (if err \<noteq> None then httpError ''Couldn't parse JSON'' 400 rw else rw)
        in addForm L form rw p
      else if reqMethod req = ''GET'' then (Ok (), serveFile L ''views/add.html'' rw, p)
      else (Ok (), httpError ''Only POST and GET requests are supported'' 405 rw, p))"

definition RemoveServerHandler ::
  "adminLib \<Rightarrow> request \<Rightarrow> rwriter \<Rightarrow> ServerPool \<Rightarrow> rwriter \<times> ServerPool" where
  "RemoveServerHandler L req rw p =
     (if reqMethod req = ''DELETE'' then
        let (err, form) = decodeRemove (reqBody req);
            rw = (if err \<noteq> None then httpError ''Couldn't parse JSON'' 400 rw else rw)
        in (case RemoveServerByUrl (alUrls L) (rfUrl form) p of
              (Some e, p) \<Rightarrow> (httpError ''Server doesn't exist'' 404 rw, p)
            | (None, p) \<Rightarrow> (snd (writeBody None ''Success!'' rw), p))
      else if reqMethod req = ''GET'' then (serveFile L ''views/remove.html'' rw, p)
      else (httpError ''Only DELETE and GET requests are supported'' 405 rw, p))"

text \<open>\<open>Duration.Milliseconds\<close> truncates towards zero.\<close>

definition durMilliseconds :: "int64 \<Rightarrow> int" where
  "durMilliseconds d = sgn (sint d) * (\<bar>sint d\<bar> div 1000000)"

definition serverRow :: "adminLib \<Rightarrow> ServerPool \<Rightarrow> nat \<Rightarrow> getResponseJSON" where
  "serverRow L p i =
     (let v = backendAt p i in
      \<lparr>grURL = urlString (alUrls L) (bUrl v),
       grHealthCheckTcpTimeout = durMilliseconds (healthCheckTcpTimeout v),
       grMaximalRequests = maximalRequests v, grAlive = alive v\<rparr>)"

definition GetServersHandler ::
  "adminLib \<Rightarrow> goerror option \<Rightarrow> request \<Rightarrow> rwriter \<Rightarrow> ServerPool \<Rightarrow> rwriter" where
  "GetServersHandler L fault req rw p =
     (if reqMethod req \<noteq> ''GET'' then httpError ''Only GET requests are supported'' 405 rw
      else (case encodeServers (map (serverRow L p) (servers p)) of
              Inl e \<Rightarrow> httpError (''Internal Server Error: '' @ errText e) 500 rw
            | Inr b \<Rightarrow>
                (case writeBody fault b rw of
                   (Some e, rw) \<Rightarrow> httpErrorTo fault ''Internal Server Error'' 500 rw
                 | (None, rw) \<Rightarrow> setHeader ''Content-Type'' ''application/json; charset=utf-8'' rw)))"

definition ClearCacheHandler ::
  "'db cacheEnv \<Rightarrow> bytes list \<Rightarrow> request \<Rightarrow> rwriter \<Rightarrow> 'db CachingProperties \<Rightarrow>
   unit res \<times> rwriter \<times> 'db CachingProperties" where
  "ClearCacheHandler E visit req rw c =
     (if reqMethod req \<noteq> ''DELETE'' then
        (Ok (), httpError ''Only DELETE requests are supported'' 405 rw, c)
      else (case ClearCache E visit c of
              (Panic m, c) \<Rightarrow> (Panic m, rw, c)
            | (Err e, c) \<Rightarrow> (Ok (), writeHeader 204 (writeHeader 500 rw), c)
            | (Ok (), c) \<Rightarrow> (Ok (), writeHeader 204 rw, c)))"

section \<open>Properties\<close>

lemma goRem_pos: "0 < sint a \<Longrightarrow> sint (goRem a (2 ^ 31)) = sint a mod 2 ^ 31"
proof -
  assume "0 < sint a"
  then have "goRem a (2 ^ 31) = of_int (sint a mod 2 ^ 31)" by (simp add: goRem_def)
  moreover have "0 \<le> sint a mod 2 ^ 31" "sint a mod 2 ^ 31 < 2 ^ 31" by simp_all
  ultimately show ?thesis
    by (simp only: signed_of_int) (simp add: signed_take_bit_int_eq_self)
qed

lemma toInt32_small: "0 \<le> sint a \<Longrightarrow> sint a < 2 ^ 31 \<Longrightarrow> sint (toInt32 a) = sint a"
  unfolding toInt32_def
  by (simp only: signed_of_int) (simp add: signed_take_bit_int_eq_self)

text \<open>The capacity of a backend added with a positive limit.\<close>

lemma capacity_of_limit:
  assumes "0 < sint m"
  shows "sint (toInt32 (goRem m (2 ^ 31))) = sint m mod 2 ^ 31"
  using toInt32_small [of "goRem m (2 ^ 31)"] goRem_pos [OF assms] by simp

lemma addForm_no_panic: "(\<exists>rw' p'. addForm L form rw p = (Ok (), rw', p'))"
proof -
  have "0 \<le> sint (toInt32 (goRem (afMaximalRequests form) (2 ^ 31)))"
    if "\<not> sint (afMaximalRequests form) \<le> 0"
    using that capacity_of_limit [of "afMaximalRequests form"] by simp
  then show ?thesis
    by (auto simp: addForm_def NewBackendConfig_def NewBackend_def Let_def split: sum.split)
qed

text \<open>The backend a valid form makes, before its first health check.\<close>

definition formBackend :: "url \<Rightarrow> AddForm \<Rightarrow> Backend" where
  "formBackend u form =
     \<lparr>bUrl = u, healthCheckTcpTimeout = afHealthCheckTcpTimeout form * 1000000, alive = False, inFlight = 0,
      maximalRequests = nat (sint (afMaximalRequests form) mod 2 ^ 31)\<rparr>"

lemma addForm_accepts:
  assumes "FindServerByUrl (alUrls L) (afUrl form) p = None" "0 < sint (afHealthCheckTcpTimeout form)"
    and "0 < sint (afMaximalRequests form)" "urlParse (alUrls L) (afUrl form) = Inr u"
  shows "addForm L form rw p =
    (Ok (), snd (writeBody None ''Success!'' rw),
     healthCheckFunc (alDial L) (length (backends p)) (AddServer (formBackend u form) p))"
proof -
  have "sint (toInt32 (goRem (afMaximalRequests form) (2 ^ 31))) = sint (afMaximalRequests form) mod 2 ^ 31"
    by (rule capacity_of_limit [OF assms(3)])
  with assms show ?thesis
    by (simp add: addForm_def NewBackendConfig_def NewBackend_def Let_def formBackend_def)
qed

lemma addForm_refuses:
  assumes "\<not> (FindServerByUrl (alUrls L) (afUrl form) p = None \<and> 0 < sint (afHealthCheckTcpTimeout form) \<and>
    0 < sint (afMaximalRequests form) \<and> (\<exists>u. urlParse (alUrls L) (afUrl form) = Inr u))"
  shows "\<exists>rw'. addForm L form rw p = (Ok (), rw', p) \<and>
    (rwStatus rw = None \<longrightarrow> rwStatus rw' \<in> {Some 400, Some 412})"
  using assms
  by (cases "urlParse (alUrls L) (afUrl form)")
    (auto simp: addForm_def NewBackendConfig_def Let_def rwStatus_httpError)

text \<open>A form as the client sends it, with the members of \<open>extra\<close> after its fields.\<close>

definition formMembers :: "AddForm \<Rightarrow> (string \<times> json) list" where
  "formMembers f =
     [(''Url'', JStr (afUrl f)), (''HealthCheckTcpTimeout'', JNum (printInt (sint (afHealthCheckTcpTimeout f)))),
      (''MaximalRequests'', JNum (printInt (sint (afMaximalRequests f))))]"

lemma decodeAdd_members:
  assumes "asciiString (afUrl f)" and "plainJson (JObj extra)"
  shows "decodeAdd (printJson (JObj (formMembers f @ extra))) = fold (bindMember addFields) extra (None, f)"
proof -
  have ascii: "asciiString ''Url''" "asciiString ''HealthCheckTcpTimeout''" "asciiString ''MaximalRequests''"
    by (simp_all add: asciiString_def)
  have "plainJson (JObj (formMembers f @ extra))"
    using assms plainJson_sint ascii by (simp add: formMembers_def del: plainJson.simps(1))
  then have "decodeAdd (printJson (JObj (formMembers f @ extra))) =
      fold (bindMember addFields) (formMembers f @ extra)
        (None, \<lparr>afUrl = [], afHealthCheckTcpTimeout = 0, afMaximalRequests = 0\<rparr>)"
    by (simp add: decodeAdd_def decodeBody_print del: plainJson.simps)
  moreover have "fold (bindMember addFields) (formMembers f)
      (None, \<lparr>afUrl = [], afHealthCheckTcpTimeout = 0, afMaximalRequests = 0\<rparr>) = (None, f)"
    by (simp add: formMembers_def bindMember_def selectField_def addFields_def strField_def)
  ultimately show ?thesis by simp
qed

text \<open>Sample values for the witnesses.\<close>

definition sampleForm :: "int64 \<Rightarrow> AddForm" where
  "sampleForm m = \<lparr>afUrl = ''d'', afHealthCheckTcpTimeout = 50, afMaximalRequests = m\<rparr>"

definition sampleAdmin :: adminLib where
  "sampleAdmin = \<lparr>alUrls = sampleUrls, alDial = \<lambda>_ _. True, serveFile = \<lambda>_ rw. rw\<rparr>"

definition postForm :: "int64 \<Rightarrow> (string \<times> json) list \<Rightarrow> request" where
  "postForm m extra = (refRequest ''POST'' [])\<lparr>reqBody := printJson (JObj (formMembers (sampleForm m) @ extra))\<rparr>"

lemma sampleAdmin_simps [simp]:
  "alUrls sampleAdmin = sampleUrls" "alDial sampleAdmin = (\<lambda>_ _. True)" "serveFile sampleAdmin = (\<lambda>_ rw. rw)"
  "afUrl (sampleForm m) = ''d''" "afHealthCheckTcpTimeout (sampleForm m) = 50"
  "afMaximalRequests (sampleForm m) = m" "reqMethod (postForm m extra) = ''POST''"
  by (simp_all add: sampleAdmin_def sampleForm_def postForm_def)

lemma decode_postForm:
  "decodeAdd (reqBody (postForm m [])) = (None, sampleForm m)"
  "decodeAdd (reqBody (postForm m [(''url'', JNull), (''MaximalRequests'', JBool True)])) =
     (Some typeErr, sampleForm m)"
proof -
  have ascii: "asciiString (afUrl (sampleForm m))" "asciiString ''url''" "asciiString ''MaximalRequests''"
    by (simp_all add: asciiString_def)
  show "decodeAdd (reqBody (postForm m [])) = (None, sampleForm m)"
    using decodeAdd_members [OF ascii(1), of "[]"] by (simp add: postForm_def)
  show "decodeAdd (reqBody (postForm m [(''url'', JNull), (''MaximalRequests'', JBool True)])) =
      (Some typeErr, sampleForm m)"
    using decodeAdd_members [OF ascii(1), of "[(''url'', JNull), (''MaximalRequests'', JBool True)]"] ascii
    by (simp add: postForm_def bindMember_def selectField_def addFields_def strField_def intField_def
        foldByte_def lowerCode_def byteIn_def)
qed

lemma sample_not_listed: "FindServerByUrl sampleUrls ''d'' samplePool = None"
  by (simp add: FindServerByUrl_def samplePool_def serverURL_def backendAt_def sampleUrls_def sampleBackend_def)

lemma find_added:
  assumes "pool_ok p" "FindServerByUrl U w p = None"
  shows "FindServerByUrl U w (healthCheckFunc dial (length (backends p)) (AddServer (formBackend u form) p)) = None \<longleftrightarrow>
    urlString U u \<noteq> w"
proof -
  let ?n = "length (backends p)" and ?p' = "healthCheckFunc dial (length (backends p)) (AddServer (formBackend u form) p)"
  have "serverURL U ?p' i = serverURL U p i" if "i < ?n" for i
    using that by (simp add: serverURL_def healthCheckFunc_def SetAlive_def updBackend_def backendAt_def AddServer_def nth_append)
  moreover have "serverURL U ?p' ?n = urlString U u"
    by (simp add: serverURL_def healthCheckFunc_def SetAlive_def updBackend_def backendAt_def AddServer_def formBackend_def)
  moreover have "servers ?p' = servers p @ [?n]"
    by (simp add: healthCheckFunc_def SetAlive_def updBackend_def AddServer_def)
  ultimately show ?thesis
    using assms by (auto simp: FindServerByUrl_def find_None_iff pool_ok_def list_all_iff)
qed

text \<open>C39: Adding a backend. With a body that decodes, a POST either leaves the pool as it is and answers
  with an error status, or, exactly when the URL is not listed and parses and both numbers are
  positive, appends one backend made from the form, checks its health once and answers 200; it
  never panics. The text of the form then finds a server only when printing the parsed URL gives that
  text back; otherwise the same request is accepted again and again, and a removal finds nothing.\<close>
theorem add_server_functional:
  assumes "reqMethod req = ''POST''" and "decodeAdd (reqBody req) = (None, form)"
    and "AddServerHandler L req newWriter p = (r, rw, p')"
  shows "r = Ok () \<and>
    (if FindServerByUrl (alUrls L) (afUrl form) p = None \<and> 0 < sint (afHealthCheckTcpTimeout form) \<and>
        0 < sint (afMaximalRequests form) \<and> (\<exists>u. urlParse (alUrls L) (afUrl form) = Inr u)
     then rwStatus rw = Some 200 \<and>
       (\<exists>u. urlParse (alUrls L) (afUrl form) = Inr u \<and>
         p' = healthCheckFunc (alDial L) (length (backends p)) (AddServer (formBackend u form) p) \<and>
         (pool_ok p \<longrightarrow> (FindServerByUrl (alUrls L) (afUrl form) p' = None \<longleftrightarrow> urlString (alUrls L) u \<noteq> afUrl form)))
     else p' = p \<and> rwStatus rw \<in> {Some 400, Some 412})"
proof (cases "FindServerByUrl (alUrls L) (afUrl form) p = None \<and> 0 < sint (afHealthCheckTcpTimeout form) \<and>
    0 < sint (afMaximalRequests form) \<and> (\<exists>u. urlParse (alUrls L) (afUrl form) = Inr u)")
  case True
  then obtain u where "urlParse (alUrls L) (afUrl form) = Inr u" by blast
  with addForm_accepts [of L form p u newWriter] True assms find_added [of p "alUrls L" "afUrl form" "alDial L"]
  show ?thesis by (auto simp: AddServerHandler_def rwStatus_writeBody newWriter_def)
next
  case False
  from addForm_refuses [OF False, of newWriter] False assms show ?thesis
    by (auto simp: AddServerHandler_def rwStatus_httpError newWriter_def)
qed

theorem add_server_functional_witness:
  "\<exists>r rw p'. AddServerHandler sampleAdmin (postForm 7 []) newWriter samplePool = (r, rw, p') \<and>
     rwStatus rw = Some 200 \<and> length (servers p') = 4"
proof -
  obtain r rw p' where 1: "AddServerHandler sampleAdmin (postForm 7 []) newWriter samplePool = (r, rw, p')"
    by (metis prod.collapse)
  have "\<exists>u. urlParse sampleUrls ''d'' = Inr u" by (simp add: sampleUrls_def)
  with add_server_functional [OF _ decode_postForm(1) 1] sample_not_listed
  have "rwStatus rw = Some 200" "length (servers p') = 4"
    by (auto simp: healthCheckFunc_def SetAlive_def AddServer_def samplePool_def)
  with 1 show ?thesis by blast
qed

text \<open>A limit that passes the check can still make a backend that takes no request: the value is
  reduced modulo 2^31 after it has been checked, so every multiple of 2^31 is accepted as a
  capacity of zero, and a slot of that backend can never be taken.\<close>
theorem add_server_zero_capacity:
  assumes "reqMethod req = ''POST''" and "decodeAdd (reqBody req) = (None, form)"
    and "FindServerByUrl (alUrls L) (afUrl form) p = None" and "0 < sint (afHealthCheckTcpTimeout form)"
    and "urlParse (alUrls L) (afUrl form) = Inr u"
    and "0 < sint (afMaximalRequests form)" and "sint (afMaximalRequests form) mod 2 ^ 31 = 0"
  shows "\<exists>rw p'. AddServerHandler L req newWriter p = (Ok (), rw, p') \<and> rwStatus rw = Some 200 \<and>
    servers p' = servers p @ [length (backends p)] \<and>
    maximalRequests (backendAt p' (length (backends p))) = 0 \<and>
    \<not> fst (assignAt (length (backends p)) p')"
proof -
  let ?i = "length (backends p)"
  let ?p' = "healthCheckFunc (alDial L) ?i (AddServer (formBackend u form) p)"
  have cap: "maximalRequests (backendAt ?p' ?i) = 0"
    using assms(7)
    by (simp add: healthCheckFunc_def SetAlive_def updBackend_def backendAt_def AddServer_def formBackend_def)
  then have "\<not> fst (assignAt ?i ?p')" by (simp add: assignAt_def AssignRequest_def)
  moreover have "AddServerHandler L req newWriter p = (Ok (), snd (writeBody None ''Success!'' newWriter), ?p')"
    using assms(1,2) addForm_accepts [OF assms(3,4,6,5)] by (simp add: AddServerHandler_def)
  moreover have "servers ?p' = servers p @ [?i]" by (simp add: healthCheckFunc_def SetAlive_def AddServer_def)
  ultimately show ?thesis using cap by (auto simp: rwStatus_writeBody newWriter_def)
qed

theorem add_server_zero_capacity_witness:
  "\<exists>rw p'. AddServerHandler sampleAdmin (postForm 2147483648 []) newWriter samplePool =
      (Ok (), rw, p') \<and> rwStatus rw = Some 200 \<and> \<not> fst (assignAt 3 p')"
proof -
  have "urlParse sampleUrls ''d'' = Inr \<lparr>urlScheme = ''http'', urlHost = ''d'', urlRest = []\<rparr>"
    by (simp add: sampleUrls_def)
  then show ?thesis
    using add_server_zero_capacity [OF _ decode_postForm(1) [of 2147483648], where L = sampleAdmin and p = samplePool] sample_not_listed
    by (auto simp: samplePool_def numeral_3_eq_3)
qed

text \<open>A body that does not decode is reported as a bad request but processed all the same: when what
  the decoder filled in before the error is acceptable, the backend is added although the client
  is told 400.\<close>
theorem add_server_bad_json_added:
  assumes "reqMethod req = ''POST''" and "decodeAdd (reqBody req) = (Some e, form)"
    and "FindServerByUrl (alUrls L) (afUrl form) p = None" and "0 < sint (afHealthCheckTcpTimeout form)"
    and "urlParse (alUrls L) (afUrl form) = Inr u" and "0 < sint (afMaximalRequests form)"
  shows "\<exists>rw p'. AddServerHandler L req newWriter p = (Ok (), rw, p') \<and> rwStatus rw = Some 400 \<and>
    servers p' = servers p @ [length (backends p)]"
  using assms(1,2) addForm_accepts [OF assms(3,4,6,5)]
  by (simp add: AddServerHandler_def rwStatus_writeBody rwStatus_httpError newWriter_def healthCheckFunc_def
      SetAlive_def AddServer_def)

theorem add_server_bad_json_added_witness:
  "\<exists>rw p'. AddServerHandler sampleAdmin
      (postForm 7 [(''url'', JNull), (''MaximalRequests'', JBool True)]) newWriter samplePool =
      (Ok (), rw, p') \<and> rwStatus rw = Some 400 \<and> servers p' = [0, 1, 2, 3]"
proof -
  have "urlParse sampleUrls ''d'' = Inr \<lparr>urlScheme = ''http'', urlHost = ''d'', urlRest = []\<rparr>"
    by (simp add: sampleUrls_def)
  then show ?thesis
    using add_server_bad_json_added [OF _ decode_postForm(2) [of 7], where L = sampleAdmin and p = samplePool] sample_not_listed
    by (auto simp: samplePool_def)
qed

text \<open>The list of servers is sent with status 200 and the encoder's text, one row per listed server
  in order, but never with the Content-Type the handler sets: it sets it after the header has
  been sent.\<close>
theorem get_servers_content_type_lost:
  assumes "reqMethod req = ''GET''" and "encodeServers (map (serverRow L p) (servers p)) = Inr b"
  shows "rwStatus (GetServersHandler L None req newWriter p) = Some 200 \<and>
    rwBody (GetServersHandler L None req newWriter p) = b \<and>
    rwSent (GetServersHandler L None req newWriter p) = []"
  using assms by (simp add: GetServersHandler_def writeBody_def writeHeader_def newWriter_def setHeader_def)

theorem get_servers_content_type_lost_witness:
  "rwSent (GetServersHandler sampleAdmin None (refRequest ''GET'' []) newWriter samplePool) = []"
  using get_servers_content_type_lost [of "refRequest ''GET'' []" sampleAdmin samplePool]
  by (simp add: encodeServers_def)

text \<open>No handler changes anything on a method it does not support, and each answers 405; clearing
  the cache answers 204 exactly when it succeeded and 500 when it failed.\<close>
theorem admin_methods:
  assumes "m \<noteq> ''GET''" and "reqMethod req = m"
  shows "(m \<noteq> ''POST'' \<longrightarrow>
      (\<exists>rw. AddServerHandler L req newWriter p = (Ok (), rw, p) \<and> rwStatus rw = Some 405)) \<and>
    (m \<noteq> ''DELETE'' \<longrightarrow>
      (\<exists>rw. RemoveServerHandler L req newWriter p = (rw, p) \<and> rwStatus rw = Some 405) \<and>
      (\<exists>rw. ClearCacheHandler E visit req newWriter c = (Ok (), rw, c) \<and> rwStatus rw = Some 405)) \<and>
    (m = ''DELETE'' \<longrightarrow> (\<forall>rw c'. ClearCacheHandler E visit req newWriter c = (Ok (), rw, c') \<longrightarrow>
      rwStatus rw = Some (if is_ok (fst (ClearCache E visit c)) then 204 else 500)))"
  using assms
  by (auto simp: AddServerHandler_def RemoveServerHandler_def ClearCacheHandler_def rwStatus_httpError
      rwStatus_writeHeader newWriter_def split: prod.splits res.splits unit.splits)

theorem admin_methods_witness:
  "\<exists>rw. AddServerHandler sampleAdmin (refRequest ''PUT'' []) newWriter samplePool = (Ok (), rw, samplePool) \<and>
     rwStatus rw = Some 405"
  using admin_methods [of "''PUT''" "refRequest ''PUT'' []" sampleAdmin samplePool refEnv "[]" "refCache 100"]
  by simp

end
