(* ===== verification/Server.thy ===== *)
theory Server
  imports AuthProps AdminHandlers
begin

text \<open>
  The HTTP surface of the program (\<open>main.go\<close>): the routes, the CORS wrapper, the authentication
  middleware in front of the administration handlers, and \<open>http.ServeMux\<close> in front of them all,
  over one state: the load balancer and the user accounts. \<open>site\<close> collects what one request meets
  of the outside.
\<close>

section \<open>The multiplexer\<close>

text \<open>\<open>path.Clean\<close> of a rooted path, and \<open>cleanPath\<close> of \<open>net/http\<close>.\<close>

fun cleanSegments :: "string list \<Rightarrow> string list \<Rightarrow> string list" where
  "cleanSegments acc [] = rev acc"
| "cleanSegments acc (x # xs) =
     (if x = [] \<or> x = ''.'' then cleanSegments acc xs
      else if x = ''..'' then cleanSegments (tl acc) xs
      else cleanSegments (x # acc) xs)"

definition pathClean :: "string \<Rightarrow> string" where
  "pathClean p =
     (case cleanSegments [] (splitOn CHR ''/'' p) of
        [] \<Rightarrow> ''/''
      | xs \<Rightarrow> concat (map ((#) CHR ''/'') xs))"

definition cleanPath :: "string \<Rightarrow> string" where
  "cleanPath p =
     (if p = [] then ''/''
      else let p = (if hd p \<noteq> CHR ''/'' then CHR ''/'' # p else p); np = pathClean p
           in if last p = CHR ''/'' \<and> np \<noteq> ''/'' then np @ ''/'' else np)"

datatype route = RBalance | RAdd | RRemove | RServers | RSignUp | RPassword | RSignIn | RDeleteUser | RClear

definition routes :: "(string \<times> route) list" where
  "routes =
     [(''/'', RBalance), (''/serverPool/add'', RAdd), (''/serverPool/remove'', RRemove), (''/serverPool'', RServers),
      (''/admin/signup'', RSignUp), (''/admin/password'', RPassword), (''/admin/signin'', RSignIn),
      (''/admin'', RDeleteUser), (''/admin/clear'', RClear)]"

text \<open>The exact pattern, or \<open>"/"\<close>, which is the only one that ends in a slash.\<close>

definition matchRoute :: "string \<Rightarrow> route option" where
  "matchRoute path =
     (case map_of routes path of
        Some r \<Rightarrow> Some r
      | None \<Rightarrow> if hasPrefix ''/'' path then Some RBalance else None)"

datatype muxTarget = MuxRedirect string | MuxRoute route | MuxNotFound

definition muxTarget :: "string \<Rightarrow> string \<Rightarrow> muxTarget" where
  "muxTarget reqMeth path =
     (if reqMeth \<noteq> ''CONNECT'' \<and> cleanPath path \<noteq> path then MuxRedirect (cleanPath path)
      else case matchRoute path of Some r \<Rightarrow> MuxRoute r | None \<Rightarrow> MuxNotFound)"

section \<open>The handlers behind it\<close>

record ('db, 'u) bduts =
  bdLb :: "'db LoadBalancer"
  bdAuth :: "'u authState"

record ('db, 'u) site =
  stWorld :: "'db lbWorld"
  stFuel :: nat
  stAdmin :: adminLib
  stVisit :: "bytes list"
  stFault :: "goerror option"
  stAuth :: authLib
  stService :: authService
  stBolt :: "'u bolt"
  stAuthWorld :: authWorld
  stPath :: "url \<Rightarrow> string"
  stRedirect :: "string \<Rightarrow> request \<Rightarrow> rwriter \<Rightarrow> rwriter"

definition corsHeaders :: "rwriter \<Rightarrow> rwriter" where
  "corsHeaders w =
     setHeader ''Access-Control-Expose-Headers'' ''Authorization''
       (setHeader ''Access-Control-Allow-Headers'' ''*''
         (setHeader ''Access-Control-Allow-Methods'' ''*''
           (setHeader ''Access-Control-Allow-Origin'' ''*'' w)))"

definition cors :: "'s handler \<Rightarrow> 's handler" where
  "cors h w r s =
     (let w = corsHeaders w in if reqMethod r = ''OPTIONS'' then reply 200 w s else h w r s)"

definition guard :: "('db, 'u) site \<Rightarrow> 's handler \<Rightarrow> 's handler" where
  "guard E = AuthenticationMiddleware (stAuth E) (stService E) (awNow (stAuthWorld E))"

definition onPoolState ::
  "(rwriter \<Rightarrow> request \<Rightarrow> ServerPool \<Rightarrow> unit res \<times> rwriter \<times> ServerPool) \<Rightarrow> ('db, 'u) bduts handler" where
  "onPoolState f w r s =
     (case f w r (lbPool (bdLb s)) of (res, w, p) \<Rightarrow> (res, w, s\<lparr>bdLb := (bdLb s)\<lparr>lbPool := p\<rparr>\<rparr>))"

definition onAuthState :: "'u authState handler \<Rightarrow> ('db, 'u) bduts handler" where
  "onAuthState f w r s = (case f w r (bdAuth s) of (res, w, a) \<Rightarrow> (res, w, s\<lparr>bdAuth := a\<rparr>))"

text \<open>Calling \<open>ClearCache\<close> on a nil \<open>CachingProperties\<close> panics at its first field.\<close>

definition clearRoute :: "('db, 'u) site \<Rightarrow> ('db, 'u) bduts handler" where
  "clearRoute E w r s =
     (case lbCache (bdLb s) of
        None \<Rightarrow>
          if reqMethod r \<noteq> ''DELETE'' then (Ok (), httpError ''Only DELETE requests are supported'' 405 w, s)
          else (Panic ''nil pointer dereference'', w, s)
      | Some c \<Rightarrow>
          (case ClearCacheHandler (lwCache (stWorld E)) (stVisit E) r w c of
             (res, w, c) \<Rightarrow> (res, w, s\<lparr>bdLb := (bdLb s)\<lparr>lbCache := Some c\<rparr>\<rparr>)))"

text \<open>What stands behind each pattern; the balancer itself may not return, so it has its own type.\<close>

definition balance ::
  "('db, 'u) site \<Rightarrow> rwriter \<Rightarrow> request \<Rightarrow> ('db, 'u) bduts \<Rightarrow> (unit res \<times> rwriter \<times> ('db, 'u) bduts) option" where
  "balance E w r s =
     (case LoadBalancerHandler (stWorld E) (stFuel E) \<lparr>hRw = w, hReq = r, hLb = bdLb s\<rparr> of
        None \<Rightarrow> None
      | Some (res, h) \<Rightarrow> Some (res, hRw h, s\<lparr>bdLb := hLb h\<rparr>))"

fun bareRoute :: "('db, 'u) site \<Rightarrow> route \<Rightarrow> ('db, 'u) bduts handler" where
  "bareRoute E RAdd = onPoolState (\<lambda>w r p. AddServerHandler (stAdmin E) r w p)"
| "bareRoute E RRemove =
     onPoolState (\<lambda>w r p. case RemoveServerHandler (stAdmin E) r w p of (w, p) \<Rightarrow> (Ok (), w, p))"
| "bareRoute E RServers = onPoolState (\<lambda>w r p. (Ok (), GetServersHandler (stAdmin E) (stFault E) r w p, p))"
| "bareRoute E RSignUp = onAuthState (SignUp (stAuth E) (stBolt E) (stService E) (stAuthWorld E))"
| "bareRoute E RPassword = onAuthState (ChangePassword (stAuth E) (stBolt E) (stService E) (stAuthWorld E))"
| "bareRoute E RSignIn = onAuthState (SignIn (stAuth E) (stBolt E) (stService E) (stAuthWorld E))"
| "bareRoute E RDeleteUser = onAuthState (DeleteUser (stAuth E) (stBolt E))"
| "bareRoute E RClear = clearRoute E"
| "bareRoute E RBalance = (\<lambda>w r s. (Ok (), w, s))"

definition adminRoute :: "('db, 'u) site \<Rightarrow> route \<Rightarrow> ('db, 'u) bduts handler" where
  "adminRoute E rt = cors (if rt = RSignIn then bareRoute E rt else guard E (bareRoute E rt))"

text \<open>\<open>ServeMux.ServeHTTP\<close>.\<close>

definition serveHTTP ::
  "('db, 'u) site \<Rightarrow> rwriter \<Rightarrow> request \<Rightarrow> ('db, 'u) bduts \<Rightarrow> (unit res \<times> rwriter \<times> ('db, 'u) bduts) option" where
  "serveHTTP E w r s =
     (if reqURI r = ''*'' then
        Some (reply 400 (if reqProto r = ''HTTP/1.0'' then w else setHeader ''Connection'' ''close'' w) s)
      else case muxTarget (reqMethod r) (stPath E (reqURL r)) of
        MuxRedirect p \<Rightarrow> Some (Ok (), stRedirect E p r w, s)
      | MuxNotFound \<Rightarrow> Some (replyError ''404 page not found'' 404 w s)
      | MuxRoute rt \<Rightarrow> if rt = RBalance then balance E w r s else Some (adminRoute E rt w r s))"

end
