(* ===== verification/LbProps.thy ===== *)
theory LbProps
  imports LoadBalancer
begin

text \<open>
  The properties of the request path: which protocol is accepted, what a client gets from the
  cache and from a backend, when the retry loop ends, the slots and the counters around it,
  saving, and the health check.
\<close>

section \<open>Projections\<close>

lemma hstate_upds [simp]:
  "hRw (onPool f h) = hRw h" "hReq (onPool f h) = hReq h" "lbPool (hLb (onPool f h)) = f (lbPool (hLb h))"
  "lbCache (hLb (onPool f h)) = lbCache (hLb h)" "lbMetrics (hLb (onPool f h)) = lbMetrics (hLb h)"
  "lbSaves (hLb (onPool f h)) = lbSaves (hLb h)"
  "hRw (onMetrics g h) = hRw h" "hReq (onMetrics g h) = hReq h" "lbPool (hLb (onMetrics g h)) = lbPool (hLb h)"
  "lbCache (hLb (onMetrics g h)) = lbCache (hLb h)" "lbMetrics (hLb (onMetrics g h)) = g (lbMetrics (hLb h))"
  "lbSaves (hLb (onMetrics g h)) = lbSaves (hLb h)"
  "hRw (onRw w h) = w (hRw h)" "hReq (onRw w h) = hReq h" "hLb (onRw w h) = hLb h"
  by (simp_all add: onPool_def onMetrics_def onRw_def)

lemma others_simps [simp]:
  "hRw (others W k f h) = hRw h" "hReq (others W k f h) = hReq h"
  "lbPool (hLb (others W k f h)) = fold (poolStep (lwUrls W)) (lwOthers W k f) (lbPool (hLb h))"
  "lbCache (hLb (others W k f h)) = lbCache (hLb h)" "lbMetrics (hLb (others W k f h)) = lbMetrics (hLb h)"
  "lbSaves (hLb (others W k f h)) = lbSaves (hLb h)"
  by (simp_all add: others_def)

section \<open>The protocol version\<close>

lemma parseUint_one: "parseUint [c] = UVal 1 \<longleftrightarrow> c = CHR ''1''"
proof
  assume "parseUint [c] = UVal 1"
  then have "isDigit c" and "digitVal c = 1"
    by (auto simp: parseUint_def split: if_splits)
  then have "(of_char c :: nat) = of_char CHR ''1''" by (auto simp: isDigit_def digitVal_def)
  then show "c = CHR ''1''" by (simp only: of_char_eq_iff)
qed (simp add: parseUint_def isDigit_def digitVal_def)

text \<open>The balancer accepts a request exactly when its protocol string is HTTP/1.1.\<close>
theorem http11_only: "isHTTPVersionSupported req \<longleftrightarrow> reqProto req = ''HTTP/1.1''"
proof
  assume sup: "isHTTPVersionSupported req"
  show "reqProto req = ''HTTP/1.1''"
  proof (rule ccontr)
    assume neq: "reqProto req \<noteq> ''HTTP/1.1''"
    let ?v = "reqProto req"
    have v: "hasPrefix ''HTTP/'' ?v" "length ?v = 8" "?v ! 6 = CHR ''.''"
      "parseUint (goSlice ?v 5 6) = UVal 1" "parseUint (goSlice ?v 7 8) = UVal 1"
      using sup neq
      by (auto simp: isHTTPVersionSupported_def ParseHTTPVersion_def split: if_splits option.splits uintRes.splits)
    from v(1) obtain t where t: "?v = ''HTTP/'' @ t" by (auto simp: hasPrefix_iff)
    with v(2) obtain a b c where abc: "t = [a, b, c]"
      by (auto simp: length_Suc_conv numeral_eq_Suc)
    from v(3-5) t abc have "b = CHR ''.''" "a = CHR ''1''" "c = CHR ''1''"
      by (simp_all add: goSlice_def parseUint_one [unfolded One_nat_def])
    with t abc neq show False by simp
  qed
next
  assume "reqProto req = ''HTTP/1.1''"
  then show "isHTTPVersionSupported req" by (simp add: isHTTPVersionSupported_def ParseHTTPVersion_def)
qed

section \<open>Answers from the cache\<close>

lemma GetPage_req:
  "fst (snd (GetPageFromCache E clk t1 t2 key req p)) =
     req\<lparr>ctxOnlyIfCached := Some (rqOnlyIfCached (loadRequestDirectives clk (reqHeader req)))\<rparr>"
  by (auto simp: GetPageFromCache_def Let_def split: prod.split res.split sum.split)

text \<open>The request as the lookup sees it.\<close>

definition hashed :: "'db lbWorld \<Rightarrow> request \<Rightarrow> request" where
  "hashed W req = req\<lparr>ctxHash := Some (RequestHashKey (lwCache W) (urlString (lwUrls W)) req)\<rparr>"

definition lookup :: "'db lbWorld \<Rightarrow> request \<Rightarrow> 'db CachingProperties \<Rightarrow> Page res \<times> request \<times> 'db CachingProperties"
  where
  "lookup W req c =
     GetPageFromCache (lwCache W) (lwClock W) (fst (lwNow W)) (snd (lwNow W))
       (RequestHashKey (lwCache W) (urlString (lwUrls W)) req) (hashed W req) c"

text \<open>A page the cache has is what the client gets: when the lookup returns a page and the write
  succeeds, the client receives status 200, the page's headers and exactly its body; no backend is
  chosen or contacted (the pool is unchanged, whatever the fuel), nothing is saved again, and
  the request is counted as served by the cache.\<close>
theorem cache_hit_served:
  assumes "reqProto (hReq h) = ''HTTP/1.1''" and "lbCache (hLb h) = Some c"
    and "lookup W (hReq h) c = (Ok page, req', c')" and "lwWrite W 0 = None" and "hRw h = newWriter"
  shows "\<exists>h'. loadBalancerHandler W fuel h = Some (Ok (), h') \<and>
    rwStatus (hRw h') = Some 200 \<and> rwBody (hRw h') = pageBody page \<and>
    rwSent (hRw h') = copyHeader (pageHeader page) [] \<and>
    lbPool (hLb h') = lbPool (hLb h) \<and> lbSaves (hLb h') = lbSaves (hLb h) \<and>
    mRequestsByCache (lbMetrics (hLb h')) = Suc (mRequestsByCache (lbMetrics (hLb h)))"
proof -
  have "isHTTPVersionSupported (hReq h)"
    using assms(1) by (simp add: isHTTPVersionSupported_def ParseHTTPVersion_def)
  then show ?thesis
    using assms(2-5)
    by (simp add: loadBalancerHandler_def getPageHandler_def lookup_def hashed_def Let_def
        MakeRequestTimeTracker_def writeBody_def writeHeader_def newWriter_def
        UpdateResponseBodySize_def SaveTimerDataGotFromCache_def UpdateCacheProcessingTime_def)
qed

text \<open>A client that asks only for what is cached is never sent to a backend: when its
  Cache-Control has the piece only-if-cached and the lookup fails, it gets status 504, and no
  backend is chosen or contacted and nothing is saved.\<close>
theorem only_if_cached_504:
  assumes "reqProto (hReq h) = ''HTTP/1.1''" and "lbCache (hLb h) = Some c"
    and "''only-if-cached'' \<in> set (cacheControlPieces (reqHeader (hReq h)))"
    and "lookup W (hReq h) c = (Err e, req', c')" and "hRw h = newWriter"
  shows "\<exists>h'. loadBalancerHandler W fuel h = Some (Err ErrOnlyIfCached, h') \<and>
    rwStatus (hRw h') = Some 504 \<and> lbPool (hLb h') = lbPool (hLb h) \<and>
    lbSaves (hLb h') = lbSaves (hLb h) \<and> lbMetrics (hLb h') = lbMetrics (hLb h)"
proof -
  have "isHTTPVersionSupported (hReq h)"
    using assms(1) by (simp add: isHTTPVersionSupported_def ParseHTTPVersion_def)
  moreover have "ctxOnlyIfCached req' = Some True"
    using GetPage_req [of "lwCache W" "lwClock W" "fst (lwNow W)" "snd (lwNow W)"
        "RequestHashKey (lwCache W) (urlString (lwUrls W)) (hReq h)" "hashed W (hReq h)" c] assms(3,4)
    by (simp add: lookup_def hashed_def directive_flags)
  ultimately show ?thesis
    using assms(2,4,5)
    by (simp add: loadBalancerHandler_def getPageHandler_def lookup_def hashed_def Let_def
        MakeRequestTimeTracker_def rwStatus_httpError newWriter_def)
qed

section \<open>What a pass can come to\<close>

lemma WriteBody_returns: "WriteBodyAndReturn fault resp rerr rw = (Ok b, rw') \<Longrightarrow> b = respBody resp"
  by (auto simp: WriteBodyAndReturn_def Let_def split: option.splits if_splits prod.splits)

lemma backendAttempt_cases:
  assumes "backendAttempt W k d h = ((out, d'), h')"
  obtains (refused) e p where "GetNextPeer (lbPool (hLb (others W k 0 h))) = (Err e, p)" "out = Some (Err e)" "d' = d"
      "h' = onRw (httpError (errText e) 503) (onPool (\<lambda>_. p) (others W k 0 h))"
    | (stuck) m p where "GetNextPeer (lbPool (hLb (others W k 0 h))) = (Panic m, p)" "out = Some (Panic m)" "d' = d"
      "h' = onPool (\<lambda>_. p) (others W k 0 h)"
    | (full) i p p2 h1 where "GetNextPeer (lbPool (hLb (others W k 0 h))) = (Ok i, p)"
      "h1 = others W k 1 (onPool (\<lambda>_. p) (others W k 0 h))"
      "assignAt i (lbPool (hLb h1)) = (False, p2)" "out = None" "d' = d" "h' = onPool (\<lambda>_. p2) h1"
    | (sent) i p p2 h1 h2 r3 h3 where "GetNextPeer (lbPool (hLb (others W k 0 h))) = (Ok i, p)"
      "h1 = others W k 1 (onPool (\<lambda>_. p) (others W k 0 h))"
      "assignAt i (lbPool (hLb h1)) = (True, p2)"
      "h2 = onMetrics (\<lambda>m. m\<lparr>mRequestsNow := mRequestsNow m + 1\<rparr>) (onPool (\<lambda>_. p2) h1)"
      "sendTo W k i h2 = (r3, h3)"
      "afterSend W k (Suc d) i
         (r3, case r3 of Ok _ \<Rightarrow> onMetrics (SaveTimeDataBackend (lwElapsed W (k + 2))) h3 | _ \<Rightarrow> h3) = ((out, d'), h')"
proof -
  obtain r p where peer: "GetNextPeer (lbPool (hLb (others W k 0 h))) = (r, p)" by (rule prod.exhaust)
  show thesis
  proof (cases r)
    case (Err e)
    with assms peer show thesis by (intro refused [of e p]) (auto simp: backendAttempt_def Let_def)
  next
    case (Panic m)
    with assms peer show thesis by (intro stuck [of m p]) (auto simp: backendAttempt_def Let_def)
  next
    case (Ok i)
    let ?h1 = "others W k 1 (onPool (\<lambda>_. p) (others W k 0 h))"
    obtain got p2 where assign: "assignAt i (lbPool (hLb ?h1)) = (got, p2)" by (rule prod.exhaust)
    have on: "attemptOn W k d i ?h1 = ((out, d'), h')" using assms peer Ok by (simp add: backendAttempt_def Let_def)
    let ?h2 = "onMetrics (\<lambda>m. m\<lparr>mRequestsNow := mRequestsNow m + 1\<rparr>) (onPool (\<lambda>_. p2) ?h1)"
    obtain r3 h3 where send: "sendTo W k i ?h2 = (r3, h3)" by (rule prod.exhaust)
    show thesis
    proof (cases got)
      case False
      with on assign peer Ok show thesis by (intro full [of i p ?h1 p2]) (auto simp: attemptOn_def)
    next
      case True
      with on assign peer Ok send show thesis
        by (intro sent [of i p ?h1 p2 ?h2 r3 h3]) (auto simp: attemptOn_def MakeRequestTimeTracker_def split: res.splits)
    qed
  qed
qed

lemma afterSend_cases:
  assumes "afterSend W k d i (r, h) = ((out, d'), h')"
  obtains (ended) x where "out = Some x" "x \<noteq> Ok ()" "d' = d" "h' = h"
    | (failed) e where "r = Err e" "out = None" "d' = d" "h' = onPool (SetAlive i False) h"
    | (broken) resp rerr y x rw where "r = Ok (Some (resp, rerr))"
      "WriteBodyAndReturn (lwWrite W (k + 1)) resp rerr (hRw h) = (y, rw)" "out = Some x" "x \<noteq> Ok ()" "d' = d"
      "h' = h\<lparr>hRw := rw\<rparr>"
    | (answered) resp rerr rw where "r = Ok (Some (resp, rerr))"
      "WriteBodyAndReturn (lwWrite W (k + 1)) resp rerr (hRw h) = (Ok (respBody resp), rw)" "out = Some (Ok ())" "d' = d"
      "h' = h\<lparr>hRw := rw, hLb := (hLb h)\<lparr>lbMetrics := UpdateResponseBodySize (length (respBody resp)) (lbMetrics (hLb h)),
         lbSaves := lbSaves (hLb h) @ [(hReq h, resp, respBody resp)]\<rparr>\<rparr>"
proof (cases "\<exists>resp rerr. r = Ok (Some (resp, rerr))")
  case False
  with assms show thesis
    by (cases r) (auto simp: afterSend_def split: if_splits option.splits intro: ended failed)
next
  case True
  then obtain resp rerr where r: "r = Ok (Some (resp, rerr))" by blast
  obtain y rw where wr: "WriteBodyAndReturn (lwWrite W (k + 1)) resp rerr (hRw h) = (y, rw)" by (rule prod.exhaust)
  show thesis
  proof (cases y)
    case (Ok b)
    with WriteBody_returns wr have "b = respBody resp" by simp
    with assms r wr Ok show thesis by (intro answered [of resp rerr rw]) (auto simp: afterSend_def Let_def onMetrics_def)
  next
    case (Err e)
    with assms r wr show thesis by (intro broken [of resp rerr y rw]) (auto simp: afterSend_def)
  next
    case (Panic m)
    with assms r wr show thesis by (intro broken [of resp rerr y rw]) (auto simp: afterSend_def)
  qed
qed

section \<open>One attempt, when nobody else touches the pool\<close>

definition quiet :: "'db lbWorld \<Rightarrow> bool" where
  "quiet W \<longleftrightarrow> lwOthers W = (\<lambda>_ _. [])"

lemma others_quiet: "quiet W \<Longrightarrow> others W k f h = h"
  by (simp add: others_def quiet_def onPool_def)

lemma onPool_twice: "onPool (\<lambda>_. q) (onPool f h) = onPool (\<lambda>_. q) h"
  by (simp add: onPool_def)

lemma assign_free:
  assumes "i < length (backends p)" and "inFlight (backendAt p i) < maximalRequests (backendAt p i)"
  shows "fst (assignAt i p)" and "snd (freeAt i (snd (assignAt i p))) = p"
    and "bUrl (backendAt (snd (assignAt i p)) i) = bUrl (backendAt p i)"
  using assms
  by (simp_all add: assignAt_def freeAt_def AssignRequest_def Free_def updBackend_def backendAt_def)

lemma assign_full:
  assumes "i < length (backends p)" and "\<not> inFlight (backendAt p i) < maximalRequests (backendAt p i)"
  shows "assignAt i p = (False, p)"
  using assms by (simp add: assignAt_def AssignRequest_def updBackend_def backendAt_def)

lemma live_index: "pool_ok p \<Longrightarrow> i \<in> set (liveOrder p) \<Longrightarrow> i < length (backends p)"
  by (auto simp: set_liveOrder pool_ok_def list_all_iff)

lemma sendTo_quiet:
  assumes "quiet W" "i < length (backends p)" "inFlight (backendAt p i) < maximalRequests (backendAt p i)"
    and "lbPool (hLb h) = snd (assignAt i p)"
  shows "lbPool (hLb (snd (sendTo W k i h))) = p" and "hRw (snd (sendTo W k i h)) = hRw h"
    and "lbSaves (hLb (snd (sendTo W k i h))) = lbSaves (hLb h)"
    and "lbMetrics (hLb (snd (sendTo W k i h))) = lbMetrics (hLb h)"
    and "fst (sendTo W k i h) \<noteq> Panic m"
    and "fst (sendTo W k i h) = Ok (Some (resp, rerr)) \<Longrightarrow>
      \<exists>req. lwSend W k req = DoResponse resp rerr \<and>
        \<not> (respStatus resp \<ge> 500 \<and> respStatus resp < 600 \<and> respStatus resp \<noteq> 505 \<and> respStatus resp \<noteq> 501)"
  using assms assign_free(2) [OF assms(2,3)]
  by (auto simp: sendTo_def SendRequestToBackend_def makeRequest_def quiet_def Let_def
      split: prod.splits option.splits doRes.splits if_splits)

lemma WriteBody_status:
  assumes "WriteBodyAndReturn fault resp rerr rw = (r, rw')" and "rwStatus rw = None"
  shows "rwStatus rw' \<in> {Some 200, Some 500}"
  using assms
  by (cases fault; cases rerr)
    (auto simp: WriteBodyAndReturn_def Let_def writeBody_def httpErrorTo_def rwStatus_writeHeader
      split: if_splits)

text \<open>A slot is taken only where there is one, and given back.\<close>

lemma sent_quiet:
  assumes "quiet W" "i < length (backends p)" "assignAt i p = (True, p2)" "lbPool (hLb h2) = p2"
    and "sendTo W k i h2 = (r3, h3)"
    and "h4 = (case r3 of Ok _ \<Rightarrow> onMetrics (SaveTimeDataBackend d) h3 | _ \<Rightarrow> h3)"
  shows "inFlight (backendAt p i) < maximalRequests (backendAt p i)"
    and "lbPool (hLb h4) = p" "hRw h4 = hRw h2" "lbSaves (hLb h4) = lbSaves (hLb h2)"
    and "mRequestsNow (lbMetrics (hLb h4)) = mRequestsNow (lbMetrics (hLb h2))"
    and "mRequests (lbMetrics (hLb h4)) = mRequests (lbMetrics (hLb h2))"
    and "r3 = Ok (Some (resp, rerr)) \<Longrightarrow> \<exists>req. lwSend W k req = DoResponse resp rerr \<and>
        \<not> (respStatus resp \<ge> 500 \<and> respStatus resp < 600 \<and> respStatus resp \<noteq> 505 \<and> respStatus resp \<noteq> 501)"
proof -
  show room: "inFlight (backendAt p i) < maximalRequests (backendAt p i)"
    using assms(3) assign_full [OF assms(2)] by auto
  have "lbPool (hLb h2) = snd (assignAt i p)" using assms(3,4) by simp
  note sq = sendTo_quiet [OF assms(1,2) room this, of k, unfolded assms(5) fst_conv snd_conv]
  show "lbPool (hLb h4) = p" "hRw h4 = hRw h2" "lbSaves (hLb h4) = lbSaves (hLb h2)"
    "mRequestsNow (lbMetrics (hLb h4)) = mRequestsNow (lbMetrics (hLb h2))"
    "mRequests (lbMetrics (hLb h4)) = mRequests (lbMetrics (hLb h2))"
    using sq(1-4) assms(6) by (simp_all add: SaveTimeDataBackend_def UpdateBackendProcessingTime_def split: res.splits)
  show "r3 = Ok (Some (resp, rerr)) \<Longrightarrow> \<exists>req. lwSend W k req = DoResponse resp rerr \<and>
      \<not> (respStatus resp \<ge> 500 \<and> respStatus resp < 600 \<and> respStatus resp \<noteq> 505 \<and> respStatus resp \<noteq> 501)"
    using sq(6) by blast
qed

text \<open>What a pass can come to.\<close>

lemma attempt_quiet:
  assumes "quiet W" and "pool_ok (lbPool (hLb h))"
  obtains (refused) e p' where "liveOrder (lbPool (hLb h)) = []"
      "backendAttempt W k d h =
         ((Some (Err e), d), onRw (httpError (errText e) 503) (onPool (\<lambda>_. p') h))"
      "servers p' = servers (lbPool (hLb h))" "backends p' = backends (lbPool (hLb h))" "pool_ok p'"
    | (full) i p' where "i \<in> set (liveOrder (lbPool (hLb h)))"
      "\<not> inFlight (backendAt (lbPool (hLb h)) i) < maximalRequests (backendAt (lbPool (hLb h)) i)"
      "backendAttempt W k d h = ((None, d), onPool (\<lambda>_. p') h)"
      "servers p' = servers (lbPool (hLb h))" "backends p' = backends (lbPool (hLb h))" "pool_ok p'"
    | (failed) i p' h' where "i \<in> set (liveOrder (lbPool (hLb h)))"
      "inFlight (backendAt (lbPool (hLb h)) i) < maximalRequests (backendAt (lbPool (hLb h)) i)"
      "backendAttempt W k d h = ((None, Suc d), h')" "lbPool (hLb h') = SetAlive i False p'"
      "hRw h' = hRw h" "lbSaves (hLb h') = lbSaves (hLb h)"
      "mRequestsNow (lbMetrics (hLb h')) = mRequestsNow (lbMetrics (hLb h)) + 1"
      "mRequests (lbMetrics (hLb h')) = mRequests (lbMetrics (hLb h))"
      "servers p' = servers (lbPool (hLb h))" "backends p' = backends (lbPool (hLb h))" "pool_ok p'"
    | (answered) i r h' where "i \<in> set (liveOrder (lbPool (hLb h)))"
      "inFlight (backendAt (lbPool (hLb h)) i) < maximalRequests (backendAt (lbPool (hLb h)) i)"
      "backendAttempt W k d h = ((Some r, Suc d), h')"
      "servers (lbPool (hLb h')) = servers (lbPool (hLb h))"
      "backends (lbPool (hLb h')) = backends (lbPool (hLb h))"
      "mRequestsNow (lbMetrics (hLb h')) = mRequestsNow (lbMetrics (hLb h)) + 1"
      "mRequests (lbMetrics (hLb h')) = mRequests (lbMetrics (hLb h))"
      "rwStatus (hRw h) = None \<Longrightarrow> rwStatus (hRw h') \<in> {None, Some 200, Some 500}"
      "r = Ok () \<Longrightarrow> \<exists>req resp rerr w. lwSend W k req = DoResponse resp rerr \<and>
         \<not> (respStatus resp \<ge> 500 \<and> respStatus resp < 600 \<and> respStatus resp \<noteq> 505 \<and> respStatus resp \<noteq> 501) \<and>
         WriteBodyAndReturn (lwWrite W (k + 1)) resp rerr (hRw h) = (Ok (respBody resp), w) \<and> hRw h' = w \<and>
         lbSaves (hLb h') = lbSaves (hLb h) @ [(hReq h', resp, respBody resp)]"
proof -
  let ?p = "lbPool (hLb h)"
  obtain out d' h' where att: "backendAttempt W k d h = ((out, d'), h')"
    by (cases "backendAttempt W k d h") (auto intro: that)
  have frame: "servers p' = servers ?p" "backends p' = backends ?p" "pool_ok p'" if "GetNextPeer ?p = (x, p')" for x p'
    using GetNextPeer_frame [OF assms(2)] that by simp_all
  have live: "i \<in> set (liveOrder ?p)" if "GetNextPeer ?p = (Ok i, p')" for i p'
    using GetNextPeer_cases [OF assms(2)] that by auto
  from att show ?thesis
  proof (cases rule: backendAttempt_cases)
    case (refused e p')
    then have peer: "GetNextPeer ?p = (Err e, p')" and h': "h' = onRw (httpError (errText e) 503) (onPool (\<lambda>_. p') h)"
      by (simp_all only: others_quiet [OF assms(1)])
    have "liveOrder ?p = []" using GetNextPeer_cases [OF assms(2)] peer by auto
    from that(1) [OF this _ frame [OF peer]] att refused(2,3) h' show ?thesis by simp
  next
    case (stuck m p')
    then have "GetNextPeer ?p = (Panic m, p')" by (simp only: others_quiet [OF assms(1)])
    then show ?thesis using GetNextPeer_cases [OF assms(2)] by auto
  next
    case (full i p' p2 h1)
    then have peer: "GetNextPeer ?p = (Ok i, p')" and assign: "assignAt i p' = (False, p2)"
      and h': "h' = onPool (\<lambda>_. p2) h" by (simp_all add: others_quiet [OF assms(1)] onPool_twice)
    have i: "i < length (backends p')" "backendAt p' i = backendAt ?p i"
      using live_index [OF assms(2) live [OF peer]] frame [OF peer] by (simp_all add: backendAt_def)
    with assign assign_free(1) assign_full have "\<not> inFlight (backendAt ?p i) < maximalRequests (backendAt ?p i)" "p2 = p'"
      by (metis fst_conv, metis fst_conv snd_conv)
    from that(2) [OF live [OF peer] this(1) _ frame [OF peer]] att full(4,5) h' this(2) show ?thesis by simp
  next
    case (sent i p' p2 h1 h2 r3 h3)
    then have peer: "GetNextPeer ?p = (Ok i, p')" and assign: "assignAt i p' = (True, p2)"
      and h2: "lbPool (hLb h2) = p2" "hRw h2 = hRw h" "lbSaves (hLb h2) = lbSaves (hLb h)"
        "mRequestsNow (lbMetrics (hLb h2)) = mRequestsNow (lbMetrics (hLb h)) + 1"
        "mRequests (lbMetrics (hLb h2)) = mRequests (lbMetrics (hLb h))"
      by (simp_all add: others_quiet [OF assms(1)])
    have i: "i < length (backends p')" "backendAt p' i = backendAt ?p i"
      using live_index [OF assms(2) live [OF peer]] frame [OF peer] by (simp_all add: backendAt_def)
    note sq = sent_quiet [OF assms(1) i(1) assign h2(1) sent(5) refl]
    note h4 = sq(2-6) [unfolded h2(2-5)]
    note found = live [OF peer] sq(1) [unfolded i(2)] frame [OF peer]
    from sent(6) show ?thesis
    proof (cases rule: afterSend_cases)
      case (ended x)
      with att found h4 show ?thesis by (intro that(4) [of i x h']) simp_all
    next
      case (failed e)
      with att found h4 show ?thesis by (intro that(3) [of i h' p']) simp_all
    next
      case (broken resp rerr y x rw)
      with att found h4 WriteBody_status [OF broken(2)] show ?thesis by (intro that(4) [of i x h']) auto
    next
      case (answered resp rerr rw)
      with att found h4 WriteBody_status [OF answered(2)] sq(7) [of resp rerr] show ?thesis
        by (intro that(4) [of i "Ok ()" h']) (auto simp: UpdateResponseBodySize_def)
    qed
  qed
qed

section \<open>The retry loop, when nobody else touches the pool\<close>

lemma SetAlive_simps [simp]:
  "servers (SetAlive i v p) = servers p" "current (SetAlive i v p) = current p"
  "inFlight (backendAt (SetAlive i v p) j) = inFlight (backendAt p j)"
  "maximalRequests (backendAt (SetAlive i v p) j) = maximalRequests (backendAt p j)"
  "bUrl (backendAt (SetAlive i v p) j) = bUrl (backendAt p j)"
  by (cases "i < length (backends p)"; cases "i = j";
      simp add: SetAlive_def updBackend_def backendAt_def list_update_beyond)+

lemma alive_SetAlive:
  "i < length (backends p) \<Longrightarrow> alive (backendAt (SetAlive i v p) j) = (if j = i then v else alive (backendAt p j))"
  by (simp add: SetAlive_def backendAt_updBackend)

lemma set_liveOrder_cong:
  assumes "servers p' = servers p" "backends p' = backends p"
  shows "set (liveOrder p') = set (liveOrder p)"
  using assms by (simp add: set_liveOrder backendAt_def)

lemma set_liveOrder_kill:
  assumes "servers p' = servers p" "backends p' = backends p" "i < length (backends p)"
  shows "set (liveOrder (SetAlive i False p')) = set (liveOrder p) - {i}"
  using assms by (auto simp: set_liveOrder alive_SetAlive) (simp_all add: backendAt_def)

lemma loop_ends:
  assumes "quiet W"
  shows "pool_ok (lbPool (hLb h)) \<Longrightarrow>
      \<forall>i \<in> set (liveOrder (lbPool (hLb h))).
        inFlight (backendAt (lbPool (hLb h)) i) < maximalRequests (backendAt (lbPool (hLb h)) i) \<Longrightarrow>
      card (set (liveOrder (lbPool (hLb h)))) < fuel \<Longrightarrow> \<exists>r h'. backendLoop W fuel k d h = Some (r, h')"
proof (induction fuel arbitrary: k d h)
  case 0
  then show ?case by simp
next
  case (Suc fuel)
  let ?p = "lbPool (hLb h)"
  show ?case
  proof (cases rule: attempt_quiet [OF assms Suc.prems(1), of k d])
    case (1 e p')
    then show ?thesis by simp
  next
    case (2 i p')
    with Suc.prems(2) show ?thesis by blast
  next
    case (3 i p' h')
    have i: "i < length (backends ?p)" by (rule live_index [OF Suc.prems(1) 3(1)])
    have live: "set (liveOrder (lbPool (hLb h'))) = set (liveOrder ?p) - {i}"
      using set_liveOrder_kill [OF 3(9,10) i] 3(4) by simp
    have "card (set (liveOrder (lbPool (hLb h')))) < fuel"
      using Suc.prems(3) 3(1) card_Diff1_less [of "set (liveOrder ?p)" i] live by simp
    moreover have "\<forall>j \<in> set (liveOrder (lbPool (hLb h'))).
        inFlight (backendAt (lbPool (hLb h')) j) < maximalRequests (backendAt (lbPool (hLb h')) j)"
      using Suc.prems(2) live 3(4,10) by (simp add: backendAt_def [of p'] backendAt_def [of ?p])
    moreover have "pool_ok (lbPool (hLb h'))" using 3(4,11) by simp
    ultimately show ?thesis using Suc.IH [of h' "Suc k" "Suc d"] 3(3) by simp
  next
    case (4 i r h')
    then show ?thesis by simp
  qed
qed

lemma loop_spins:
  assumes "quiet W"
  shows "pool_ok (lbPool (hLb h)) \<Longrightarrow> liveOrder (lbPool (hLb h)) \<noteq> [] \<Longrightarrow>
      \<forall>i \<in> set (liveOrder (lbPool (hLb h))).
        \<not> inFlight (backendAt (lbPool (hLb h)) i) < maximalRequests (backendAt (lbPool (hLb h)) i) \<Longrightarrow>
      backendLoop W fuel k d h = None"
proof (induction fuel arbitrary: k d h)
  case 0
  then show ?case by simp
next
  case (Suc fuel)
  let ?p = "lbPool (hLb h)"
  show ?case
  proof (cases rule: attempt_quiet [OF assms Suc.prems(1), of k d])
    case (1 e p')
    with Suc.prems(2) show ?thesis by simp
  next
    case (2 i p')
    let ?h = "onPool (\<lambda>_. p') h"
    have live: "set (liveOrder p') = set (liveOrder ?p)" using set_liveOrder_cong 2(4,5) by blast
    then have "liveOrder p' \<noteq> []" using Suc.prems(2) by (metis set_empty)
    moreover have "\<forall>i \<in> set (liveOrder p'). \<not> inFlight (backendAt p' i) < maximalRequests (backendAt p' i)"
      using Suc.prems(3) live 2(5) by (simp add: backendAt_def)
    ultimately show ?thesis using Suc.IH [of ?h "Suc k" d] 2(3,6) by simp
  next
    case (3 i p' h')
    with Suc.prems(3) show ?thesis by blast
  next
    case (4 i r h')
    with Suc.prems(3) show ?thesis by blast
  qed
qed

lemma loop_balanced:
  assumes "quiet W"
  shows "pool_ok (lbPool (hLb h)) \<Longrightarrow> backendLoop W fuel k d h = Some (r, h') \<Longrightarrow>
    servers (lbPool (hLb h')) = servers (lbPool (hLb h)) \<and>
    (\<forall>j. inFlight (backendAt (lbPool (hLb h')) j) = inFlight (backendAt (lbPool (hLb h)) j)) \<and>
    mRequestsNow (lbMetrics (hLb h')) = mRequestsNow (lbMetrics (hLb h)) - int d \<and>
    mRequests (lbMetrics (hLb h)) + d \<le> mRequests (lbMetrics (hLb h'))"
proof (induction fuel arbitrary: k d h)
  case 0
  then show ?case by simp
next
  case (Suc fuel)
  let ?p = "lbPool (hLb h)"
  show ?case
  proof (cases rule: attempt_quiet [OF assms Suc.prems(1), of k d])
    case (1 e p')
    with Suc.prems(2) show ?thesis by (auto simp: runDefers_def backendAt_def)
  next
    case (2 i p')
    with Suc.prems(2) Suc.IH [of "onPool (\<lambda>_. p') h" "Suc k" d] show ?thesis by (simp add: backendAt_def)
  next
    case (3 i p' h1)
    with Suc.prems(2) Suc.IH [of h1 "Suc k" "Suc d"] show ?thesis
      by (simp add: backendAt_def [of p'] backendAt_def [of ?p])
  next
    case (4 i r1 h1)
    with Suc.prems(2) show ?thesis by (auto simp: runDefers_def backendAt_def)
  qed
qed

lemma loop_reply:
  assumes "quiet W"
  shows "pool_ok (lbPool (hLb h)) \<Longrightarrow> backendLoop W fuel k d h = Some (r, h') \<Longrightarrow>
      rwStatus (hRw h) = None \<Longrightarrow>
    rwStatus (hRw h') \<in> {None, Some 200, Some 500, Some 503} \<and>
    (rwStatus (hRw h') = Some 503 \<longrightarrow> liveOrder (lbPool (hLb h')) = [])"
proof (induction fuel arbitrary: k d h)
  case 0
  then show ?case by simp
next
  case (Suc fuel)
  let ?p = "lbPool (hLb h)"
  show ?case
  proof (cases rule: attempt_quiet [OF assms Suc.prems(1), of k d])
    case (1 e p')
    have "set (liveOrder p') = {}" using set_liveOrder_cong [OF 1(3,4)] 1(1) by simp
    with 1 Suc.prems(2,3) show ?thesis by (auto simp: rwStatus_httpError)
  next
    case (2 i p')
    with Suc.prems(2,3) Suc.IH [of "onPool (\<lambda>_. p') h" "Suc k" d] show ?thesis by simp
  next
    case (3 i p' h1)
    with Suc.prems(2,3) Suc.IH [of h1 "Suc k" "Suc d"] show ?thesis by simp
  next
    case (4 i r1 h1)
    then have r: "r = r1" "h' = onMetrics (runDefers (Suc d)) h1" using Suc.prems(2) by auto
    with 4(8) [OF Suc.prems(3)] 4(9) show ?thesis by auto
  qed
qed

section \<open>What a client gets from a backend\<close>

lemma WriteBody_Ok:
  assumes "WriteBodyAndReturn fault resp rerr newWriter = (Ok b, rw')"
  shows "rwStatus rw' = Some 200" and "rwBody rw' = respBody resp"
    and "rwSent rw' = copyHeader (respHeader resp) []"
  using assms
  by (auto simp: WriteBodyAndReturn_def Let_def writeBody_def writeHeader_def newWriter_def
      split: option.splits if_splits)

text \<open>A world for the witnesses: three backends of which two live, nobody else around.\<close>

definition sampleWorld :: "(nat \<Rightarrow> request \<Rightarrow> doRes) \<Rightarrow> refDb lbWorld" where
  "sampleWorld send =
     \<lparr>lwCache = refEnv, lwUrls = sampleUrls, lwSend = send, lwOthers = \<lambda>_ _. [], lwWrite = \<lambda>_. None,
      lwElapsed = \<lambda>_. 0, lwClock = \<lambda>_. 5, lwNow = (5, 5)\<rparr>"

definition sampleState :: "request \<Rightarrow> refDb hstate" where
  "sampleState req =
     \<lparr>hRw = newWriter, hReq = req,
      hLb = \<lparr>lbPool = samplePool, lbCache = Some (refCache 100), lbMetrics = NewMetrics, lbSaves = []\<rparr>\<rparr>"

lemma sample_simps [simp]:
  "quiet (sampleWorld send)" "lwSend (sampleWorld send) = send" "lwWrite (sampleWorld send) k = None"
  "lwCache (sampleWorld send) = refEnv" "lwUrls (sampleWorld send) = sampleUrls"
  "lwClock (sampleWorld send) = (\<lambda>_. 5)" "lwNow (sampleWorld send) = (5, 5)"
  "hRw (sampleState req) = newWriter" "hReq (sampleState req) = req"
  "lbPool (hLb (sampleState req)) = samplePool" "lbCache (hLb (sampleState req)) = Some (refCache 100)"
  "lbMetrics (hLb (sampleState req)) = NewMetrics" "lbSaves (hLb (sampleState req)) = []"
  by (simp_all add: quiet_def sampleWorld_def sampleState_def)

lemma sample_ends: "\<exists>r h'. backendHandler (sampleWorld send) 4 (sampleState req) = Some (r, h')"
  unfolding backendHandler_def
  by (rule loop_ends)
    (simp_all add: pool_ok_sample liveOrder_sample,
      simp add: samplePool_def sampleBackend_def backendAt_def)

text \<open>The first living server answers.\<close>

lemma handler_answers:
  assumes "quiet W" and "pool_ok (lbPool (hLb h))" and "liveOrder (lbPool (hLb h)) = i # is"
    and "inFlight (backendAt (lbPool (hLb h)) i) < maximalRequests (backendAt (lbPool (hLb h)) i)"
    and "\<And>k req. lwSend W k req = DoResponse resp None" and "\<And>k. lwWrite W k = None"
    and "respStatus resp < 500"
  shows "\<exists>h'. backendHandler W (Suc fuel) h = Some (Ok (), h')"
proof -
  have others: "others W k f x = x" for k f and x :: "'a hstate"
    using assms(1) by (simp add: others_def quiet_def onPool_def)
  obtain p' where p': "GetNextPeer (lbPool (hLb h)) = (Ok i, p')"
    using peers.pick_first [OF assms(2,3)] by blast
  have b: "backends p' = backends (lbPool (hLb h))" using GetNextPeer_frame [OF assms(2)] p' by simp
  have i: "i < length (backends p')" "inFlight (backendAt p' i) < maximalRequests (backendAt p' i)"
    using live_index [OF assms(2)] assms(3,4) b by (simp_all add: backendAt_def)
  obtain p1 where p1: "assignAt i p' = (True, p1)"
    using assign_free(1) [OF i] by (cases "assignAt i p'") auto
  have "\<exists>h'. backendAttempt W 0 0 h = ((Some (Ok ()), 1), h')"
    using assms(5-7) p' p1
    by (simp add: backendAttempt_def others attemptOn_def sendTo_def SendRequestToBackend_def prepareRequest_def
        makeRequest_def Let_def MakeRequestTimeTracker_def afterSend_def WriteBodyAndReturn_def writeBody_def)
  then show ?thesis by (auto simp: backendHandler_def)
qed

text \<open>What an exchange does to the reply, whatever the other goroutines do to the pool.\<close>

definition failing :: "response \<Rightarrow> bool" where
  "failing resp \<longleftrightarrow> 500 \<le> respStatus resp \<and> respStatus resp < 600 \<and> respStatus resp \<noteq> 505 \<and> respStatus resp \<noteq> 501"

lemma sendTo_reply:
  assumes "sendTo W k i h = (r, h')"
  shows "hRw h' = hRw h \<and> lbSaves (hLb h') = lbSaves (hLb h) \<and>
    (\<forall>resp rerr. r = Ok (Some (resp, rerr)) \<longrightarrow> (\<exists>req. lwSend W k req = DoResponse resp rerr) \<and> \<not> failing resp)"
proof -
  obtain req' where "prepareRequest (backendAt (lbPool (hLb h)) i) (hReq h) = req'" by blast
  with assms show ?thesis
    by (auto simp: sendTo_def SendRequestToBackend_def makeRequest_def Let_def others_def failing_def
        split: prod.splits doRes.splits if_splits)
qed

lemma attempt_reply:
  assumes "backendAttempt W k d h = ((out, d'), h')"
  shows "(out = None \<longrightarrow> hRw h' = hRw h \<and> lbSaves (hLb h') = lbSaves (hLb h)) \<and>
    (out = Some (Ok ()) \<longrightarrow> (\<exists>req resp rerr. lwSend W k req = DoResponse resp rerr \<and> \<not> failing resp \<and>
       WriteBodyAndReturn (lwWrite W (k + 1)) resp rerr (hRw h) = (Ok (respBody resp), hRw h') \<and>
       lbSaves (hLb h') = lbSaves (hLb h) @ [(hReq h', resp, respBody resp)]))"
  using assms
proof (cases rule: backendAttempt_cases)
  case (sent i p p2 h1 h2 r3 h3)
  from sendTo_reply [OF sent(5)] sent(2,4) have
    h3: "hRw h3 = hRw h" "lbSaves (hLb h3) = lbSaves (hLb h)"
      "\<And>resp rerr. r3 = Ok (Some (resp, rerr)) \<Longrightarrow> (\<exists>req. lwSend W k req = DoResponse resp rerr) \<and> \<not> failing resp"
    by simp_all
  from sent(6) show ?thesis
  proof (cases rule: afterSend_cases)
    case (answered resp rerr rw)
    with h3 show ?thesis by (auto simp: onMetrics_def)
  qed (use h3 in auto)
qed auto

lemma loop_answers:
  "backendLoop W fuel k d h = Some (Ok (), h') \<Longrightarrow>
   \<exists>k req resp rerr. lwSend W k req = DoResponse resp rerr \<and> \<not> failing resp \<and>
     WriteBodyAndReturn (lwWrite W (k + 1)) resp rerr (hRw h) = (Ok (respBody resp), hRw h') \<and>
     lbSaves (hLb h') = lbSaves (hLb h) @ [(hReq h', resp, respBody resp)]"
proof (induction fuel arbitrary: k d h)
  case (Suc fuel)
  obtain out d1 h1 where att: "backendAttempt W k d h = ((out, d1), h1)" by (metis prod.exhaust)
  note one = attempt_reply [OF att]
  show ?case
  proof (cases out)
    case None
    with Suc.prems att have "backendLoop W fuel (Suc k) d1 h1 = Some (Ok (), h')" by simp
    from Suc.IH [OF this] one None show ?thesis by simp
  next
    case (Some r)
    with Suc.prems att have "r = Ok ()" "h' = onMetrics (runDefers d1) h1" by simp_all
    with one Some show ?thesis by auto
  qed
qed simp

text \<open>C9: The reply of a backend. When the handler succeeds, whatever other goroutines have done to the
  pool meanwhile, some backend answered with a response that is not one of the 5xx codes that mean
  failure (all but 501 and 505), and the client has that response's headers and exactly its body;
  but its status is always 200, whatever the status of the response was. The response and its body
  are handed to one pending save.\<close>
theorem reply_always_200:
  assumes "hRw h = newWriter" and "backendHandler W fuel h = Some (Ok (), h')"
  shows "\<exists>k req resp rerr. lwSend W k req = DoResponse resp rerr \<and> \<not> failing resp \<and>
    rwStatus (hRw h') = Some 200 \<and> rwBody (hRw h') = respBody resp \<and>
    rwSent (hRw h') = copyHeader (respHeader resp) [] \<and>
    lbSaves (hLb h') = lbSaves (hLb h) @ [(hReq h', resp, respBody resp)]"
  using loop_answers [OF assms(2) [unfolded backendHandler_def]] assms(1) WriteBody_Ok by metis

theorem reply_always_200_witness:
  "\<exists>h'. backendHandler (sampleWorld (\<lambda>_ _. DoResponse (refResponse 404 [] ''no'') None)) 3
      (sampleState (refRequest ''GET'' [])) = Some (Ok (), h') \<and> rwStatus (hRw h') = Some 200"
proof -
  let ?W = "sampleWorld (\<lambda>_ _. DoResponse (refResponse 404 [] ''no'') None)"
  let ?h = "sampleState (refRequest ''GET'' [])"
  obtain h' where h': "backendHandler ?W 3 ?h = Some (Ok (), h')"
    using handler_answers [of ?W ?h 0 "[2]" "refResponse 404 [] ''no''" 2] pool_ok_sample liveOrder_sample
    by (auto simp: samplePool_def backendAt_def sampleBackend_def)
  have "rwStatus (hRw h') = Some 200"
    using reply_always_200 [OF _ h'] by auto
  with h' show ?thesis by blast
qed

text \<open>The possible endings. However a request to the backends ends, the client's status is none
  (the client has gone), 200, 500 (the backend's body broke off) or 503, and 503 only when no
  server of the pool is alive any more.\<close>
theorem handler_statuses:
  assumes "quiet W" and "pool_ok (lbPool (hLb h))" and "hRw h = newWriter"
    and "backendHandler W fuel h = Some (r, h')"
  shows "rwStatus (hRw h') \<in> {None, Some 200, Some 500, Some 503} \<and>
    (rwStatus (hRw h') = Some 503 \<longrightarrow>
       (\<forall>i \<in> set (servers (lbPool (hLb h'))). \<not> alive (backendAt (lbPool (hLb h')) i)))"
proof -
  have "rwStatus (hRw h) = None" using assms(3) by (simp add: newWriter_def)
  from loop_reply [OF assms(1,2) assms(4) [unfolded backendHandler_def] this]
  show ?thesis using set_liveOrder [of "lbPool (hLb h')"] by auto
qed

theorem handler_statuses_witness:
  "\<exists>r h'. backendHandler (sampleWorld (\<lambda>_ _. DoUrlError (ErrMsg ''refused''))) 4
      (sampleState (refRequest ''GET'' [])) = Some (r, h') \<and>
    rwStatus (hRw h') \<in> {None, Some 200, Some 500, Some 503}"
proof -
  obtain r h' where h': "backendHandler (sampleWorld (\<lambda>_ _. DoUrlError (ErrMsg ''refused''))) 4
      (sampleState (refRequest ''GET'' [])) = Some (r, h')" using sample_ends by blast
  have "rwStatus (hRw h') \<in> {None, Some 200, Some 500, Some 503}"
    using handler_statuses [OF _ _ _ h'] pool_ok_sample by simp
  with h' show ?thesis by blast
qed

text \<open>C11: Liveness. When every living server has a free slot and nobody else interferes, the handler
  returns after at most one pass more than there are living servers, whatever the backends
  answer: each pass that does not return takes one server out.\<close>
theorem handler_terminates:
  assumes "quiet W" and "pool_ok (lbPool (hLb h))"
    and "\<forall>i \<in> set (servers (lbPool (hLb h))). alive (backendAt (lbPool (hLb h)) i) \<longrightarrow>
      inFlight (backendAt (lbPool (hLb h)) i) < maximalRequests (backendAt (lbPool (hLb h)) i)"
    and "length (servers (lbPool (hLb h))) < fuel"
  shows "\<exists>r h'. backendHandler W fuel h = Some (r, h')"
proof -
  have "card (set (liveOrder (lbPool (hLb h)))) \<le> card (set (servers (lbPool (hLb h))))"
    by (intro card_mono) (auto simp: set_liveOrder)
  also have "\<dots> \<le> length (servers (lbPool (hLb h)))" by (rule card_length)
  finally have "card (set (liveOrder (lbPool (hLb h)))) < fuel" using assms(4) by simp
  moreover have "\<forall>i \<in> set (liveOrder (lbPool (hLb h))).
      inFlight (backendAt (lbPool (hLb h)) i) < maximalRequests (backendAt (lbPool (hLb h)) i)"
    using assms(3) by (simp add: set_liveOrder)
  ultimately show ?thesis unfolding backendHandler_def by (intro loop_ends [OF assms(1,2)])
qed

theorem handler_terminates_witness:
  "\<exists>r h'. backendHandler (sampleWorld (\<lambda>_ _. DoUrlError (ErrMsg ''refused''))) 4
      (sampleState (refRequest ''GET'' [])) = Some (r, h')"
  by (rule handler_terminates)
    (simp_all add: pool_ok_sample, simp_all add: samplePool_def sampleBackend_def backendAt_def)

text \<open>C38: When some server lives and every living server is at its limit, the handler does not return,
  however long it runs, unless another goroutine changes the pool.\<close>
theorem handler_spins_when_full:
  assumes "quiet W" and "pool_ok (lbPool (hLb h))"
    and "\<exists>i \<in> set (servers (lbPool (hLb h))). alive (backendAt (lbPool (hLb h)) i)"
    and "\<forall>i \<in> set (servers (lbPool (hLb h))). alive (backendAt (lbPool (hLb h)) i) \<longrightarrow>
      maximalRequests (backendAt (lbPool (hLb h)) i) \<le> inFlight (backendAt (lbPool (hLb h)) i)"
  shows "backendHandler W fuel h = None"
proof -
  have "set (liveOrder (lbPool (hLb h))) \<noteq> {}" using assms(3) by (auto simp: set_liveOrder)
  then have "liveOrder (lbPool (hLb h)) \<noteq> []" by auto
  moreover have "\<forall>i \<in> set (liveOrder (lbPool (hLb h))).
      \<not> inFlight (backendAt (lbPool (hLb h)) i) < maximalRequests (backendAt (lbPool (hLb h)) i)"
    using assms(4) by (auto simp: set_liveOrder)
  ultimately show ?thesis unfolding backendHandler_def by (intro loop_spins [OF assms(1,2)])
qed

theorem handler_spins_when_full_witness:
  "backendHandler (sampleWorld (\<lambda>_ _. DoUrlError (ErrMsg ''refused''))) 1000
     (onPool (\<lambda>p. p\<lparr>backends := [sampleBackend ''a'' True 0], servers := [0]\<rparr>)
       (sampleState (refRequest ''GET'' []))) = None"
  by (rule handler_spins_when_full)
    (simp_all add: pool_ok_def samplePool_def sampleBackend_def backendAt_def)

text \<open>Balance. However the handler returns, every slot it took has been given back, the gauge of
  requests in progress is where it was, and the pool lists the same servers.\<close>
theorem handler_balanced:
  assumes "quiet W" and "pool_ok (lbPool (hLb h))" and "backendHandler W fuel h = Some (r, h')"
  shows "(\<forall>j. inFlight (backendAt (lbPool (hLb h')) j) = inFlight (backendAt (lbPool (hLb h)) j)) \<and>
    mRequestsNow (lbMetrics (hLb h')) = mRequestsNow (lbMetrics (hLb h)) \<and>
    servers (lbPool (hLb h')) = servers (lbPool (hLb h))"
  using loop_balanced [OF assms(1,2) assms(3) [unfolded backendHandler_def]] by simp

theorem handler_balanced_witness:
  "\<exists>r h'. backendHandler (sampleWorld (\<lambda>_ _. DoUrlError (ErrMsg ''refused''))) 4
      (sampleState (refRequest ''GET'' [])) = Some (r, h') \<and>
    mRequestsNow (lbMetrics (hLb h')) = 0 \<and> inFlight (backendAt (lbPool (hLb h')) 0) = 0"
proof -
  obtain r h' where h': "backendHandler (sampleWorld (\<lambda>_ _. DoUrlError (ErrMsg ''refused''))) 4
      (sampleState (refRequest ''GET'' [])) = Some (r, h')" using sample_ends by blast
  have "mRequestsNow (lbMetrics (hLb h')) = 0" "inFlight (backendAt (lbPool (hLb h')) 0) = 0"
    using handler_balanced [OF _ _ h'] pool_ok_sample
    by (simp_all add: NewMetrics_def samplePool_def backendAt_def sampleBackend_def)
  with h' show ?thesis by blast
qed

section \<open>Saving, and serving what was saved\<close>

lemma RequestHashKey_diskKey:
  assumes "env_ok E"
  shows "diskKey (RequestHashKey E f req)"
proof -
  have "CHR ''/'' \<notin> set (hexEncode x)" for x by (rule separator_fresh) simp
  then show ?thesis
    using assms by (simp add: RequestHashKey_def hash_def diskKey_def hashLength_def env_ok_def)
qed

text \<open>Only responses with a status from 200 to 399 are saved; any other leaves the cache as it
  was. And whatever is saved obeys the cache's own rules: the map of the cache changes only as
  an insertion may change it.\<close>
theorem save_guards:
  assumes "env_ok E" and "cache_ok E c" and "lbCache lb = Some c" and "ctxHash req = Some key"
    and "diskKey key" and "SaveToCache E clk (req, resp, body) lb = (r, lb')"
  shows "(\<not> (200 \<le> respStatus resp \<and> respStatus resp < 400) \<longrightarrow> lb' = lb) \<and>
    (\<exists>c'. lbCache lb' = Some c' \<and> cache_ok E c' \<and>
      cacheSpec c (EvInsert clk key req resp \<lparr>pageBody = body, pageHeader = respHeader resp\<rparr>)
        (cacheMap E (cpDb c)) (cacheMap E (cpDb c')))"
proof (cases "200 \<le> respStatus resp \<and> respStatus resp < 400")
  case False
  then have "lb' = lb" using assms(6) by (auto simp: SaveToCache_def)
  with False assms(2,3) show ?thesis by simp
next
  case True
  let ?page = "\<lparr>pageBody = body, pageHeader = respHeader resp\<rparr>"
  obtain ri c' where ins: "InsertPageInCache E clk key req resp ?page c = (ri, c')" by force
  then have "lbCache lb' = Some c'"
    using assms(3,4,6) True by (auto simp: SaveToCache_def split: res.splits)
  moreover have "cache_ok E c'"
    using cache_ok_Insert [OF env_okD [OF assms(1)] assms(5,2), of clk req resp ?page] ins by simp
  moreover have "cacheMap E (cpDb c') \<in> {cacheMap E (cpDb c), (cacheMap E (cpDb c))(key := None)} \<union>
      (if fits c ?page \<and> storable req resp \<and> cacheMap E (cpDb c) key = None
       then {(cacheMap E (cpDb c))(key \<mapsto> newMeta clk resp ?page)} else {})"
    using cacheMap_Insert [OF assms(1,5,2), of clk req resp ?page] ins by simp
  ultimately show ?thesis using True by (auto split: if_splits)
qed

theorem save_guards_witness:
  "\<exists>r lb'. SaveToCache refEnv (\<lambda>_ _. 5)
      ((refRequest ''GET'' [])\<lparr>ctxHash := Some (refKey CHR ''a'')\<rparr>, refResponse 404 [] ''no'', ''no'')
      (hLb (sampleState (refRequest ''GET'' []))) = (r, lb') \<and>
    lb' = hLb (sampleState (refRequest ''GET'' []))"
proof -
  obtain r lb' where 1: "SaveToCache refEnv (\<lambda>_ _. 5)
      ((refRequest ''GET'' [])\<lparr>ctxHash := Some (refKey CHR ''a'')\<rparr>, refResponse 404 [] ''no'', ''no'')
      (hLb (sampleState (refRequest ''GET'' []))) = (r, lb')" by force
  have "lb' = hLb (sampleState (refRequest ''GET'' []))"
    using save_guards [OF env_ok_ref cache_ok_refCache _ _ _ 1, of 100 "refKey CHR ''a''"] by simp
  with 1 show ?thesis by blast
qed

text \<open>C1: End to end. Once the response of a backend to a GET, with a status from 200 to 399, a body
  that fits, ASCII headers, expiry times that JSON can express and no directive against it, has been saved under the key of its request, where no page was
  cached yet, with a disk and a database that do not fail, an HTTP/1.1 request with this key that comes next
  is answered with status 200 and that very body, without choosing a backend, when the page is fresh by the
  directives of that request and can be written to the client.\<close>
theorem saved_page_is_served:
  assumes "env_ok (lwCache W)" and "bolt_live (ceBolt (lwCache W))" and "ceOs (lwCache W) = noFaults"
    and "cache_ok (lwCache W) c" and "tree_ok (cpFs c)" and "lbCache lb = Some c"
    and "200 \<le> respStatus resp" and "respStatus resp < 400" and "storable req resp"
    and "fits c \<lparr>pageBody = body, pageHeader = respHeader resp\<rparr>" and "asciiHeader (respHeader resp)"
    and "ctxHash req = Some (RequestHashKey (lwCache W) (urlString (lwUrls W)) req2)"
    and "cacheMap (lwCache W) (cpDb c) (RequestHashKey (lwCache W) (urlString (lwUrls W)) req2) = None"
    and "jsonMeta (newMeta clk resp \<lparr>pageBody = body, pageHeader = respHeader resp\<rparr>)"
    and "reqProto req2 = ''HTTP/1.1''" and "lwWrite W 0 = None"
    and "isFresh (fst (lwNow W)) (snd (lwNow W)) (loadRequestDirectives (lwClock W) (reqHeader req2))
      (newMeta clk resp \<lparr>pageBody = body, pageHeader = respHeader resp\<rparr>)"
  shows "\<exists>lb' h'. SaveToCache (lwCache W) clk (req, resp, body) lb = (Ok (), lb') \<and>
    loadBalancerHandler W fuel \<lparr>hRw = newWriter, hReq = req2, hLb = lb'\<rparr> = Some (Ok (), h') \<and>
    rwStatus (hRw h') = Some 200 \<and> rwBody (hRw h') = body \<and> lbPool (hLb h') = lbPool lb"
proof -
  let ?E = "lwCache W" and ?page = "\<lparr>pageBody = body, pageHeader = respHeader resp\<rparr>"
  let ?key = "RequestHashKey (lwCache W) (urlString (lwUrls W)) req2"
  obtain c' v where 1: "InsertPageInCache ?E clk ?key req resp ?page c = (Ok (), c')" "cache_ok ?E c'"
      "cacheMap ?E (cpDb c') ?key = Some (newMeta clk resp ?page)" "marshalPage (ceCodec ?E) ?page = Inr v"
      "storeBytes noFaults ?key v (cpFs c) = (None, cpFs c')"
    using insert_stores [OF assms(1-5) RequestHashKey_diskKey [OF assms(1)] assms(13,10,9,14)] by metis
  have save: "SaveToCache ?E clk (req, resp, body) lb = (Ok (), lb\<lparr>lbCache := Some c'\<rparr>)"
    using assms(6-8,12) 1(1) by (simp add: SaveToCache_def)
  have "pageFile ?key (cpFs c') = Some v"
    using RequestHashKey_diskKey [OF assms(1)] 1(5) by (rule pages.put_same)
  then have "readPageFromDisk (ceCodec ?E) (ceOs ?E) ?key (cpFs c') = Inr ?page"
    using readPage_pageFile [OF env_okD(2) [OF assms(1)] 1(4)] assms(3,11) by simp
  then have "fst (lookup W req2 c') = Ok ?page"
    using GetPage_hit(1) [OF assms(1,2) 1(2,3)] assms(17) by (simp add: lookup_def hashed_def)
  then obtain req' c2 where look: "lookup W req2 c' = (Ok ?page, req', c2)" by (metis prod.collapse)
  have "isHTTPVersionSupported req2"
    using assms(15) by (simp add: isHTTPVersionSupported_def ParseHTTPVersion_def)
  then have "\<exists>h'. loadBalancerHandler W fuel \<lparr>hRw = newWriter, hReq = req2, hLb = lb\<lparr>lbCache := Some c'\<rparr>\<rparr> =
      Some (Ok (), h') \<and> rwStatus (hRw h') = Some 200 \<and> rwBody (hRw h') = body \<and> lbPool (hLb h') = lbPool lb"
    using look assms(16)
    by (simp add: loadBalancerHandler_def getPageHandler_def lookup_def hashed_def Let_def
        MakeRequestTimeTracker_def writeBody_def writeHeader_def newWriter_def)
  with save show ?thesis by blast
qed

theorem saved_page_is_served_witness:
  "\<exists>lb' h'. SaveToCache refEnv (\<lambda>_ _. 5)
      ((refRequest ''GET'' [])\<lparr>ctxHash := Some (RequestHashKey refEnv urlHost (refRequest ''GET'' []))\<rparr>,
       refResponse 200 [] ''hi'', ''hi'') (hLb (sampleState (refRequest ''GET'' []))) = (Ok (), lb') \<and>
    loadBalancerHandler (sampleWorld (\<lambda>_ _. DoOtherError ErrEOF)) 0
      \<lparr>hRw = newWriter, hReq = refRequest ''GET'' [], hLb = lb'\<rparr> = Some (Ok (), h') \<and>
    rwBody (hRw h') = ''hi''"
proof -
  let ?req = "(refRequest ''GET'' [])\<lparr>ctxHash := Some (RequestHashKey refEnv urlHost (refRequest ''GET'' []))\<rparr>"
  let ?W = "sampleWorld (\<lambda>_ _. DoOtherError ErrEOF)" and ?lb = "hLb (sampleState (refRequest ''GET'' []))"
  have st: "storable ?req (refResponse 200 [] ''hi'')"
    using plain_storable [of 200 "''hi''"] by (simp add: storable_def)
  have pg: "\<lparr>pageBody = ''hi'', pageHeader = []\<rparr> = refPage ''hi''" by (simp add: refPage_def)
  have "\<exists>lb' h'. SaveToCache (lwCache ?W) (\<lambda>_ _. 5) (?req, refResponse 200 [] ''hi'', ''hi'') ?lb = (Ok (), lb') \<and>
    loadBalancerHandler ?W 0 \<lparr>hRw = newWriter, hReq = refRequest ''GET'' [], hLb = lb'\<rparr> = Some (Ok (), h') \<and>
    rwStatus (hRw h') = Some 200 \<and> rwBody (hRw h') = ''hi'' \<and> lbPool (hLb h') = lbPool ?lb"
    using st
    by (intro saved_page_is_served [where c = "refCache 100"])
      (simp_all add: env_ok_ref bolt_live_ref pg plain_fits plain_jsonMeta plain_fresh asciiHeader_def,
        simp_all add: sampleUrls_def refRequest_def)
  then show ?thesis by auto
qed

text \<open>Witnesses for the two theorems on the cache's answers.\<close>

theorem cache_hit_served_witness:
  "\<exists>c h'. loadBalancerHandler (sampleWorld (\<lambda>_ _. DoOtherError ErrEOF)) 0
      \<lparr>hRw = newWriter, hReq = refRequest ''GET'' [],
       hLb = \<lparr>lbPool = samplePool, lbCache = Some c, lbMetrics = NewMetrics, lbSaves = []\<rparr>\<rparr> = Some (Ok (), h') \<and>
    rwBody (hRw h') = ''hi'' \<and> mRequestsByCache (lbMetrics (hLb h')) = 1"
proof -
  let ?W = "sampleWorld (\<lambda>_ _. DoOtherError ErrEOF)" and ?req = "refRequest ''GET'' []"
  let ?key = "RequestHashKey (lwCache ?W) (urlString (lwUrls ?W)) ?req"
  have k: "diskKey ?key" by (rule RequestHashKey_diskKey) (simp add: env_ok_ref)
  obtain c v where 1: "cache_ok refEnv c" "cacheMap refEnv (cpDb c) ?key =
         Some (newMeta (\<lambda>_ _. 5) (refResponse 200 [] ''hi'') (refPage ''hi''))"
      "marshalPage (ceCodec refEnv) (refPage ''hi'') = Inr v"
      "storeBytes noFaults ?key v (cpFs (refCache 100)) = (None, cpFs c)"
    by (rule insert_stores [OF env_ok_ref _ _ cache_ok_refCache tree_ok_refCache k, of 100 "refPage ''hi''"
          ?req "refResponse 200 [] ''hi''" "\<lambda>_ _. 5"])
      (simp_all add: bolt_live_ref plain_fits plain_storable plain_jsonMeta)
  have "pageFile ?key (cpFs c) = Some v" using k 1(4) by (rule pages.put_same)
  then have "readPageFromDisk (ceCodec refEnv) (ceOs refEnv) ?key (cpFs c) = Inr (refPage ''hi'')"
    using readPage_pageFile [OF codec_ok_ref, of "refPage ''hi''" v ?key "cpFs c"] 1(3)
    by (simp add: asciiHeader_def)
  moreover have "isFresh 5 5 (loadRequestDirectives (\<lambda>_. 5) (reqHeader ?req))
      (newMeta (\<lambda>_ _. 5) (refResponse 200 [] ''hi'') (refPage ''hi''))" by (simp add: plain_fresh)
  ultimately have "fst (lookup ?W ?req c) = Ok (refPage ''hi'')"
    using GetPage_hit(1) [OF env_ok_ref _ 1(1,2)] by (simp add: lookup_def hashed_def bolt_live_ref)
  then obtain req' c2 where look: "lookup ?W ?req c = (Ok (refPage ''hi''), req', c2)" by (metis prod.collapse)
  let ?h = "\<lparr>hRw = newWriter, hReq = ?req,
       hLb = \<lparr>lbPool = samplePool, lbCache = Some c, lbMetrics = NewMetrics, lbSaves = []\<rparr>\<rparr>"
  have "\<exists>h'. loadBalancerHandler ?W 0 ?h = Some (Ok (), h') \<and> rwBody (hRw h') = ''hi'' \<and>
      mRequestsByCache (lbMetrics (hLb h')) = 1"
    using cache_hit_served [of ?h c ?W "refPage ''hi''" req' c2 0] look
    by (auto simp: refRequest_def NewMetrics_def)
  then show ?thesis by blast
qed

theorem only_if_cached_504_witness:
  "\<exists>h'. loadBalancerHandler (sampleWorld (\<lambda>_ _. DoOtherError ErrEOF)) 0
      (sampleState (refRequest ''GET'' [(''Cache-Control'', [''only-if-cached''])])) = Some (Err ErrOnlyIfCached, h') \<and>
    rwStatus (hRw h') = Some 504"
proof -
  let ?W = "sampleWorld (\<lambda>_ _. DoOtherError ErrEOF)"
  let ?req = "refRequest ''GET'' [(''Cache-Control'', [''only-if-cached''])]"
  have "canonicalKey ''cache-control'' = ''Cache-Control''" by code_simp
  then have pieces: "''only-if-cached'' \<in> set (cacheControlPieces (reqHeader ?req))"
    by (simp add: cacheControlPieces_def headerGet_def trimSpace_def isSpace_def)
  have "\<not> txBucket refBolt (cpDb (refCache 100)) key" for key
    by (simp add: refCache_def NewCachingProperties_def refBucket_def)
  then have "fst (lookup ?W ?req (refCache 100)) = Err (ErrMsg ''missed cache'')"
    by (simp add: lookup_def GetPageFromCache_def getPageMetadata_def boltView_live bolt_live_ref Let_def)
  then obtain req' c' where "lookup ?W ?req (refCache 100) = (Err (ErrMsg ''missed cache''), req', c')"
    by (metis prod.collapse)
  with only_if_cached_504 [of "sampleState ?req" "refCache 100" ?W "ErrMsg ''missed cache''" req' c' 0] pieces
  show ?thesis by (auto simp: refRequest_def)
qed

section \<open>Health checks\<close>

lemma healthCheck_frame:
  "servers (healthCheckFunc dial i p) = servers p" "current (healthCheckFunc dial i p) = current p"
  "CheckIfAlive dial (backendAt (healthCheckFunc dial i p) j) = CheckIfAlive dial (backendAt p j)"
  "length (backends (healthCheckFunc dial i p)) = length (backends p)"
  by (cases "i < length (backends p)"; cases "i = j";
      simp add: healthCheckFunc_def SetAlive_def updBackend_def backendAt_def CheckIfAlive_def list_update_beyond)+

lemma healthRound_alive:
  "\<forall>i \<in> set order. i < length (backends p) \<Longrightarrow>
    (\<forall>j. alive (backendAt (healthRound dial order p) j) =
      (if j \<in> set order then CheckIfAlive dial (backendAt p j) else alive (backendAt p j))) \<and>
    servers (healthRound dial order p) = servers p \<and> current (healthRound dial order p) = current p"
proof (induction order arbitrary: p)
  case Nil
  then show ?case by (simp add: healthRound_def)
next
  case (Cons i order)
  let ?q = "healthCheckFunc dial i p"
  have "alive (backendAt ?q j) = (if j = i then CheckIfAlive dial (backendAt p i) else alive (backendAt p j))" for j
    using Cons.prems by (simp add: healthCheckFunc_def alive_SetAlive)
  with Cons.IH [of ?q] Cons.prems show ?case
    by (auto simp: healthCheck_frame healthRound_def)
qed

text \<open>A round of health checks marks every listed server as its own TCP dial found it, in whatever
  order the goroutines finish, and touches neither the cursor nor the list nor servers that were
  removed from it.\<close>
theorem health_round_marks:
  assumes "pool_ok p" and "set order = set (servers p)"
  shows "(\<forall>i \<in> set (servers p). alive (backendAt (healthRound dial order p) i) =
        dial (urlHost (bUrl (backendAt p i))) (healthCheckTcpTimeout (backendAt p i))) \<and>
    (\<forall>i. i \<notin> set (servers p) \<longrightarrow>
        alive (backendAt (healthRound dial order p) i) = alive (backendAt p i)) \<and>
    servers (healthRound dial order p) = servers p \<and> current (healthRound dial order p) = current p"
proof -
  have "\<forall>i \<in> set order. i < length (backends p)"
    using assms by (simp add: pool_ok_def list_all_iff)
  from healthRound_alive [OF this, of dial] assms(2) show ?thesis by (simp add: CheckIfAlive_def)
qed

theorem health_round_marks_witness:
  "alive (backendAt (healthRound (\<lambda>h t. h = ''b'') [2, 0, 1] samplePool) 1) \<and>
   \<not> alive (backendAt (healthRound (\<lambda>h t. h = ''b'') [2, 0, 1] samplePool) 0)"
proof -
  have "set [2, 0, 1] = set (servers samplePool)" by (auto simp: samplePool_def)
  from health_round_marks [OF pool_ok_sample this, of "\<lambda>h t. h = ''b''"] show ?thesis
    by (simp add: samplePool_def backendAt_def sampleBackend_def)
qed

end
