(* ===== verification/ServerProps.thy ===== *)
theory ServerProps
  imports Server LbProps
begin

text \<open>
  What the composed server guarantees: which requests reach an administration handler, what a token
  is worth after its user is gone, and a session of the command-line client against the server.
\<close>

section \<open>The guard\<close>

text \<open>The claims of the token a request presents, if the middleware accepts it.\<close>

definition acceptedClaims ::
  "authLib \<Rightarrow> authService \<Rightarrow> time \<Rightarrow> request \<Rightarrow> (string \<Rightarrow> claimValue option) option" where
  "acceptedClaims A svc now r =
     (case splitOn CHR '' '' (headerGet (reqHeader r) ''Authorization'') of
        [x, tok] \<Rightarrow>
          (case jwtParse A [''HS512''] (keyFunc svc) now tok of
             Inl e \<Rightarrow> None
           | Inr token \<Rightarrow> if jtValid token then jtClaims token else None)
      | _ \<Rightarrow> None)"

lemma middleware_accepts:
  assumes "acceptedClaims A svc now r = Some claims"
  shows "AuthenticationMiddleware A svc now h w r s = h w (r\<lparr>ctxUser := claimedUser claims\<rparr>) s"
proof -
  obtain x tok where parts: "splitOn CHR '' '' (headerGet (reqHeader r) ''Authorization'') = [x, tok]"
    using assms by (auto simp: acceptedClaims_def split: list.splits)
  then have "headerGet (reqHeader r) ''Authorization'' \<noteq> []" by (intro notI) simp
  with assms parts show ?thesis
    by (auto simp: acceptedClaims_def AuthenticationMiddleware_def tokenLen_def split: sum.splits if_splits)
qed

lemma list_pair_cases:
  obtains (two) x y where "xs = [x, y]" | (other) "length xs \<noteq> 2"
proof (cases "length xs = 2")
  case True
  then obtain x y where "xs = [x, y]" by (auto simp: numeral_2_eq_2 length_Suc_conv)
  then show ?thesis by (rule two)
qed (rule other)

lemma middleware_refuses:
  assumes "acceptedClaims A svc now r = None"
  obtains code where "code \<in> {400, 401}" "AuthenticationMiddleware A svc now h w r s = reply code w s"
proof (cases "splitOn CHR '' '' (headerGet (reqHeader r) ''Authorization'')" rule: list_pair_cases)
  case (two x tok)
  then have "headerGet (reqHeader r) ''Authorization'' \<noteq> []" by (intro notI) simp
  with two assms have "AuthenticationMiddleware A svc now h w r s = reply 401 w s"
    by (auto simp: acceptedClaims_def AuthenticationMiddleware_def tokenLen_def split: sum.splits if_splits option.splits)
  then show ?thesis by (intro that [of 401]) simp_all
next
  case other
  show ?thesis
  proof (cases "headerGet (reqHeader r) ''Authorization'' = []")
    case True
    then show ?thesis by (intro that [of 401]) (simp_all add: AuthenticationMiddleware_def)
  next
    case False
    with other show ?thesis by (intro that [of 400]) (simp_all add: AuthenticationMiddleware_def tokenLen_def)
  qed
qed

lemma guarded_refuses:
  assumes "acceptedClaims (stAuth E) (stService E) (awNow (stAuthWorld E)) r = None"
    and "cors (guard E h) w r s = (res, w', s')"
  shows "s' = s" and "openWriter w \<Longrightarrow> reqMethod r \<noteq> ''OPTIONS'' \<Longrightarrow> rwStatus w' \<in> {Some 400, Some 401}"
proof -
  obtain code where code: "code \<in> {400, 401}"
    "AuthenticationMiddleware (stAuth E) (stService E) (awNow (stAuthWorld E)) h (corsHeaders w) r s = reply code (corsHeaders w) s"
    by (rule middleware_refuses [OF assms(1)])
  with assms(2) have run: "(res, w', s') = (if reqMethod r = ''OPTIONS'' then reply 200 (corsHeaders w) s else reply code (corsHeaders w) s)"
    by (auto simp: cors_def guard_def Let_def split: if_splits)
  then show "s' = s" by (auto simp: reply_def split: if_splits)
  assume "openWriter w" "reqMethod r \<noteq> ''OPTIONS''"
  moreover from this have "openWriter (corsHeaders w)" by (simp add: corsHeaders_def)
  ultimately show "rwStatus w' \<in> {Some 400, Some 401}"
    using run code(1) by (auto simp: reply_def)
qed

lemma cors_preflight:
  assumes "cors h w r s = (res, w', s')" "reqMethod r = ''OPTIONS''" "openWriter w"
  shows "rwStatus w' = Some 200"
proof -
  have "openWriter (corsHeaders w)" using assms(3) by (simp add: corsHeaders_def)
  with assms(1,2) show ?thesis by (auto simp: cors_def reply_def)
qed

lemma adminRoute_cors: "\<exists>h. adminRoute E rt = cors h"
  by (auto simp: adminRoute_def)

lemma SignIn_state: "snd (snd (SignIn A B svc W w r s)) = s"
  by (simp add: SignIn_def reply_def replyError_def split: prod.split option.split sum.split)

lemma cors_state: "(\<And>w. snd (snd (h w r s)) = s) \<Longrightarrow> snd (snd (cors h w r s)) = s"
  by (simp add: cors_def Let_def reply_def)

lemma onAuthState_state: "snd (snd (f w r (bdAuth s))) = bdAuth s \<Longrightarrow> snd (snd (onAuthState f w r s)) = s"
  by (cases s) (auto simp: onAuthState_def split: prod.split)

lemma signInRoute_state: "snd (snd (adminRoute E RSignIn w r s)) = s"
  by (simp add: adminRoute_def cors_state onAuthState_state SignIn_state)

lemma guardedRoute: "rt \<noteq> RSignIn \<Longrightarrow> adminRoute E rt = cors (guard E (bareRoute E rt))"
  by (simp add: adminRoute_def)

lemma balance_auth: "balance E w r s = Some (res, w', s') \<Longrightarrow> bdAuth s' = bdAuth s"
  by (auto simp: balance_def split: option.splits)

text \<open>C6: Without an accepted token nothing but balancing is possible: a request changes no account and
  sends no mail, and unless it goes to the balancer it changes nothing at all; on every
  administration route but the sign-in it is answered 400 or 401. The one exception is a preflight
  request: \<open>OPTIONS\<close> is answered 200 before the check on every administration route, and reaches none of their handlers.\<close>
theorem admin_routes_guarded:
  assumes "acceptedClaims (stAuth E) (stService E) (awNow (stAuthWorld E)) r = None"
    and "serveHTTP E w r s = Some (res, w', s')"
    and "target = muxTarget (reqMethod r) (stPath E (reqURL r))"
  shows "bdAuth s' = bdAuth s \<and> (target \<noteq> MuxRoute RBalance \<longrightarrow> s' = s) \<and>
    (\<forall>rt. target = MuxRoute rt \<and> rt \<notin> {RBalance, RSignIn} \<and> openWriter w \<and>
       reqMethod r \<noteq> ''OPTIONS'' \<longrightarrow> rwStatus w' \<in> {Some 400, Some 401}) \<and>
    (\<forall>rt. target = MuxRoute rt \<and> rt \<noteq> RBalance \<and> openWriter w \<and>
       reqMethod r = ''OPTIONS'' \<and> reqURI r \<noteq> ''*'' \<longrightarrow> rwStatus w' = Some 200)"
proof (cases "reqURI r = ''*''")
  case True
  with assms(2) show ?thesis by (auto simp: serveHTTP_def reply_def)
next
  case False
  show ?thesis
  proof (cases target)
    case (MuxRoute rt)
    show ?thesis
    proof (cases "rt \<in> {RBalance, RSignIn}")
      case True
      with MuxRoute False assms(2,3) show ?thesis
        using signInRoute_state [of E w r s] balance_auth [of E w r s res w' s'] adminRoute_cors [of E rt] cors_preflight
        by (auto simp: serveHTTP_def)
    next
      case other: False
      with MuxRoute False assms(2,3) have "cors (guard E (bareRoute E rt)) w r s = (res, w', s')"
        by (auto simp: serveHTTP_def guardedRoute)
      from guarded_refuses [OF assms(1) this] cors_preflight [OF this] MuxRoute show ?thesis by auto
    qed
  qed (use False assms(2,3) in \<open>auto simp: serveHTTP_def replyError_def\<close>)
qed

lemma route_accepted:
  assumes "target = MuxRoute rt" "target = muxTarget (reqMethod r) (stPath E (reqURL r))"
    and "rt \<notin> {RBalance, RSignIn}" "reqURI r \<noteq> ''*''" "reqMethod r \<noteq> ''OPTIONS''"
    and "acceptedClaims (stAuth E) (stService E) (awNow (stAuthWorld E)) r = Some claims"
  shows "serveHTTP E w r s = Some (bareRoute E rt (corsHeaders w) (r\<lparr>ctxUser := claimedUser claims\<rparr>) s)"
  using assms middleware_accepts [OF assms(6), of "bareRoute E rt" "corsHeaders w" s]
  by (auto simp: serveHTTP_def guardedRoute cors_def guard_def Let_def)

text \<open>The header of a sign-in is accepted as a token of its user for twenty minutes.\<close>

lemma issued_claims:
  assumes "jwt_ok A" "generateToken A svc W u = Inr token" "asciiString u"
    and "headerGet (reqHeader r) ''Authorization'' = ''Bearer '' @ token"
    and "unixSec now < unixSec (awNow W + 1200 * nsPerSec)"
  obtains claims where "acceptedClaims A svc now r = Some claims" "claimedUser claims = Some u"
proof -
  have signed: "jwtSign A (asSignKey svc) u (unixSec (awNow W + 1200 * nsPerSec)) = Inr token"
    using assms(2) by (simp add: generateToken_def tokenExpirationTime_def)
  then have "CHR '' '' \<notin> set token" using assms(1) unfolding jwt_ok_def by blast
  then have "splitOn CHR '' '' (''Bearer'' @ CHR '' '' # token) = [''Bearer'', token]"
    by (simp add: splitOn_append splitOn_no_sep)
  with jwt_accepts [OF assms(1) signed _ assms(3,5), of "keyFunc svc"] assms(4) that show thesis
    by (force simp: acceptedClaims_def keyFunc_def claimedUser_def)
qed

text \<open>C34: A token outlives its user: with the header of a successful sign-in every administration route
  serves the request in that name until the token expires, whether or not the account still
  exists in the database.\<close>
theorem deleted_user_keeps_access:
  assumes "jwt_ok (stAuth E)" "validator_ok (stAuth E)" "openWriter w"
    and "SignIn (stAuth E) (stBolt E) (stService E) W w r a = (res, w', a')" "rwStatus w' = Some 200"
    and "headerGet (reqHeader r2) ''Authorization'' = headerGet (rwSent w') ''Authorization''"
    and "unixSec (awNow (stAuthWorld E)) < unixSec (awNow W + 1200 * nsPerSec)"
    and "muxTarget (reqMethod r2) (stPath E (reqURL r2)) = MuxRoute rt" "rt \<notin> {RBalance, RSignIn}"
    and "reqURI r2 \<noteq> ''*''" "reqMethod r2 \<noteq> ''OPTIONS''"
    and "decodeSignIn (reqBody r) = (None, user)" "userOf (stBolt E) (asDb (bdAuth s)) (siUsername user) = None"
  shows "serveHTTP E w2 r2 s = Some (bareRoute E rt (corsHeaders w2) (r2\<lparr>ctxUser := Some (siUsername user)\<rparr>) s)"
  using assms(4,3)
proof (cases rule: SignIn_cases)
  case (refused code)
  with assms(5) show ?thesis by simp
next
  case (admitted user' token)
  with assms(12) have user: "user' = user" by simp
  have ascii: "asciiString (siUsername user)"
    using admitted(3) validator_name [OF assms(2)] by (auto simp: validSignIn_def user)
  have "headerGet (reqHeader r2) ''Authorization'' = ''Bearer '' @ token"
    using assms(3,6) by (simp add: admitted(7) openWriter_def writeHeader_def setHeader_def headerGet_headerSet)
  from issued_claims [OF assms(1) admitted(5) [unfolded user] ascii this assms(7)] obtain claims where
    "acceptedClaims (stAuth E) (stService E) (awNow (stAuthWorld E)) r2 = Some claims"
    "claimedUser claims = Some (siUsername user)" by metis
  from route_accepted [OF assms(8) refl assms(9-11) this(1), of w2 s] this(2) show ?thesis by simp
qed

section \<open>The command-line client against the server\<close>

text \<open>What \<open>net/http\<close> sends when a handler has returned, and a client whose requests the server answers.\<close>

definition finish :: "rwriter \<Rightarrow> response" where
  "finish w =
     (case rwStatus w of
        None \<Rightarrow> \<lparr>respStatus = 200, respHeader = rwHeader w, respBody = rwBody w\<rparr>
      | Some c \<Rightarrow> \<lparr>respStatus = c, respHeader = rwSent w, respBody = rwBody w\<rparr>)"

definition clientOver ::
  "('db, 'u) site \<Rightarrow> (string \<Rightarrow> string \<Rightarrow> goerror + request) \<Rightarrow> (url \<Rightarrow> string \<Rightarrow> string \<Rightarrow> url) \<Rightarrow>
   ('db, 'u) bduts clientLib" where
  "clientOver E N Q =
     \<lparr>clNewRequest = N, clAddQuery = Q,
      clDo = \<lambda>req s. case serveHTTP E newWriter req s of
          Some (Ok _, w, s') \<Rightarrow> (Inr (finish w), s')
        | Some (_, w, s') \<Rightarrow> (Inl ErrEOF, s')
        | None \<Rightarrow> (Inl (ErrMsg ''timeout''), s)\<rparr>"

text \<open>\<open>http.NewRequest\<close> with the URL of a route gives an empty request for that path.\<close>

definition newRequest_ok ::
  "('db, 'u) site \<Rightarrow> (string \<Rightarrow> string \<Rightarrow> goerror + request) \<Rightarrow> string \<Rightarrow> bool" where
  "newRequest_ok E N host \<longleftrightarrow>
     (\<forall>m path. path \<in> fst ` set routes \<longrightarrow>
        (\<exists>req. N m (proto @ host @ path) = Inr req \<and> reqMethod req = m \<and> stPath E (reqURL req) = path \<and>
           reqURI req = [] \<and> reqHeader req = []))"

lemma newRequest_route:
  assumes "newRequest_ok E N host" "(path, rt) \<in> set routes"
  obtains req where "N m (proto @ host @ path) = Inr req" "reqMethod req = m" "stPath E (reqURL req) = path"
    "reqURI req = []" "reqHeader req = []"
  using assms unfolding newRequest_ok_def by (metis fst_conv image_eqI)

lemma routes_clean: "list_all (\<lambda>p. cleanPath (fst p) = fst p \<and> matchRoute (fst p) = Some (snd p)) routes"
  by code_simp

lemma muxTarget_route:
  assumes "(path, rt) \<in> set routes"
  shows "muxTarget m path = MuxRoute rt"
  using routes_clean assms by (auto simp: list_all_iff muxTarget_def)

lemma canonical_names:
  "canonicalKey ''Authorization'' = ''Authorization''"
  "canonicalKey ''Access-Control-Expose-Headers'' = ''Access-Control-Expose-Headers''"
  "canonicalKey ''Access-Control-Allow-Headers'' = ''Access-Control-Allow-Headers''"
  "canonicalKey ''Access-Control-Allow-Methods'' = ''Access-Control-Allow-Methods''"
  "canonicalKey ''Access-Control-Allow-Origin'' = ''Access-Control-Allow-Origin''"
  "canonicalKey ''X-Content-Type-Options'' = ''X-Content-Type-Options''"
  "canonicalKey ''Content-Type'' = ''Content-Type''"
  by code_simp+

lemma headerGet_Nil [simp]: "headerGet [] k = []"
  by (simp add: headerGet_def)

lemma no_token_header:
  "headerGet (respHeader (finish (writeHeader code (corsHeaders newWriter)))) ''Authorization'' = []"
  "headerGet (respHeader (finish (httpError m code (corsHeaders newWriter)))) ''Authorization'' = []"
  by (simp_all add: finish_def httpError_def httpErrorTo_def writeBody_def writeHeader_def corsHeaders_def
      newWriter_def setHeader_def headerGet_headerSet canonical_names)

lemma token_header:
  "headerGet (respHeader (finish (writeHeader 200 (setHeader ''Authorization'' v (corsHeaders newWriter)))))
     ''Authorization'' = v"
  by (simp add: finish_def writeHeader_def corsHeaders_def newWriter_def setHeader_def headerGet_headerSet)

lemma client_signIn:
  assumes "newRequest_ok E N (fHost f)" "\<not> fHelp f" "fSignIn f"
    and "asciiString (fLogin f)" "asciiString (fPassword f)"
    and "handleArgs (clientOver E N Q) f s = (\<lparr>crOut = [''Bearer '' @ tok], crExit = 0\<rparr>, s1)"
  shows "s1 = s \<and> generateToken (stAuth E) (stService E) (stAuthWorld E) (fLogin f) = Inr tok \<and>
    validSignIn (stAuth E) \<lparr>siUsername = fLogin f, siPassword = fPassword f\<rparr>"
proof -
  have "(''/admin/signin'', RSignIn) \<in> set routes" by (simp add: routes_def)
  from newRequest_route [OF assms(1) this] obtain req where
    req: "N ''POST'' (proto @ fHost f @ ''/admin/signin'') = Inr req" "reqMethod req = ''POST''"
      "stPath E (reqURL req) = ''/admin/signin''" "reqURI req = []" by metis
  have target: "muxTarget m ''/admin/signin'' = MuxRoute RSignIn" for m
    by (rule muxTarget_route) (simp add: routes_def)
  let ?r = "req\<lparr>reqBody := signInBody f\<rparr>"
  let ?w = "corsHeaders newWriter"
  obtain res w' a where run: "SignIn (stAuth E) (stBolt E) (stService E) (stAuthWorld E) ?w ?r (bdAuth s) = (res, w', a)"
    by (cases "SignIn (stAuth E) (stBolt E) (stService E) (stAuthWorld E) ?w ?r (bdAuth s)")
  have a: "a = bdAuth s"
    using SignIn_state [of "stAuth E" "stBolt E" "stService E" "stAuthWorld E" ?w ?r "bdAuth s"] run by simp
  have serve: "serveHTTP E newWriter ?r s = Some (res, w', s)"
    using run a by (cases s) (simp add: serveHTTP_def req target adminRoute_def cors_def onAuthState_def)
  have out: "signInHandle (clientOver E N Q) f s = (\<lparr>crOut = [''Bearer '' @ tok], crExit = 0\<rparr>, s1)"
    using assms(2,3,6) by (simp add: handleArgs_def)
  have "openWriter ?w" by (simp add: corsHeaders_def)
  with run show ?thesis
  proof (cases rule: SignIn_cases)
    case (refused code)
    then have "headerGet (respHeader (finish w')) ''Authorization'' = []"
      using no_token_header by auto
    with out serve refused(2) have False
      by (auto simp: signInHandle_def exchange_def clientOver_def req signInRequestPath_def Let_def
          split: option.splits)
    then show ?thesis ..
  next
    case (admitted user token)
    have "user = \<lparr>siUsername = fLogin f, siPassword = fPassword f\<rparr>"
      using admitted(2) decode_signInBody [OF assms(4,5)] by simp
    moreover have "s1 = s \<and> tok = token"
      using out serve admitted(6,7) token_header [of "''Bearer '' @ token"]
      by (simp add: signInHandle_def exchange_def clientOver_def req signInRequestPath_def Let_def)
    ultimately show ?thesis using admitted(3,5) by simp
  qed
qed

text \<open>What the add command sends, and what the server answers.\<close>

definition sentForm :: "flags \<Rightarrow> AddForm" where
  "sentForm f = \<lparr>afUrl = fAdd f, afHealthCheckTcpTimeout = fTimeout f, afMaximalRequests = fMaxReq f\<rparr>"

lemma decode_addBody: "asciiString (fAdd f) \<Longrightarrow> decodeAdd (addBody f) = (None, sentForm f)"
  using decodeAdd_members [of "sentForm f" "[]"] by (simp add: addBody_def formMembers_def sentForm_def)

definition addable :: "adminLib \<Rightarrow> AddForm \<Rightarrow> url \<Rightarrow> ServerPool \<Rightarrow> bool" where
  "addable L form u p \<longleftrightarrow>
     FindServerByUrl (alUrls L) (afUrl form) p = None \<and> 0 < sint (afHealthCheckTcpTimeout form) \<and>
     0 < sint (afMaximalRequests form) \<and> urlParse (alUrls L) (afUrl form) = Inr u"

lemma add_served:
  assumes "reqMethod r = ''POST''" "reqBody r = addBody f" "asciiString (fAdd f)"
    and "addable (stAdmin E) (sentForm f) u (lbPool (bdLb s))"
  shows "bareRoute E RAdd (corsHeaders newWriter) r s =
    (Ok (), snd (writeBody None ''Success!'' (corsHeaders newWriter)),
     s\<lparr>bdLb := (bdLb s)\<lparr>lbPool := healthCheckFunc (alDial (stAdmin E)) (length (backends (lbPool (bdLb s))))
        (AddServer (formBackend u (sentForm f)) (lbPool (bdLb s)))\<rparr>\<rparr>)"
  using assms addForm_accepts [of "stAdmin E" "sentForm f" "lbPool (bdLb s)" u "corsHeaders newWriter"]
  by (simp add: onPoolState_def AddServerHandler_def decode_addBody addable_def)

lemma success_response: "handleResponse (finish (snd (writeBody None ''Success!'' (corsHeaders newWriter)))) = None"
  by (simp add: finish_def writeBody_def writeHeader_def corsHeaders_def newWriter_def setHeader_def handleResponse_def)

lemma goItoa_400: "goItoa 400 = ''400''"
  by code_simp

lemma refused_response:
  "handleResponse (finish (writeHeader 400 (corsHeaders newWriter))) = Some (ErrMsg ''status 400: '')"
  by (simp add: finish_def writeHeader_def corsHeaders_def newWriter_def setHeader_def handleResponse_def goItoa_400)

text \<open>The client's side of adding a backend, for any token.\<close>

lemma client_add_run:
  assumes "newRequest_ok E N (fHost g)" "\<not> fHelp g" "\<not> fSignIn g" "fAdd g \<noteq> []"
  obtains r where
    "\<And>t. reqMethod (r t) = ''POST''" "\<And>t. muxTarget (reqMethod (r t)) (stPath E (reqURL (r t))) = MuxRoute RAdd"
    "\<And>t. reqURI (r t) = []" "\<And>t. reqBody (r t) = addBody g"
    "\<And>t. headerGet (reqHeader (r t)) ''Authorization'' = ''Bearer '' @ t"
    "\<And>t resp s s'. clDo (clientOver E N Q) (r t) s = (Inr resp, s') \<Longrightarrow>
       handleArgs (clientOver E N Q) (g\<lparr>fToken := t\<rparr>) s =
         withWarning (g\<lparr>fToken := t\<rparr>) (reportAdmin ''Successfully added'' (Inr resp, s'))"
proof -
  have "(''/serverPool/add'', RAdd) \<in> set routes" by (simp add: routes_def)
  from newRequest_route [OF assms(1) this] obtain req where
    req: "N ''POST'' (proto @ fHost g @ ''/serverPool/add'') = Inr req" "reqMethod req = ''POST''"
      "stPath E (reqURL req) = ''/serverPool/add''" "reqURI req = []" "reqHeader req = []" by metis
  have target: "muxTarget m ''/serverPool/add'' = MuxRoute RAdd" for m
    by (rule muxTarget_route) (simp add: routes_def)
  define r where "r t = req\<lparr>reqBody := addBody g, reqHeader := headerAdd ''Authorization'' (''Bearer '' @ t) []\<rparr>" for t
  show thesis
  proof (rule that [of r])
    fix t resp s s'
    assume "clDo (clientOver E N Q) (r t) s = (Inr resp, s')"
    then show "handleArgs (clientOver E N Q) (g\<lparr>fToken := t\<rparr>) s =
        withWarning (g\<lparr>fToken := t\<rparr>) (reportAdmin ''Successfully added'' (Inr resp, s'))"
      using assms(2-4) req
      by (simp add: handleArgs_def addHandle_def exchange_def clientOver_def addRequestPath_def bearer_def
          addBody_def r_def)
  qed (use req target in \<open>simp_all add: r_def headerAdd_def headerGet_def\<close>)
qed

text \<open>C31: A session of the command-line client. Signing in prints a header value; its part after
  \<open>Bearer\<close>, passed with \<open>-t\<close> within twenty minutes, lets \<open>-add\<close> append the backend of the flags to
  the pool and reports success. Passed as it was printed, it makes a header of three words, which
  the server answers 400 without changing anything.\<close>
theorem client_session:
  assumes "jwt_ok (stAuth E)" "validator_ok (stAuth E)" "newRequest_ok E N (fHost f)"
    and "\<not> fHelp f" "fSignIn f" "asciiString (fLogin f)" "asciiString (fPassword f)"
    and "handleArgs (clientOver E N Q) f s = (\<lparr>crOut = [''Bearer '' @ tok], crExit = 0\<rparr>, s1)"
    and "stAuth E2 = stAuth E" "stService E2 = stService E" "newRequest_ok E2 N (fHost g)"
    and "unixSec (awNow (stAuthWorld E2)) < unixSec (awNow (stAuthWorld E) + 1200 * nsPerSec)"
    and "\<not> fHelp g" "\<not> fSignIn g" "fAdd g \<noteq> []" "asciiString (fAdd g)"
    and "addable (stAdmin E2) (sentForm g) u (lbPool (bdLb s))"
  shows "handleArgs (clientOver E2 N Q) (g\<lparr>fToken := tok\<rparr>) s1 =
      (\<lparr>crOut = (if tok = [] then [''Warning: you have not defined a bearer token. ''] else []) @ [''Successfully added''],
        crExit = 0\<rparr>,
       s\<lparr>bdLb := (bdLb s)\<lparr>lbPool := healthCheckFunc (alDial (stAdmin E2)) (length (backends (lbPool (bdLb s))))
          (AddServer (formBackend u (sentForm g)) (lbPool (bdLb s)))\<rparr>\<rparr>) \<and>
    handleArgs (clientOver E2 N Q) (g\<lparr>fToken := ''Bearer '' @ tok\<rparr>) s1 =
      (\<lparr>crOut = [''status 400: ''], crExit = 0\<rparr>, s)"
proof -
  have s1: "s1 = s" and tok: "generateToken (stAuth E) (stService E) (stAuthWorld E) (fLogin f) = Inr tok"
    and valid: "validSignIn (stAuth E) \<lparr>siUsername = fLogin f, siPassword = fPassword f\<rparr>"
    using client_signIn [OF assms(3-8)] by auto
  have word: "CHR '' '' \<notin> set tok"
    using assms(1) tok unfolding generateToken_def jwt_ok_def by blast
  obtain r where r: "\<And>t. reqMethod (r t) = ''POST''"
    "\<And>t. muxTarget (reqMethod (r t)) (stPath E2 (reqURL (r t))) = MuxRoute RAdd"
    "\<And>t. reqURI (r t) = []" "\<And>t. reqBody (r t) = addBody g"
    "\<And>t. headerGet (reqHeader (r t)) ''Authorization'' = ''Bearer '' @ t"
    and run: "\<And>t resp s s'. clDo (clientOver E2 N Q) (r t) s = (Inr resp, s') \<Longrightarrow>
       handleArgs (clientOver E2 N Q) (g\<lparr>fToken := t\<rparr>) s =
         withWarning (g\<lparr>fToken := t\<rparr>) (reportAdmin ''Successfully added'' (Inr resp, s'))"
    by (rule client_add_run [OF assms(11,13-15), where Q = Q]) blast
  obtain claims where claims:
    "acceptedClaims (stAuth E2) (stService E2) (awNow (stAuthWorld E2)) (r tok) = Some claims"
    using issued_claims [OF assms(1) tok assms(6) r(5) assms(12)] assms(9,10) by metis
  let ?p = "healthCheckFunc (alDial (stAdmin E2)) (length (backends (lbPool (bdLb s))))
      (AddServer (formBackend u (sentForm g)) (lbPool (bdLb s)))"
  have good: "serveHTTP E2 newWriter (r tok) s =
      Some (Ok (), snd (writeBody None ''Success!'' (corsHeaders newWriter)), s\<lparr>bdLb := (bdLb s)\<lparr>lbPool := ?p\<rparr>\<rparr>)"
    using route_accepted [OF refl, of RAdd "r tok" E2 claims newWriter s] claims assms(16,17) r
      add_served [of "(r tok)\<lparr>ctxUser := claimedUser claims\<rparr>" g E2 u s]
    by simp
  have "splitOn CHR '' '' (''Bearer '' @ ''Bearer'' @ CHR '' '' # tok) = [''Bearer'', ''Bearer'', tok]"
    using word splitOn_append [of "CHR '' ''" "''Bearer''"] by (simp add: splitOn_no_sep)
  then have bad: "serveHTTP E2 newWriter (r (''Bearer '' @ tok)) s =
      Some (reply 400 (corsHeaders newWriter) s)"
    using r
    by (simp add: serveHTTP_def guardedRoute cors_def guard_def AuthenticationMiddleware_def tokenLen_def)
  have "clDo (clientOver E2 N Q) (r tok) s =
      (Inr (finish (snd (writeBody None ''Success!'' (corsHeaders newWriter)))), s\<lparr>bdLb := (bdLb s)\<lparr>lbPool := ?p\<rparr>\<rparr>)"
    "clDo (clientOver E2 N Q) (r (''Bearer '' @ tok)) s = (Inr (finish (writeHeader 400 (corsHeaders newWriter))), s)"
    using good bad by (simp_all add: clientOver_def reply_def)
  from run [OF this(1)] run [OF this(2)] show ?thesis
    by (simp add: s1 reportAdmin_def success_response refused_response withWarning_def)
qed

section \<open>The properties at concrete inputs\<close>

definition sampleSite :: "time \<Rightarrow> (refDb, refDb) site" where
  "sampleSite now =
     \<lparr>stWorld = sampleWorld (\<lambda>_ _. DoOtherError ErrEOF), stFuel = 1, stAdmin = sampleAdmin, stVisit = [],
      stFault = None, stAuth = sampleLib, stService = sampleService, stBolt = refBolt,
      stAuthWorld = sampleAuthWorld now, stPath = urlRest, stRedirect = \<lambda>_ _ w. w\<rparr>"

definition sampleServer :: "refDb authState \<Rightarrow> (refDb, refDb) bduts" where
  "sampleServer a = \<lparr>bdLb = hLb (sampleState (jsonRequest ''GET'' [])), bdAuth = a\<rparr>"

definition sampleNew :: "string \<Rightarrow> string \<Rightarrow> goerror + request" where
  "sampleNew m u =
     Inr ((jsonRequest m [])\<lparr>reqURL := \<lparr>urlScheme = ''https'', urlHost = ''localhost'', urlRest = drop 17 u\<rparr>\<rparr>)"

lemma sampleSite_simps [simp]:
  "stAdmin (sampleSite now) = sampleAdmin" "stAuth (sampleSite now) = sampleLib"
  "stService (sampleSite now) = sampleService" "stBolt (sampleSite now) = refBolt"
  "stAuthWorld (sampleSite now) = sampleAuthWorld now" "stPath (sampleSite now) = urlRest"
  "bdAuth (sampleServer a) = a" "lbPool (bdLb (sampleServer a)) = samplePool"
  by (simp_all add: sampleSite_def sampleServer_def)

lemma newRequest_ok_sample: "newRequest_ok (sampleSite now) sampleNew ''localhost''"
  by (simp add: newRequest_ok_def sampleNew_def proto_def jsonRequest_def)

theorem admin_routes_guarded_witness:
  "\<exists>res w'. serveHTTP (sampleSite 0) newWriter ((jsonRequest ''DELETE'' [])\<lparr>reqURL := \<lparr>urlScheme = [], urlHost = [], urlRest = ''/admin/clear''\<rparr>\<rparr>)
      (sampleServer annaState) = Some (res, w', sampleServer annaState) \<and> rwStatus w' = Some 401"
proof -
  let ?r = "(jsonRequest ''DELETE'' [])\<lparr>reqURL := \<lparr>urlScheme = [], urlHost = [], urlRest = ''/admin/clear''\<rparr>\<rparr>"
  have target: "muxTarget m ''/admin/clear'' = MuxRoute RClear" for m
    by (rule muxTarget_route) (simp add: routes_def)
  have none: "acceptedClaims sampleLib sampleService (awNow (sampleAuthWorld 0)) ?r = None"
    by (simp add: acceptedClaims_def jsonRequest_def)
  have run: "serveHTTP (sampleSite 0) newWriter ?r (sampleServer annaState) =
      Some (reply 401 (corsHeaders newWriter) (sampleServer annaState))"
    using target by (simp add: serveHTTP_def guardedRoute cors_def guard_def AuthenticationMiddleware_def jsonRequest_def)
  then obtain res w' s' where go: "serveHTTP (sampleSite 0) newWriter ?r (sampleServer annaState) = Some (res, w', s')"
    by (simp add: reply_def)
  have "s' = sampleServer annaState \<and> rwStatus w' \<in> {Some 400, Some 401}"
    using admin_routes_guarded [of "sampleSite 0" ?r newWriter "sampleServer annaState" res w' s', OF _ go refl] none target
    by simp
  moreover have "rwStatus w' = Some 401"
    using go run open_status(1) [of "corsHeaders newWriter" 401] by (auto simp: reply_def corsHeaders_def)
  ultimately show ?thesis using go by auto
qed

text \<open>A sign-in of anna, and what the token it issues is good for.\<close>

definition annaNow :: time where "annaNow = goDate 2024 1 1"

lemma annaNow_times: "unixSec annaNow = 1704067200" "unixSec (annaNow + 1200 * nsPerSec) = 1704068400"
  by (simp_all add: annaNow_def unixSec_def goDate_def nsPerSec_def monthDays_def leapYear_def)

definition annaToken :: string where "annaToken = printInt 1704068400 @ '';'' @ ''key'' @ '';'' @ ''anna''"

lemma annaToken_issued: "generateToken sampleLib sampleService (sampleAuthWorld annaNow) ''anna'' = Inr annaToken"
  by (simp add: generateToken_def tokenExpirationTime_def annaNow_times sampleSign_def wordLike_def annaToken_def)

lemma anna_signs_in:
  assumes "reqMethod r = ''POST''" "reqBody r = signInBody annaFlags"
  shows "SignIn sampleLib refBolt sampleService (sampleAuthWorld annaNow) w r annaState =
    (Ok (), writeHeader 200 (setHeader ''Authorization'' (''Bearer '' @ annaToken) w), annaState)"
  using assms by (simp add: SignIn_def anna_forms anna_valid authorized_anna annaToken_issued reply_def)

theorem deleted_user_keeps_access_witness:
  "\<exists>r2. headerGet (reqHeader r2) ''Authorization'' = ''Bearer '' @ annaToken \<and>
     serveHTTP (sampleSite annaNow) newWriter r2 (sampleServer emptyState) =
       Some (bareRoute (sampleSite annaNow) RServers (corsHeaders newWriter) (r2\<lparr>ctxUser := Some ''anna''\<rparr>) (sampleServer emptyState))"
proof -
  define r2 where "r2 = (jsonRequest ''GET'' [])\<lparr>reqURL := \<lparr>urlScheme = [], urlHost = [], urlRest = ''/serverPool''\<rparr>,
      reqHeader := headerAdd ''Authorization'' (''Bearer '' @ annaToken) []\<rparr>"
  let ?w = "writeHeader 200 (setHeader ''Authorization'' (''Bearer '' @ annaToken) newWriter)"
  have r2: "headerGet (reqHeader r2) ''Authorization'' = ''Bearer '' @ annaToken" "reqMethod r2 = ''GET''"
    "reqURI r2 = []" "urlRest (reqURL r2) = ''/serverPool''"
    by (simp_all add: r2_def headerAdd_def headerGet_def jsonRequest_def)
  have w: "rwStatus ?w = Some 200" "headerGet (rwSent ?w) ''Authorization'' = ''Bearer '' @ annaToken"
    by (simp_all add: writeHeader_def newWriter_def setHeader_def headerGet_headerSet)
  have target: "muxTarget m ''/serverPool'' = MuxRoute RServers" for m
    by (rule muxTarget_route) (simp add: routes_def)
  have "serveHTTP (sampleSite annaNow) newWriter r2 (sampleServer emptyState) =
      Some (bareRoute (sampleSite annaNow) RServers (corsHeaders newWriter) (r2\<lparr>ctxUser := Some ''anna''\<rparr>) (sampleServer emptyState))"
    using deleted_user_keeps_access [of "sampleSite annaNow" newWriter "sampleAuthWorld annaNow"
        "jsonRequest ''POST'' (signInBody annaFlags)" annaState "Ok ()" ?w annaState r2 RServers
        "\<lparr>siUsername = ''anna'', siPassword = ''old secret''\<rparr>" "sampleServer emptyState" newWriter]
      jwt_ok_sample validator_ok_sample anna_signs_in [of "jsonRequest ''POST'' (signInBody annaFlags)" newWriter]
      w r2 target annaNow_times
    by (simp add: anna_forms users_emptyState del: bareRoute.simps)
  with r2(1) show ?thesis by blast
qed

definition sampleAdd :: flags where
  "sampleAdd = defaultFlags\<lparr>fAdd := ''d''\<rparr>"

lemma annaFlags_simps [simp]: "fHelp annaFlags = False" "fHost annaFlags = ''localhost''"
  by (simp_all add: annaFlags_def defaultFlags_def defaultHost_def)

lemma sampleNew_path:
  "sampleNew m (''https://localhost'' @ p) =
     Inr ((jsonRequest m [])\<lparr>reqURL := \<lparr>urlScheme = ''https'', urlHost = ''localhost'', urlRest = p\<rparr>\<rparr>)"
  by (simp add: sampleNew_def)

lemma anna_client:
  "handleArgs (clientOver (sampleSite annaNow) sampleNew (\<lambda>u _ _. u)) (annaFlags\<lparr>fSignIn := True\<rparr>) (sampleServer annaState) =
    (\<lparr>crOut = [''Bearer '' @ annaToken], crExit = 0\<rparr>, sampleServer annaState)"
proof -
  let ?f = "annaFlags\<lparr>fSignIn := True\<rparr>"
  let ?r = "(jsonRequest ''POST'' [])\<lparr>reqURL := \<lparr>urlScheme = ''https'', urlHost = ''localhost'', urlRest = ''/admin/signin''\<rparr>,
      reqBody := signInBody annaFlags\<rparr>"
  have body: "signInBody ?f = signInBody annaFlags" by (simp add: signInBody_def)
  have target: "muxTarget m ''/admin/signin'' = MuxRoute RSignIn" for m
    by (rule muxTarget_route) (simp add: routes_def)
  have "SignIn sampleLib refBolt sampleService (sampleAuthWorld annaNow) (corsHeaders newWriter) ?r annaState =
      (Ok (), writeHeader 200 (setHeader ''Authorization'' (''Bearer '' @ annaToken) (corsHeaders newWriter)), annaState)"
    by (rule anna_signs_in) (simp_all add: jsonRequest_def)
  then have "serveHTTP (sampleSite annaNow) newWriter ?r (sampleServer annaState) =
      Some (Ok (), writeHeader 200 (setHeader ''Authorization'' (''Bearer '' @ annaToken) (corsHeaders newWriter)),
        sampleServer annaState)"
    using target by (simp add: serveHTTP_def adminRoute_def cors_def onAuthState_def) (simp add: jsonRequest_def sampleServer_def)
  then show ?thesis
    using token_header [of "''Bearer '' @ annaToken"]
      sampleNew_path [of "''POST''" "''/admin/signin''"]
    by (simp add: handleArgs_def signInHandle_def exchange_def clientOver_def proto_def body
        signInRequestPath_def Let_def)
qed

theorem client_session_witness:
  "\<exists>s2. handleArgs (clientOver (sampleSite annaNow) sampleNew (\<lambda>u _ _. u)) (sampleAdd\<lparr>fToken := annaToken\<rparr>)
      (sampleServer annaState) = (\<lparr>crOut = [''Successfully added''], crExit = 0\<rparr>, s2) \<and>
    length (servers (lbPool (bdLb s2))) = 4"
proof -
  have addable: "addable sampleAdmin (sentForm sampleAdd) \<lparr>urlScheme = ''http'', urlHost = ''d'', urlRest = []\<rparr> samplePool"
    using sample_not_listed
    by (simp add: addable_def sentForm_def sampleAdd_def defaultFlags_def defaultTimeout_def defaultMaxReq_def sampleUrls_def)
  have "annaToken \<noteq> []" by (simp add: annaToken_def)
  with client_session [of "sampleSite annaNow" sampleNew "annaFlags\<lparr>fSignIn := True\<rparr>" "\<lambda>u _ _. u" "sampleServer annaState"
      annaToken "sampleServer annaState" "sampleSite annaNow" sampleAdd, OF _ _ _ _ _ _ _ anna_client]
    addable jwt_ok_sample validator_ok_sample newRequest_ok_sample [of annaNow] annaNow_times
  show ?thesis
    by (simp add: annaFlags_def sampleAdd_def defaultFlags_def defaultHost_def asciiString_def sampleServer_def
        healthCheckFunc_def SetAlive_def AddServer_def samplePool_def)
qed

end
