(* ===== verification/Startup.thy ===== *)
theory Startup
  imports Config ServerProps
begin

text \<open>
  The start of the program (\<open>main.go\<close>, \<open>NewLoadBalancerConfig\<close> and \<open>NewLoadBalancerWithPool\<close> of
  \<open>lb/loadBalancer.go\<close>) up to the moment it listens. \<open>logger.Fatal\<close> ends the process and is an
  \<open>Err\<close>; a panic, of \<open>main\<close> or of a goroutine, ends it too. \<open>bootWorld\<close> is what a start meets: files,
  environment variables, the databases. The user database file is the only thing besides the cache
  that a start that failed leaves behind, so it is threaded through: \<open>None\<close> is a missing file.
\<close>

section \<open>Configuration\<close>

record LoadBalancerConfig =
  lcPort :: int64
  lcHealthCheckPeriod :: int64
  lcMaxCacheSize :: int64
  lcObserveFrequency :: int64

definition NewLoadBalancerConfig :: "int64 \<Rightarrow> int64 \<Rightarrow> int64 \<Rightarrow> int64 \<Rightarrow> LoadBalancerConfig" where
  "NewLoadBalancerConfig port healthCheckPeriod maxCacheSize observeFrequency =
     \<lparr>lcPort = port, lcHealthCheckPeriod = healthCheckPeriod, lcMaxCacheSize = maxCacheSize,
      lcObserveFrequency = observeFrequency\<rparr>"

definition NewLoadBalancer :: "'db CachingProperties option \<Rightarrow> 'db LoadBalancer" where
  "NewLoadBalancer cachingProperties =
     \<lparr>lbPool = NewServerPool, lbCache = cachingProperties, lbMetrics = NewMetrics, lbSaves = []\<rparr>"

definition NewLoadBalancerWithPool ::
  "urlLib \<Rightarrow> 'db CachingProperties option \<Rightarrow> ServerConfig list \<Rightarrow> 'db LoadBalancer res" where
  "NewLoadBalancerWithPool U cachingProperties cfgs =
     (let lb = NewLoadBalancer cachingProperties in
      case ConfigureServerPool U cfgs (lbPool lb) of
        Ok p \<Rightarrow> Ok (lb\<lparr>lbPool := p\<rparr>)
      | Err e \<Rightarrow> Err e
      | Panic m \<Rightarrow> Panic m)"

definition dbFillFactor :: nat where "dbFillFactor = 8106479329266893"
definition lbConfigPath :: string where "lbConfigPath = ''./resources/config.json''"
definition serversConfigPath :: string where "serversConfigPath = ''./resources/servers.json''"
definition DbDirectory :: string where "DbDirectory = ''./cache-data''"

text \<open>\<open>time.Millisecond\<close> times a duration, and \<open>time.NewTicker\<close>.\<close>

definition inMilliseconds :: "int64 \<Rightarrow> int64" where
  "inMilliseconds n = n * 1000000"

definition newTicker :: "int64 \<Rightarrow> unit res" where
  "newTicker d = (if sint d \<le> 0 then Panic ''non-positive interval for NewTicker'' else Ok ())"

fun andThen :: "'a res \<Rightarrow> ('a \<Rightarrow> 'b res) \<Rightarrow> 'b res" where
  "andThen (Ok a) f = f a"
| "andThen (Err e) f = Err e"
| "andThen (Panic m) f = Panic m"

definition orFatal :: "string \<Rightarrow> goerror + 'a \<Rightarrow> 'a res" where
  "orFatal m r = (case r of Inl e \<Rightarrow> Err (ErrWrap (m @ '': '') e) | Inr a \<Rightarrow> Ok a)"

definition checkFatal :: "string \<Rightarrow> goerror option \<Rightarrow> unit res" where
  "checkFatal m r = (case r of Some e \<Rightarrow> Err (ErrWrap (m @ '': '') e) | None \<Rightarrow> Ok ())"

section \<open>What a start meets\<close>

text \<open>\<open>bwOpen\<close> is \<open>os.Open\<close>, \<open>bwMkdir\<close> is an error other than
  that the directory exists, \<open>bwStatUsers\<close> what \<open>os.Stat\<close> gives for a file that is there, \<open>bwFresh\<close>
  the content of a database bolt has just created.\<close>

record ('db, 'u) bootWorld =
  bwOpen :: "string \<Rightarrow> goerror + goFile"
  bwMkdir :: "string \<Rightarrow> goerror option"
  bwOpenCache :: "goerror + 'db"
  bwFs :: fsys
  bwOpenDir :: "goerror option"
  bwCache :: "'db cacheEnv"
  bwUrls :: urlLib
  bwDial :: "string \<Rightarrow> int64 \<Rightarrow> bool"
  bwEnv :: "string \<Rightarrow> string option"
  bwStatUsers :: "goerror option"
  bwConnect :: "goerror option"
  bwFresh :: 'u
  bwBolt :: "'u bolt"
  bwAuth :: authWorld
  bwCert :: "goerror option"
  bwListen :: "goerror option"

definition loadBalancerConfigure :: "('db, 'u) bootWorld \<Rightarrow> fileConfig res" where
  "loadBalancerConfigure W =
     andThen (orFatal ''Failed to create LoadBalancerReader'' (NewLoadBalancerReader (bwOpen W) lbConfigPath)) (\<lambda>r.
     andThen (orFatal ''Failed to read LoadBalancerConfig'' (ReadLoadBalancerConfig r)) (\<lambda>lbConfig.
     andThen (checkFatal ''Failed to close LoadBalancerReader'' (LoadBalancerReader_Close r)) (\<lambda>_.
     Ok lbConfig)))"

definition serversConfigure :: "('db, 'u) bootWorld \<Rightarrow> ServerConfig list res" where
  "serversConfigure W =
     andThen (orFatal ''Failed to create ServersReader'' (NewServersReader (bwOpen W) serversConfigPath)) (\<lambda>r.
     andThen (orFatal ''Failed to read ServersConfig'' (ReadServersConfig r)) (\<lambda>serversConfig.
     andThen (checkFatal ''Failed to close ServersReader'' (ServersReader_Close r)) (\<lambda>_.
     Ok serversConfig)))"

definition cacheCleanerConfigure :: "('db, 'u) bootWorld \<Rightarrow> int64 \<Rightarrow> CacheCleaner res" where
  "cacheCleanerConfigure W maxCacheSize =
     andThen (checkFatal ''Cache files directory creation error'' (bwMkdir W DbDirectory)) (\<lambda>_.
     andThen (checkFatal ''DB files directory creation error'' (bwMkdir W PagesPath)) (\<lambda>_.
     andThen (checkFatal ''DB files opening error'' (bwOpenDir W)) (\<lambda>_.
     Ok (NewCacheCleaner maxCacheSize dbFillFactor))))"

definition isFileExist :: "goerror option \<Rightarrow> bool" where
  "isFileExist stat = (case stat of Some e \<Rightarrow> \<not> errors_is e ErrNotExist | None \<Rightarrow> True)"

section \<open>The start\<close>

text \<open>The balancer: configuration, cache, pool, and the first health check of every server. The
  health checker's own ticker panics in its goroutine, which is taken where it is started.\<close>

definition startBalancer :: "('db, 'u) bootWorld \<Rightarrow> (LoadBalancerConfig \<times> 'db LoadBalancer) res" where
  "startBalancer W =
     andThen (loadBalancerConfigure W) (\<lambda>lbConfJSON.
     let lbConfig = NewLoadBalancerConfig (fcPort lbConfJSON) (inMilliseconds (fcHealthCheckPeriod lbConfJSON))
           (fcMaxCacheSize lbConfJSON) (inMilliseconds (fcObserveFrequency lbConfJSON)) in
     andThen (checkFatal (''Couldn't create a directory '' @ DbDirectory) (bwMkdir W DbDirectory)) (\<lambda>_.
     andThen (orFatal ''Failed to open boltdb'' (bwOpenCache W)) (\<lambda>boltdb.
     andThen (newTicker (lcObserveFrequency lbConfig)) (\<lambda>_.
     andThen (cacheCleanerConfigure W (lcMaxCacheSize lbConfig)) (\<lambda>controller.
     case CalculateSize (bwCache W) (NewCachingProperties boltdb (bwFs W) controller) of
       (r, cacheProps) \<Rightarrow>
         andThen r (\<lambda>_.
         andThen (serversConfigure W) (\<lambda>cfgs.
         andThen (NewLoadBalancerWithPool (bwUrls W) (Some cacheProps) cfgs) (\<lambda>loadBalancer.
         let pool = lbPool loadBalancer;
             loadBalancer = loadBalancer\<lparr>lbPool := healthRound (bwDial W) (servers pool) pool\<rparr> in
         andThen (newTicker (lcHealthCheckPeriod lbConfig)) (\<lambda>_.
         Ok (lbConfig, loadBalancer)))))))))) "

text \<open>The users: the database file is created when it is missing, and only then the default user.\<close>

definition getenv :: "('db, 'u) bootWorld \<Rightarrow> string \<Rightarrow> string" where
  "getenv W name = (case bwEnv W name of None \<Rightarrow> [] | Some v \<Rightarrow> v)"

definition startUsers ::
  "('db, 'u) bootWorld \<Rightarrow> 'u option \<Rightarrow> (authService \<times> 'u authState) res \<times> 'u option" where
  "startUsers W users =
     (let addDefaultUser = \<not> isFileExist (if users = None then Some ErrNotExist else bwStatUsers W) in
      case bwConnect W of
        Some e \<Rightarrow> (Err (ErrWrap ''Unable to connect to users bolt database: '' e), users)
      | None \<Rightarrow>
          let db = (case users of None \<Rightarrow> bwFresh W | Some db \<Rightarrow> db) in
          (case NewSender (getenv W ''SMTP_USER'') (getenv W ''SMTP_PASSWORD'') (getenv W ''SMTP_HOST'')
              (getenv W ''SMTP_PORT'') True of
             Inl e \<Rightarrow> (Err (ErrWrap ''Unable to set up email sender: '' e), Some db)
           | Inr sender \<Rightarrow>
               (case bwEnv W ''JWT_SIGNING_KEY'' of
                  None \<Rightarrow> (Err (ErrMsg ''JWT signing key is not found''), Some db)
                | Some signKey \<Rightarrow>
                    let authSvc = \<lparr>asSender = sender, asSignKey = signKey\<rparr>; s = \<lparr>asDb = db, asOutbox = []\<rparr> in
                    if \<not> addDefaultUser then (Ok (authSvc, s), Some db)
                    else (case SignUpDefaultUser (bwBolt W) (bwAuth W) s of
                            (Ok (), s) \<Rightarrow> (Ok (authSvc, s), Some (asDb s))
                          | (Err e, s) \<Rightarrow> (Err (ErrWrap ''Unable to add default user: '' e), Some (asDb s))
                          | (Panic m, s) \<Rightarrow> (Panic m, Some (asDb s))))))"

text \<open>\<open>metrics.Init\<close>: a new registry with all gauges at zero, then the two gauges of the cache.\<close>

definition UpdateCacheSize :: "int64 \<Rightarrow> 'db CachingProperties \<Rightarrow> 'db CachingProperties" where
  "UpdateCacheSize n c = c\<lparr>gaugeSize := toFloat (sint n)\<rparr>"

definition metricsInit :: "int64 \<Rightarrow> int \<Rightarrow> 'db CachingProperties \<Rightarrow> 'db CachingProperties" where
  "metricsInit initCacheSize initPagesCount c =
     UpdateCachePagesCount initPagesCount (UpdateCacheSize initCacheSize (c\<lparr>gaugeSize := 0, gaugePages := 0\<rparr>))"

definition withMetrics :: "'db LoadBalancer \<Rightarrow> 'db LoadBalancer" where
  "withMetrics lb =
     lb\<lparr>lbMetrics := NewMetrics, lbCache := map_option (\<lambda>c. metricsInit (Size c) (PagesCount c) c) (lbCache lb)\<rparr>"

definition startProgram ::
  "('db, 'u) bootWorld \<Rightarrow> 'u option \<Rightarrow>
   (LoadBalancerConfig \<times> authService \<times> ('db, 'u) bduts) res \<times> 'u option" where
  "startProgram W users =
     (case startBalancer W of
        Err e \<Rightarrow> (Err e, users)
      | Panic m \<Rightarrow> (Panic m, users)
      | Ok (lbConfig, loadBalancer) \<Rightarrow>
          (case startUsers W users of
             (r, users) \<Rightarrow>
               (andThen r (\<lambda>(authSvc, a).
                andThen (checkFatal ''Failed to load crt and key'' (bwCert W)) (\<lambda>_.
                andThen (checkFatal ''Failed to start tcp listener'' (bwListen W)) (\<lambda>_.
                Ok (lbConfig, authSvc, \<lparr>bdLb = withMetrics loadBalancer, bdAuth = a\<rparr>)))), users)))"

section \<open>Outcomes of the parts\<close>

lemma andThen_Ok [simp]: "andThen r f = Ok b \<longleftrightarrow> (\<exists>a. r = Ok a \<and> f a = Ok b)"
  by (cases r) auto

lemma orFatal_Ok [simp]: "orFatal m r = Ok a \<longleftrightarrow> r = Inr a"
  by (cases r) (auto simp: orFatal_def)

lemma checkFatal_Ok [simp]: "checkFatal m r = Ok u \<longleftrightarrow> r = None"
  by (cases r) (auto simp: checkFatal_def)

lemma newTicker_Ok [simp]: "newTicker d = Ok u \<longleftrightarrow> 0 < sint d"
  by (auto simp: newTicker_def)

text \<open>The backends a configuration describes: those whose URL parses.\<close>

definition configured :: "urlLib \<Rightarrow> ServerConfig \<Rightarrow> Backend list" where
  "configured U c =
     (case urlParse U (scURL c) of
        Inl e \<Rightarrow> []
      | Inr u \<Rightarrow> [\<lparr>bUrl = u, healthCheckTcpTimeout = scHealthCheckTcpTimeout c * 1000000, alive = False, inFlight = 0,
                  maximalRequests = nat (sint (scMaximalRequests c))\<rparr>])"

lemma ConfigureServerPool_Ok:
  assumes "ConfigureServerPool U cs p = Ok p'" "servers p = [0..<length (backends p)]"
  shows "backends p' = backends p @ concat (map (configured U) cs) \<and> servers p' = [0..<length (backends p')]"
  using assms
proof (induction cs arbitrary: p)
  case Nil
  then show ?case by simp
next
  case (Cons c cs)
  show ?case
  proof (cases "urlParse U (scURL c)")
    case (Inl e)
    with Cons show ?thesis by (simp add: NewBackendConfig_def configured_def)
  next
    case (Inr u)
    with Cons.prems(1) have cap: "\<not> sint (scMaximalRequests c) < 0"
      by (auto simp: NewBackendConfig_def NewBackend_def)
    let ?b = "\<lparr>bUrl = u, healthCheckTcpTimeout = scHealthCheckTcpTimeout c * 1000000, alive = False, inFlight = 0,
        maximalRequests = nat (sint (scMaximalRequests c))\<rparr>"
    have "ConfigureServerPool U cs (AddServer ?b p) = Ok p'"
      using Cons.prems(1) Inr cap by (simp add: NewBackendConfig_def NewBackend_def)
    moreover have "servers (AddServer ?b p) = [0..<length (backends (AddServer ?b p))]"
      using Cons.prems(2) by (simp add: AddServer_def)
    ultimately show ?thesis
      using Cons.IH [of "AddServer ?b p"] Inr by (simp add: AddServer_def configured_def)
  qed
qed

definition checked :: "(string \<Rightarrow> int64 \<Rightarrow> bool) \<Rightarrow> Backend \<Rightarrow> Backend" where
  "checked dial b = b\<lparr>alive := CheckIfAlive dial b\<rparr>"

lemma healthRound_all:
  assumes "n \<le> length (backends p)"
  shows "backends (healthRound dial [0..<n] p) = map (checked dial) (take n (backends p)) @ drop n (backends p) \<and>
    servers (healthRound dial [0..<n] p) = servers p"
  using assms
proof (induction n)
  case 0
  then show ?case by (simp add: healthRound_def)
next
  case (Suc n)
  let ?q = "healthRound dial [0..<n] p"
  have q: "backends ?q = map (checked dial) (take n (backends p)) @ drop n (backends p)" "servers ?q = servers p"
    using Suc by simp_all
  have "healthRound dial [0..<Suc n] p = healthCheckFunc dial n ?q"
    by (simp add: healthRound_def)
  moreover have "backendAt ?q n = backends p ! n"
    using Suc.prems q(1) by (simp add: backendAt_def nth_append)
  moreover have "(backends ?q)[n := checked dial (backends p ! n)] =
      map (checked dial) (take (Suc n) (backends p)) @ drop (Suc n) (backends p)"
    using Suc.prems q(1)
    by (simp add: list_update_append take_Suc_conv_app_nth Cons_nth_drop_Suc [symmetric])
  ultimately show ?case
    using q(2) by (simp add: healthCheckFunc_def SetAlive_def updBackend_def checked_def)
qed

lemma inMilliseconds_small:
  "- 9223372036854 \<le> sint n \<Longrightarrow> sint n \<le> 9223372036854 \<Longrightarrow> sint (inMilliseconds n) = sint n * 1000000"
proof -
  assume "- 9223372036854 \<le> sint n" "sint n \<le> 9223372036854"
  then have b: "- (2 ^ 63) \<le> sint n * 1000000" "sint n * 1000000 < 2 ^ 63" by simp_all
  have "inMilliseconds n = of_int (sint n * 1000000)" by (simp add: inMilliseconds_def)
  with b show ?thesis by (simp only: signed_of_int) (simp add: signed_take_bit_int_eq_self)
qed

lemma CalculateSize_cleaner: "cpCleaner (snd (CalculateSize E p)) = cpCleaner p"
  by (auto simp: CalculateSize_def split: txRes.split)

lemma startBalancer_Ok:
  assumes "startBalancer W = Ok (cfg, lb)"
  obtains r fc r' cs c pool where
    "NewLoadBalancerReader (bwOpen W) lbConfigPath = Inr r" "ReadLoadBalancerConfig r = Inr fc"
    "NewServersReader (bwOpen W) serversConfigPath = Inr r'" "ReadServersConfig r' = Inr cs"
    "cfg = NewLoadBalancerConfig (fcPort fc) (inMilliseconds (fcHealthCheckPeriod fc)) (fcMaxCacheSize fc)
       (inMilliseconds (fcObserveFrequency fc))"
    "0 < sint (inMilliseconds (fcObserveFrequency fc))" "0 < sint (inMilliseconds (fcHealthCheckPeriod fc))"
    "cpCleaner c = NewCacheCleaner (fcMaxCacheSize fc) dbFillFactor"
    "ConfigureServerPool (bwUrls W) cs NewServerPool = Ok pool" "lbCache lb = Some c"
    "lbPool lb = healthRound (bwDial W) (servers pool) pool" "lbSaves lb = []"
    "\<And>db. bwOpenCache W = Inr db \<Longrightarrow>
       CalculateSize (bwCache W) (NewCachingProperties db (bwFs W) (NewCacheCleaner (fcMaxCacheSize fc) dbFillFactor)) = (Ok (), c)"
proof -
  obtain fc where fc: "loadBalancerConfigure W = Ok fc"
    using assms by (auto simp: startBalancer_def)
  obtain db where db: "bwOpenCache W = Inr db" using assms fc by (auto simp: startBalancer_def Let_def)
  let ?cl = "NewCacheCleaner (fcMaxCacheSize fc) dbFillFactor"
  obtain r c where size: "CalculateSize (bwCache W) (NewCachingProperties db (bwFs W) ?cl) = (r, c)" by force
  have clean: "cpCleaner c = ?cl"
    using CalculateSize_cleaner [of "bwCache W" "NewCachingProperties db (bwFs W) ?cl"] size
    by (simp add: NewCachingProperties_def)
  note run = assms [unfolded startBalancer_def Let_def]
  have r: "r = Ok ()" using run fc db size by (auto simp: NewLoadBalancerConfig_def cacheCleanerConfigure_def)
  obtain cs where cs: "serversConfigure W = Ok cs"
    using run fc db size by (auto simp: NewLoadBalancerConfig_def cacheCleanerConfigure_def)
  obtain pool where pool: "ConfigureServerPool (bwUrls W) cs NewServerPool = Ok pool"
    using run fc db size cs
    by (auto simp: NewLoadBalancerConfig_def cacheCleanerConfigure_def NewLoadBalancerWithPool_def
        NewLoadBalancer_def Let_def split: res.splits)
  have rest: "cfg = NewLoadBalancerConfig (fcPort fc) (inMilliseconds (fcHealthCheckPeriod fc)) (fcMaxCacheSize fc)
       (inMilliseconds (fcObserveFrequency fc))"
    "0 < sint (inMilliseconds (fcObserveFrequency fc))" "0 < sint (inMilliseconds (fcHealthCheckPeriod fc))"
    "lbCache lb = Some c" "lbPool lb = healthRound (bwDial W) (servers pool) pool" "lbSaves lb = []"
    using run fc db size cs pool r
    by (auto simp: NewLoadBalancerConfig_def cacheCleanerConfigure_def NewLoadBalancerWithPool_def
        NewLoadBalancer_def Let_def)
  obtain q where "NewLoadBalancerReader (bwOpen W) lbConfigPath = Inr q" "ReadLoadBalancerConfig q = Inr fc"
    using fc by (auto simp: loadBalancerConfigure_def)
  moreover obtain q' where "NewServersReader (bwOpen W) serversConfigPath = Inr q'" "ReadServersConfig q' = Inr cs"
    using cs by (auto simp: serversConfigure_def)
  ultimately show thesis using clean pool rest db size r by (intro that) simp_all
qed

section \<open>Properties\<close>

text \<open>C32: A program that has started runs what its two files describe: one backend per server whose URL
  parses, in their order, with the limit and the timeout of the file, alive exactly when the first
  dial succeeded; a cache cleaner with the size of the file, whose counters and gauges agree; and both timers have a positive
  period, that of the file as long as its milliseconds fit into a duration, so a zero, negative or
  missing period never starts.\<close>
theorem started_as_configured:
  assumes "startProgram W users = (Ok (cfg, svc, st), users')"
  shows "\<exists>r fc r' cs c.
      NewLoadBalancerReader (bwOpen W) lbConfigPath = Inr r \<and> ReadLoadBalancerConfig r = Inr fc \<and>
      NewServersReader (bwOpen W) serversConfigPath = Inr r' \<and> ReadServersConfig r' = Inr cs \<and>
      backends (lbPool (bdLb st)) = map (checked (bwDial W)) (concat (map (configured (bwUrls W)) cs)) \<and>
      servers (lbPool (bdLb st)) = [0..<length (backends (lbPool (bdLb st)))] \<and>
      lbCache (bdLb st) = Some c \<and> maxFileSize (cpCleaner c) = fcMaxCacheSize fc \<and>
      gaugeSize c = toFloat (sint (Size c)) \<and> gaugePages c = PagesCount c \<and>
      lcObserveFrequency cfg = inMilliseconds (fcObserveFrequency fc) \<and> 0 < sint (lcObserveFrequency cfg) \<and>
      lcHealthCheckPeriod cfg = inMilliseconds (fcHealthCheckPeriod fc) \<and> 0 < sint (lcHealthCheckPeriod cfg) \<and>
      (\<forall>n \<in> {fcObserveFrequency fc, fcHealthCheckPeriod fc}. \<bar>sint n\<bar> \<le> 9223372036854 \<longrightarrow>
         0 < sint n \<and> sint (inMilliseconds n) = sint n * 1000000)"
proof -
  obtain lb where boot: "startBalancer W = Ok (cfg, lb)" and st: "bdLb st = withMetrics lb"
    using assms by (auto simp: startProgram_def split: res.splits prod.splits)
  from boot show ?thesis
  proof (cases rule: startBalancer_Ok)
    case (1 r fc r' cs c pool)
    have pool: "backends pool = concat (map (configured (bwUrls W)) cs)" "servers pool = [0..<length (backends pool)]"
      using ConfigureServerPool_Ok [OF 1(9)] by (auto simp: NewServerPool_def)
    have round: "backends (lbPool lb) = map (checked (bwDial W)) (backends pool)" "servers (lbPool lb) = servers pool"
      using healthRound_all [of "length (backends pool)" pool "bwDial W"] 1(11) pool(2) by simp_all
    have "0 < sint n \<and> sint (inMilliseconds n) = sint n * 1000000"
      if "n \<in> {fcObserveFrequency fc, fcHealthCheckPeriod fc}" "\<bar>sint n\<bar> \<le> 9223372036854" for n
      using that 1(6,7) inMilliseconds_small [of n] by auto
    with 1 pool round st show ?thesis
      by (intro exI [of _ r] exI [of _ fc] exI [of _ r'] exI [of _ cs]
          exI [of _ "metricsInit (Size c) (PagesCount c) c"])
        (simp add: NewLoadBalancerConfig_def NewCacheCleaner_def withMetrics_def metricsInit_def
          UpdateCacheSize_def UpdateCachePagesCount_def)
  qed
qed

text \<open>A first start creates the default user: when there was no user database and the start went
  through, the accounts are exactly one, \<open>admin\<close>, and of the passwords bcrypt can tell apart only
  the default one opens it.\<close>
theorem first_start_admin:
  assumes "bolt_ok (bwBolt W)" "bolt_live (bwBolt W)" "rand_ok (bwAuth W)" "bcrypt_ok A (bwAuth W)"
    and "bcrypt_strong A (bwAuth W)" "userOf (bwBolt W) (bwFresh W) = Map.empty"
    and "startProgram W None = (Ok (cfg, svc, st), users')"
  shows "(\<exists>a. userOf (bwBolt W) (asDb (bdAuth st)) = [''admin'' \<mapsto> a]) \<and> users' = Some (asDb (bdAuth st)) \<and>
    (\<forall>q. plainPassword q \<longrightarrow>
       (isAuthorized A (bwBolt W) ''admin'' q (asDb (bdAuth st)) \<longleftrightarrow> q = ''verySecureAdminPassword12345''))"
proof -
  obtain a where a: "bdAuth st = a" and users: "startUsers W None = (Ok (svc, a), users')"
    using assms(7) by (auto simp: startProgram_def split: res.splits prod.splits)
  obtain salt hsh where made: "generateSalt (bwAuth W) 0 = Inr salt" "awBcrypt (bwAuth W) (defaultPassword @ salt) = Inr hsh"
    and ins: "InsertUser (bwBolt W) defaultUser salt hsh ''admin@localhost'' (bwFresh W) = (Ok (), asDb a)"
    and stored: "users' = Some (asDb a)"
    using users
    by (auto simp: startUsers_def isFileExist_def SignUpDefaultUser_def Let_def
        split: option.splits sum.splits res.splits prod.splits unit.splits)
  have name: "validName defaultUser" by (simp add: validName_def defaultUser_def)
  note added = InsertUser_ok [OF assms(1) name ins]
  have salt: "length salt = 28" "CHR 0x00 \<notin> set salt" using generateSalt_plain [OF assms(3) made(1)] by auto
  have "plainSecret (defaultPassword @ salt)" using salt by (simp add: plainSecret_def defaultPassword_def)
  from hashed_opens [OF assms(4,5) this salt(1) made(2), of "\<lparr>acSalt = salt, acHash = hsh, acEmail = ''admin@localhost''\<rparr>"]
  have "isAuthorized A (bwBolt W) ''admin'' q (asDb a) \<longleftrightarrow> q = ''verySecureAdminPassword12345''"
    if "plainPassword q" for q
    using that added(2) by (simp add: isAuthorized_live [OF assms(2)] defaultUser_def defaultPassword_def)
  then show ?thesis using added(2) assms(6) stored by (auto simp: a defaultUser_def)
qed

text \<open>A first start that is interrupted locks everybody out. Connecting creates the user database
  before the mail settings and the signing key are read; when one of them is missing the process
  ends and leaves the file, so no later start creates the default user, and then no sign-in is
  ever accepted.\<close>
theorem interrupted_first_start:
  assumes "bolt_live B" "userOf B (bwFresh W) = Map.empty" "bwConnect W = None"
    and "bwEnv W ''SMTP_USER'' = None \<or> bwEnv W ''JWT_SIGNING_KEY'' = None"
  shows "(\<exists>e. startUsers W None = (Err e, Some (bwFresh W))) \<and>
    (\<forall>W' svc a users'. bwStatUsers W' = None \<and> startUsers W' (Some (bwFresh W)) = (Ok (svc, a), users') \<longrightarrow>
       userOf B (asDb a) = Map.empty \<and>
       (\<forall>A V w r res w' a'. openWriter w \<and> SignIn A B svc V w r a = (res, w', a') \<longrightarrow> rwStatus w' \<noteq> Some 200 \<and> a' = a))"
proof -
  have "\<exists>e. startUsers W None = (Err e, Some (bwFresh W))"
    using assms(3,4)
    by (auto simp: startUsers_def isFileExist_def Let_def getenv_def NewSender_def split: option.split sum.split)
  moreover have "userOf B (asDb a) = Map.empty"
    if "bwStatUsers W' = None" "startUsers W' (Some (bwFresh W)) = (Ok (svc, a), users')" for W' svc a users'
    using that assms(2) by (auto simp: startUsers_def isFileExist_def Let_def split: option.splits sum.splits)
  moreover have "rwStatus w' \<noteq> Some 200 \<and> a' = a"
    if "userOf B (asDb a) = Map.empty" "openWriter w" "SignIn A B svc V w r a = (res, w', a')"
    for A V svc w r and a :: "'a authState" and res w' a'
    using that(3,2)
  proof (cases rule: SignIn_cases)
    case (refused code)
    then show ?thesis by auto
  next
    case (admitted user token)
    with that(1) show ?thesis by (simp add: isAuthorized_live [OF assms(1)])
  qed
  ultimately show ?thesis by blast
qed

section \<open>The properties at concrete inputs\<close>

definition sampleFile :: fileConfig where
  "sampleFile = \<lparr>fcPort = 8080, fcHealthCheckPeriod = 30000, fcMaxCacheSize = 1000000, fcObserveFrequency = 10000\<rparr>"

definition fileJson :: "fileConfig \<Rightarrow> json" where
  "fileJson c =
     JObj [(''Port'', JNum (printInt (sint (fcPort c)))), (''HealthCheckPeriod'', JNum (printInt (sint (fcHealthCheckPeriod c)))),
       (''MaxCacheSize'', JNum (printInt (sint (fcMaxCacheSize c)))),
       (''ObserveFrequency'', JNum (printInt (sint (fcObserveFrequency c))))]"

text \<open>A file with the given content, which closes.\<close>

definition goodFile :: "bytes \<Rightarrow> goFile" where
  "goodFile s = \<lparr>gfContent = Inr s, gfClose = None\<rparr>"

lemma goodFile_closes [simp]:
  "LoadBalancerReader_Close \<lparr>lrFile = goodFile s\<rparr> = None" "ServersReader_Close \<lparr>srFile = goodFile s\<rparr> = None"
  by (simp_all add: LoadBalancerReader_Close_def ServersReader_Close_def goodFile_def)

lemma ReadLoadBalancerConfig_printed: "ReadLoadBalancerConfig \<lparr>lrFile = goodFile (printJson (fileJson c))\<rparr> = Inr c"
proof -
  have "plainJson (fileJson c)"
    using plainJson_sint by (simp add: fileJson_def asciiString_def del: plainJson.simps(1))
  then show ?thesis
    by (simp add: ReadLoadBalancerConfig_def goodFile_def unmarshalStruct_def decode_printJson del: plainJson.simps)
      (simp add: fileJson_def fileConfigFields_def bindMember_def selectField_def)
qed

definition sampleServers :: "ServerConfig list" where
  "sampleServers = [\<lparr>scURL = ''a'', scHealthCheckTcpTimeout = 100, scMaximalRequests = 5\<rparr>]"

definition sampleBoot :: "(string \<Rightarrow> string option) \<Rightarrow> (refDb, refDb) bootWorld" where
  "sampleBoot env =
     \<lparr>bwOpen = \<lambda>p. Inr (goodFile (if p = lbConfigPath then printJson (fileJson sampleFile)
                                  else printJson (JArr (map serverJson sampleServers)))),
      bwMkdir = \<lambda>_. None, bwOpenCache = Inr [], bwFs = cpFs (refCache 100), bwOpenDir = None,
      bwCache = refEnv, bwUrls = sampleUrls, bwDial = \<lambda>_ _. True, bwEnv = env, bwStatUsers = None, bwConnect = None,
      bwFresh = [], bwBolt = refBolt, bwAuth = sampleAuthWorld 0, bwCert = None, bwListen = None\<rparr>"

lemma sampleBoot_simps [simp]:
  "bwConnect (sampleBoot env) = None" "bwEnv (sampleBoot env) = env" "bwStatUsers (sampleBoot env) = None"
  "bwFresh (sampleBoot env) = []" "bwBolt (sampleBoot env) = refBolt" "bwAuth (sampleBoot env) = sampleAuthWorld 0"
  "bwCert (sampleBoot env) = None" "bwListen (sampleBoot env) = None" "bwDial (sampleBoot env) = (\<lambda>_ _. True)"
  "bwUrls (sampleBoot env) = sampleUrls" "bwMkdir (sampleBoot env) p = None"
  "bwOpenCache (sampleBoot env) = Inr []" "bwOpenDir (sampleBoot env) = None" "bwCache (sampleBoot env) = refEnv"
  by (simp_all add: sampleBoot_def)

lemma sample_files:
  "NewLoadBalancerReader (bwOpen (sampleBoot env)) lbConfigPath = Inr \<lparr>lrFile = goodFile (printJson (fileJson sampleFile))\<rparr>"
  "NewServersReader (bwOpen (sampleBoot env)) serversConfigPath =
     Inr \<lparr>srFile = goodFile (printJson (JArr (map serverJson sampleServers)))\<rparr>"
  by (simp_all add: sampleBoot_def lbConfigPath_def serversConfigPath_def NewLoadBalancerReader_def NewServersReader_def)

lemma sample_servers_read:
  "ReadServersConfig \<lparr>srFile = goodFile (printJson (JArr (map serverJson sampleServers)))\<rparr> = Inr sampleServers"
  using unmarshal_servers [of sampleServers]
  by (simp add: ReadServersConfig_def goodFile_def sampleServers_def asciiString_def)

definition fullEnv :: "string \<Rightarrow> string option" where
  "fullEnv name = Some ''key''"

lemma sampleBoot_balancer:
  "\<exists>cfg lb. startBalancer (sampleBoot env) = Ok (cfg, lb) \<and> length (servers (lbPool lb)) = 1"
proof -
  have size: "CalculateSize refEnv (NewCachingProperties [] fs cl) = (Ok (), (NewCachingProperties [] fs cl)\<lparr>Size := 0, PagesCount := 0\<rparr>)"
    for fs cl
    by (simp add: CalculateSize_def boltView_live bolt_live_ref NewCachingProperties_def refNames_def)
  have "0 < sint (inMilliseconds 10000)" "0 < sint (inMilliseconds 30000)"
    by (simp_all add: inMilliseconds_small)
  then show ?thesis
    using sample_files ReadLoadBalancerConfig_printed [of sampleFile] sample_servers_read size
    by (simp add: startBalancer_def Let_def loadBalancerConfigure_def serversConfigure_def cacheCleanerConfigure_def
        NewLoadBalancerConfig_def NewLoadBalancerWithPool_def NewLoadBalancer_def sampleFile_def sampleServers_def
        NewBackendConfig_def NewBackend_def sampleUrls_def NewServerPool_def AddServer_def healthRound_def
        healthCheckFunc_def SetAlive_def updBackend_def orFatal_def checkFatal_def newTicker_def)
qed

lemma sampleBoot_users:
  "\<exists>svc a users'. startUsers (sampleBoot fullEnv) None = (Ok (svc, a), users')"
proof -
  let ?a = "\<lparr>acSalt = sampleSalt, acHash = defaultPassword @ sampleSalt, acEmail = ''admin@localhost''\<rparr>"
  have "fst (performUser refBolt (SInsert defaultUser ?a) []) = Ok ()"
    by (subst performUser_live [OF bolt_ok_ref bolt_live_ref])
      (simp_all add: validName_def users_emptyState length_sample maxValueSize_def defaultUser_def defaultPassword_def)
  then obtain db where "InsertUser refBolt defaultUser sampleSalt (defaultPassword @ sampleSalt) ''admin@localhost'' [] = (Ok (), db)"
    by (cases "InsertUser refBolt defaultUser sampleSalt (defaultPassword @ sampleSalt) ''admin@localhost'' []") simp
  then show ?thesis
    by (simp add: startUsers_def isFileExist_def Let_def getenv_def fullEnv_def NewSender_def SignUpDefaultUser_def
        sample_secrets length_sample defaultPassword_def)
qed

lemma sampleBoot_starts:
  "\<exists>cfg svc st users'. startProgram (sampleBoot fullEnv) None = (Ok (cfg, svc, st), users')"
  using sampleBoot_balancer [of fullEnv] sampleBoot_users by (auto simp: startProgram_def)

theorem started_as_configured_witness:
  "\<exists>cfg svc st users'. startProgram (sampleBoot fullEnv) None = (Ok (cfg, svc, st), users') \<and>
     lcObserveFrequency cfg = 10000000000 \<and> map alive (backends (lbPool (bdLb st))) = [True]"
proof -
  obtain cfg svc st users' where go: "startProgram (sampleBoot fullEnv) None = (Ok (cfg, svc, st), users')"
    using sampleBoot_starts by blast
  from started_as_configured [OF go] have "lcObserveFrequency cfg = 10000000000 \<and> map alive (backends (lbPool (bdLb st))) = [True]"
    using sample_files [of fullEnv] ReadLoadBalancerConfig_printed [of sampleFile] sample_servers_read
    by (auto simp: sampleFile_def sampleServers_def configured_def sampleUrls_def checked_def CheckIfAlive_def inMilliseconds_def)
  with go show ?thesis by (intro exI [of _ cfg] exI [of _ svc] exI [of _ st] exI [of _ users']) simp
qed

theorem first_start_admin_witness:
  "\<exists>cfg svc st users'. startProgram (sampleBoot fullEnv) None = (Ok (cfg, svc, st), users') \<and>
     isAuthorized sampleLib refBolt ''admin'' ''verySecureAdminPassword12345'' (asDb (bdAuth st)) \<and>
     \<not> isAuthorized sampleLib refBolt ''admin'' ''admin'' (asDb (bdAuth st))"
proof -
  obtain cfg svc st users' where go: "startProgram (sampleBoot fullEnv) None = (Ok (cfg, svc, st), users')"
    using sampleBoot_starts by blast
  from first_start_admin [of "sampleBoot fullEnv" sampleLib, OF _ _ _ _ _ _ go]
  have "\<forall>q. plainPassword q \<longrightarrow> (isAuthorized sampleLib refBolt ''admin'' q (asDb (bdAuth st)) \<longleftrightarrow> q = ''verySecureAdminPassword12345'')"
    by (simp add: bolt_ok_ref bolt_live_ref rand_ok_sample bcrypt_ok_sample bcrypt_strong_sample users_emptyState)
  with go show ?thesis by (auto simp: plainPassword_def)
qed

theorem interrupted_first_start_witness:
  "\<exists>e. startUsers (sampleBoot (fullEnv(''SMTP_USER'' := None))) None = (Err e, Some [])"
  by (rule conjunct1 [OF interrupted_first_start [of refBolt "sampleBoot (fullEnv(''SMTP_USER'' := None))", simplified]])
    (simp_all add: bolt_live_ref users_emptyState)

end
