(* ===== verification/CacheSteps.thy ===== *)
theory CacheSteps
  imports CacheProps
begin

text \<open>
  The operations of the cache cut into the steps at which goroutines interleave. A bolt transaction,
  an atomic addition, a reading of a counter and an operation on page files are one step each (the
  transaction of a clearing with the additions and the looks at the disk made in it); what
  a goroutine has still to do is a stack of such steps. Undisturbed, a stack comes to what the
  operation of \<open>CacheStore\<close> or \<open>Cleaner\<close> computes in one go; interleaved, the counters lag behind
  the database by what the goroutines still owe.
\<close>

section \<open>The transactions\<close>

definition insertTx :: "'db cacheEnv \<Rightarrow> bytes \<Rightarrow> bytes \<Rightarrow> 'db \<Rightarrow> unit txRes \<times> 'db" where
  "insertTx E key value =
     boltUpdate (ceBolt E) ()
       (\<lambda>db.
          let (err, db) = txCreate (ceBolt E) db key in
          if (case err of None \<Rightarrow> True | Some e \<Rightarrow> errors_is e ErrBucketExists) then
            let (_, db) = txPut (ceBolt E) db key pageMetadataKey value;
                (_, db) = txPut (ceBolt E) db key usesKey (replicate 4 (CHR 0x00))
            in (case err of None \<Rightarrow> TxDone () | Some e \<Rightarrow> TxErr e (), db)
          else (TxErr (the err) (), db))"

definition viewTx :: "'db cacheEnv \<Rightarrow> bytes \<Rightarrow> 'db \<Rightarrow> bytes txRes" where
  "viewTx E key =
     boltView (ceBolt E) []
       (\<lambda>db.
          if \<not> txBucket (ceBolt E) db key then TxErr (ErrMsg ''missed cache'') []
          else (case txGet (ceBolt E) db key pageMetadataKey of
                  None \<Rightarrow> TxErr (ErrMsg ''no record in cache'') []
                | Some v \<Rightarrow> TxDone v))"

definition countTx :: "'db cacheEnv \<Rightarrow> bytes \<Rightarrow> 'db \<Rightarrow> unit txRes \<times> 'db" where
  "countTx E key =
     boltUpdate (ceBolt E) ()
       (\<lambda>db.
          if \<not> txBucket (ceBolt E) db key then (TxPanic ''nil pointer dereference'', db)
          else (case txGet (ceBolt E) db key usesKey of
                  None \<Rightarrow> (TxErr (ErrMsg ''value ot found'') (), db)
                | Some bs \<Rightarrow>
                    (case getUint32 bs of
                       None \<Rightarrow> (TxPanic ''index out of range'', db)
                     | Some u \<Rightarrow> (TxDone (), snd (txPut (ceBolt E) db key usesKey (putUint32 (u + 1)))))))"

definition removeTx :: "'db cacheEnv \<Rightarrow> bytes \<Rightarrow> 'db \<Rightarrow> bytes option txRes \<times> 'db" where
  "removeTx E key =
     boltUpdate (ceBolt E) None
       (\<lambda>db.
          if \<not> txBucket (ceBolt E) db key then (TxErr (ErrMsg ''there's no page to delete'') None, db)
          else let m = txGet (ceBolt E) db key pageMetadataKey;
                   (err, db) = txDelete (ceBolt E) db key
               in (case err of None \<Rightarrow> TxDone m | Some e \<Rightarrow> TxErr e m, db))"

definition expiredTx :: "'db cacheEnv \<Rightarrow> (nat \<Rightarrow> time) \<Rightarrow> 'db \<Rightarrow> (bytes \<times> int64) list txRes" where
  "expiredTx E clk =
     boltView (ceBolt E) []
       (\<lambda>db. forEach (\<lambda>(i, name). addExpiredKeys E (clk i) db name) (enumerate 0 (txNames (ceBolt E) db)) [])"

definition lruTx :: "'db cacheEnv \<Rightarrow> 'db \<Rightarrow> (bytes \<times> uint32) list txRes" where
  "lruTx E =
     boltView (ceBolt E) [] (\<lambda>db. forEach (addLruItem E db) (txNames (ceBolt E) db) [])"

section \<open>Steps\<close>

text \<open>\<open>atomic.AddInt64(&p.Size, d)\<close>, then \<open>UpdateCacheSize(p.Size)\<close>, which reads \<open>Size\<close> again and sets the
  gauge to what it read; \<open>IRemoveMeta\<close> is told whether the page file goes too.\<close>

datatype instr =
    IInsert "nat \<Rightarrow> nat \<Rightarrow> time" bytes request response Page
  | ISaveMeta bytes PageMetadata Page
  | IWrite bytes Page
  | IAddSize int64
  | IReadSize
  | ISetGauge int64
  | IAddPages int
  | IGet "nat \<Rightarrow> time" time time bytes request
  | ICount time time requestDirectives bytes bytes
  | IRead bytes
  | IRemoveMeta bytes bool
  | IRemoveFile bytes
  | ITick "nat \<Rightarrow> time"
  | IExpire "nat \<Rightarrow> time"
  | ILru
  | IEvict "(bytes \<times> uint32) list"
  | IClear "bytes list"
  | IClearPages

text \<open>A goroutine: what it has to do, and what its operation returns (a lookup a page).\<close>

type_synonym task = "instr list \<times> Page option res"

definition counters :: "int64 \<Rightarrow> int \<Rightarrow> instr list" where
  "counters d k = [IAddSize d, IReadSize, IAddPages k]"

definition beginInsert ::
  "(nat \<Rightarrow> nat \<Rightarrow> time) \<Rightarrow> bytes \<Rightarrow> request \<Rightarrow> response \<Rightarrow> Page \<Rightarrow> instr list \<Rightarrow> Page option res \<Rightarrow>
   'db CachingProperties \<Rightarrow> task \<times> 'db CachingProperties" where
  "beginInsert clk key req resp page rest out p =
     (if sint (maxFileSize (cpCleaner p)) < sint (Size p + of_nat (length (pageBody page))) then
        ((rest, Err (ErrMsg ''maximum size cache exceeded'')), p)
      else
        let requestD = loadRequestDirectives (clk 0) (reqHeader req);
            responseD = loadResponseDirectives (clk 1) (respHeader resp) in
        if rqNoStore requestD \<or> rsNoStore responseD \<or> reqMethod req \<noteq> ''GET'' \<or> rsPrivate responseD then
          ((rest, Err (ErrMsg ''can't be stored in cache'')), p)
        else ((ISaveMeta key (createCacheInfo (clk 2) resp (of_nat (length (pageBody page)))) page # rest, out), p))"

definition saveMetaStep ::
  "'db cacheEnv \<Rightarrow> bytes \<Rightarrow> PageMetadata \<Rightarrow> Page \<Rightarrow> instr list \<Rightarrow> Page option res \<Rightarrow>
   'db CachingProperties \<Rightarrow> task \<times> 'db CachingProperties" where
  "saveMetaStep E key meta page rest out p =
     (case marshalMeta (ceCodec E) meta of
        Inl e \<Rightarrow> ((rest, Err e), p)
      | Inr value \<Rightarrow>
          (case insertTx E key value (cpDb p) of
             (TxDone (), db) \<Rightarrow> ((counters (pmSize meta) 1 @ IWrite key page # rest, out), p\<lparr>cpDb := db\<rparr>)
           | (TxErr e (), db) \<Rightarrow>
               (if errors_is e ErrBucketExists then (IWrite key page # rest, out) else (rest, Err e), p\<lparr>cpDb := db\<rparr>)
           | (TxPanic m, db) \<Rightarrow> (([], Panic m), p\<lparr>cpDb := db\<rparr>)))"

definition writeStep ::
  "'db cacheEnv \<Rightarrow> bytes \<Rightarrow> Page \<Rightarrow> instr list \<Rightarrow> Page option res \<Rightarrow>
   'db CachingProperties \<Rightarrow> task \<times> 'db CachingProperties" where
  "writeStep E key page rest out p =
     (case writePageToDisk (ceCodec E) (ceOs E) key page (cpFs p) of
        (None, fs) \<Rightarrow> ((rest, out), p\<lparr>cpFs := fs\<rparr>)
      | (Some e, fs) \<Rightarrow> ((IRemoveMeta key False # rest, Err e), p\<lparr>cpFs := fs\<rparr>))"

definition viewStep ::
  "'db cacheEnv \<Rightarrow> (nat \<Rightarrow> time) \<Rightarrow> time \<Rightarrow> time \<Rightarrow> bytes \<Rightarrow> request \<Rightarrow> instr list \<Rightarrow> Page option res \<Rightarrow>
   'db CachingProperties \<Rightarrow> task \<times> 'db CachingProperties" where
  "viewStep E clk t1 t2 key req rest out p =
     (case viewTx E key (cpDb p) of
        TxDone result \<Rightarrow> ((ICount t1 t2 (loadRequestDirectives clk (reqHeader req)) key result # rest, out), p)
      | TxErr e _ \<Rightarrow> ((rest, Err e), p)
      | TxPanic m \<Rightarrow> (([], Panic m), p))"

definition countStep ::
  "'db cacheEnv \<Rightarrow> time \<Rightarrow> time \<Rightarrow> requestDirectives \<Rightarrow> bytes \<Rightarrow> bytes \<Rightarrow> instr list \<Rightarrow> Page option res \<Rightarrow>
   'db CachingProperties \<Rightarrow> task \<times> 'db CachingProperties" where
  "countStep E t1 t2 rq key result rest out p =
     (case countTx E key (cpDb p) of
        (TxPanic m, db) \<Rightarrow> (([], Panic m), p\<lparr>cpDb := db\<rparr>)
      | (_, db) \<Rightarrow>
          (case unmarshalMeta (ceCodec E) result of
             Inl e \<Rightarrow> (rest, Err e)
           | Inr m \<Rightarrow>
               (if isFresh t1 t2 rq (case m of None \<Rightarrow> zeroMetadata | Some info \<Rightarrow> info) then (IRead key # rest, out)
                else (rest, Err (ErrMsg ''not fresh''))), p\<lparr>cpDb := db\<rparr>))"

definition readStep ::
  "'db cacheEnv \<Rightarrow> bytes \<Rightarrow> instr list \<Rightarrow> Page option res \<Rightarrow>
   'db CachingProperties \<Rightarrow> task \<times> 'db CachingProperties" where
  "readStep E key rest out p =
     (case readPageFromDisk (ceCodec E) (ceOs E) key (cpFs p) of
        Inr page \<Rightarrow> ((rest, Ok (Some page)), p)
      | Inl e \<Rightarrow> ((if errors_is e ErrNotExist then IRemoveMeta key False # rest else rest, Err e), p))"

definition removeMetaStep ::
  "'db cacheEnv \<Rightarrow> bytes \<Rightarrow> bool \<Rightarrow> instr list \<Rightarrow> Page option res \<Rightarrow>
   'db CachingProperties \<Rightarrow> task \<times> 'db CachingProperties" where
  "removeMetaStep E key andFile rest out p =
     (case removeTx E key (cpDb p) of
        (TxErr e _, db) \<Rightarrow> ((rest, out), p\<lparr>cpDb := db\<rparr>)
      | (TxPanic m, db) \<Rightarrow> (([], Panic m), p\<lparr>cpDb := db\<rparr>)
      | (TxDone v, db) \<Rightarrow>
          (case unmarshalMeta (ceCodec E) (case v of None \<Rightarrow> [] | Some b \<Rightarrow> b) of
             Inl e \<Rightarrow> ((rest, out), p\<lparr>cpDb := db\<rparr>)
           | Inr None \<Rightarrow> (([], Panic ''nil pointer dereference''), p\<lparr>cpDb := db\<rparr>)
           | Inr (Some meta) \<Rightarrow>
               ((counters (- pmSize meta) (- 1) @ (if andFile then [IRemoveFile key] else []) @ rest, out),
                p\<lparr>cpDb := db\<rparr>)))"

definition removeFileStep ::
  "'db cacheEnv \<Rightarrow> bytes \<Rightarrow> instr list \<Rightarrow> Page option res \<Rightarrow>
   'db CachingProperties \<Rightarrow> task \<times> 'db CachingProperties" where
  "removeFileStep E key rest out p =
     (case removePageFromDisk (ceOs E) key (cpFs p) of
        (Panic m, fs) \<Rightarrow> (([], Panic m), p\<lparr>cpFs := fs\<rparr>)
      | (_, fs) \<Rightarrow> ((rest, out), p\<lparr>cpFs := fs\<rparr>))"

definition tickStep ::
  "(nat \<Rightarrow> time) \<Rightarrow> instr list \<Rightarrow> Page option res \<Rightarrow>
   'db CachingProperties \<Rightarrow> task \<times> 'db CachingProperties" where
  "tickStep clk rest out p =
     ((if isSizeExceeded p then IExpire clk # ILru # rest else rest, out), p)"

definition expireStep ::
  "'db cacheEnv \<Rightarrow> (nat \<Rightarrow> time) \<Rightarrow> instr list \<Rightarrow> Page option res \<Rightarrow>
   'db CachingProperties \<Rightarrow> task \<times> 'db CachingProperties" where
  "expireStep E clk rest out p =
     (case expiredTx E clk (cpDb p) of
        TxDone items \<Rightarrow> ((map (\<lambda>(key, _). IRemoveMeta key True) items @ rest, out), p)
      | TxErr e _ \<Rightarrow> ((rest, out), p)
      | TxPanic m \<Rightarrow> (([], Panic m), p))"

definition lruStep ::
  "'db cacheEnv \<Rightarrow> instr list \<Rightarrow> Page option res \<Rightarrow>
   'db CachingProperties \<Rightarrow> task \<times> 'db CachingProperties" where
  "lruStep E rest out p =
     (case lruTx E (cpDb p) of
        TxDone items \<Rightarrow> ((IEvict (ceSort E items) # rest, out), p)
      | TxErr e _ \<Rightarrow> ((rest, out), p)
      | TxPanic m \<Rightarrow> (([], Panic m), p))"

definition evictStep ::
  "(bytes \<times> uint32) list \<Rightarrow> instr list \<Rightarrow> Page option res \<Rightarrow>
   'db CachingProperties \<Rightarrow> task \<times> 'db CachingProperties" where
  "evictStep items rest out p =
     (case items of
        [] \<Rightarrow> ((rest, out), p)
      | (key, _) # items \<Rightarrow>
          if \<not> isSizeExceeded p then ((rest, out), p) else ((IRemoveMeta key True # IEvict items # rest, out), p))"

definition clearStep ::
  "'db cacheEnv \<Rightarrow> bytes list \<Rightarrow> instr list \<Rightarrow> Page option res \<Rightarrow>
   'db CachingProperties \<Rightarrow> task \<times> 'db CachingProperties" where
  "clearStep E visit rest out p =
     (case clearTx E visit p of
        (TxDone p, db) \<Rightarrow> ((IReadSize # IClearPages # rest, out), p\<lparr>cpDb := db\<rparr>)
      | (TxErr e p, db) \<Rightarrow> ((IReadSize # rest, Err e), p\<lparr>cpDb := db\<rparr>)
      | (TxPanic m, db) \<Rightarrow> (([], Panic m), (visited E visit (cpDb p, p))\<lparr>cpDb := db\<rparr>))"

definition clearPagesStep ::
  "'db cacheEnv \<Rightarrow> instr list \<Rightarrow> Page option res \<Rightarrow>
   'db CachingProperties \<Rightarrow> task \<times> 'db CachingProperties" where
  "clearPagesStep E rest out p =
     (case clearPages (ceOs E) (cpFs p) of
        (None, fs) \<Rightarrow> ((rest, out), p\<lparr>cpFs := fs\<rparr>)
      | (Some e, fs) \<Rightarrow> ((rest, Err e), p\<lparr>cpFs := fs\<rparr>))"

fun exec ::
  "'db cacheEnv \<Rightarrow> instr \<Rightarrow> instr list \<Rightarrow> Page option res \<Rightarrow> 'db CachingProperties \<Rightarrow>
   task \<times> 'db CachingProperties" where
  "exec E (IInsert clk key req resp page) rest out p = beginInsert clk key req resp page rest out p"
| "exec E (ISaveMeta key meta page) rest out p = saveMetaStep E key meta page rest out p"
| "exec E (IWrite key page) rest out p = writeStep E key page rest out p"
| "exec E (IAddSize d) rest out p = ((rest, out), p\<lparr>Size := Size p + d\<rparr>)"
| "exec E IReadSize rest out p = ((ISetGauge (Size p) # rest, out), p)"
| "exec E (ISetGauge v) rest out p = ((rest, out), p\<lparr>gaugeSize := toFloat (sint v)\<rparr>)"
| "exec E (IAddPages k) rest out p = ((rest, out), UpdateCachePagesCount k p)"
| "exec E (IGet clk t1 t2 key req) rest out p = viewStep E clk t1 t2 key req rest out p"
| "exec E (ICount t1 t2 rq key result) rest out p = countStep E t1 t2 rq key result rest out p"
| "exec E (IRead key) rest out p = readStep E key rest out p"
| "exec E (IRemoveMeta key andFile) rest out p = removeMetaStep E key andFile rest out p"
| "exec E (IRemoveFile key) rest out p = removeFileStep E key rest out p"
| "exec E (ITick clk) rest out p = tickStep clk rest out p"
| "exec E (IExpire clk) rest out p = expireStep E clk rest out p"
| "exec E ILru rest out p = lruStep E rest out p"
| "exec E (IEvict items) rest out p = evictStep items rest out p"
| "exec E (IClear visit) rest out p = clearStep E visit rest out p"
| "exec E IClearPages rest out p = clearPagesStep E rest out p"

lemmas step_defs = beginInsert_def saveMetaStep_def writeStep_def viewStep_def countStep_def readStep_def
  removeMetaStep_def removeFileStep_def tickStep_def expireStep_def lruStep_def evictStep_def
  clearStep_def clearPagesStep_def

lemmas exec_eqs = exec.simps [unfolded step_defs]

fun launch :: "cacheEvent \<Rightarrow> task" where
  "launch (EvInsert clk key req resp page) = ([IInsert clk key req resp page], Ok None)"
| "launch (EvGet clk t1 t2 key req) = ([IGet clk t1 t2 key req], Ok None)"
| "launch (EvRemove key) = ([IRemoveMeta key True], Ok None)"
| "launch (EvTick clk) = ([ITick clk], Ok None)"
| "launch (EvClear visit) = ([IClear visit], Ok None)"

declare exec.simps [simp del]

section \<open>Undisturbed, the steps are the operations\<close>

inductive alone :: "'db cacheEnv \<Rightarrow> task \<times> 'db CachingProperties \<Rightarrow> task \<times> 'db CachingProperties \<Rightarrow> bool" for E where
  alone: "exec E i rest out p = (t, p') \<Longrightarrow> alone E ((i # rest, out), p) (t, p')"

lemma alone_first: "exec E i rest out p = (t, p') \<Longrightarrow> (alone E)\<^sup>*\<^sup>* (t, p') s \<Longrightarrow> (alone E)\<^sup>*\<^sup>* ((i # rest, out), p) s"
  by (meson alone.intros converse_rtranclp_into_rtranclp)

lemma alone_one: "exec E i rest out p = s \<Longrightarrow> (alone E)\<^sup>*\<^sup>* ((i # rest, out), p) s"
  by (cases s) (auto intro: alone_first)

lemma insertMeta_tx:
  "insertPageMetadataToDB E key meta p =
     (case marshalMeta (ceCodec E) meta of
        Inl e \<Rightarrow> (Err e, p)
      | Inr value \<Rightarrow>
          (case insertTx E key value (cpDb p) of
             (TxDone (), db) \<Rightarrow> (Ok (), UpdateCachePagesCount 1 (IncrementSize (pmSize meta) (p\<lparr>cpDb := db\<rparr>)))
           | (TxErr e (), db) \<Rightarrow> ((if errors_is e ErrBucketExists then Ok () else Err e), p\<lparr>cpDb := db\<rparr>)
           | (TxPanic m, db) \<Rightarrow> (Panic m, p\<lparr>cpDb := db\<rparr>)))"
  unfolding insertPageMetadataToDB_def insertTx_def Let_def ..

lemma getMeta_tx:
  "getPageMetadata E key p =
     (case viewTx E key (cpDb p) of
        TxErr e _ \<Rightarrow> (Err e, p)
      | TxPanic m \<Rightarrow> (Panic m, p)
      | TxDone result \<Rightarrow>
          (case countTx E key (cpDb p) of
             (TxPanic m, db) \<Rightarrow> (Panic m, p\<lparr>cpDb := db\<rparr>)
           | (_, db) \<Rightarrow>
               ((case unmarshalMeta (ceCodec E) result of
                   Inl e \<Rightarrow> Err e
                 | Inr None \<Rightarrow> Ok zeroMetadata
                 | Inr (Some m) \<Rightarrow> Ok m), p\<lparr>cpDb := db\<rparr>)))"
  unfolding getPageMetadata_def viewTx_def countTx_def Let_def ..

lemma removeMeta_tx:
  "removePageMetadata E key p =
     (case removeTx E key (cpDb p) of
        (TxErr e _, db) \<Rightarrow> (Err e, p\<lparr>cpDb := db\<rparr>)
      | (TxPanic msg, db) \<Rightarrow> (Panic msg, p\<lparr>cpDb := db\<rparr>)
      | (TxDone m, db) \<Rightarrow>
          (let p = p\<lparr>cpDb := db\<rparr> in
           case unmarshalMeta (ceCodec E) (case m of None \<Rightarrow> [] | Some v \<Rightarrow> v) of
             Inl e \<Rightarrow> (Err e, p)
           | Inr None \<Rightarrow> (Panic ''nil pointer dereference'', p)
           | Inr (Some meta) \<Rightarrow> (Ok meta, UpdateCachePagesCount (- 1) (IncrementSize (- pmSize meta) p))))"
  unfolding removePageMetadata_def removeTx_def Let_def ..

lemma alone_counters:
  "(alone E)\<^sup>*\<^sup>* ((counters d k @ rest, out), p) ((rest, out), UpdateCachePagesCount k (IncrementSize d p))"
  unfolding counters_def append_Cons append_Nil
  by (rule alone_first, rule exec.simps, rule alone_first, rule exec.simps, rule alone_first, rule exec.simps,
      rule alone_one) (simp add: exec_eqs IncrementSize_def Let_def)

text \<open>How a stack ends up when its first operation has: go on, or stop at a panic.\<close>

fun goOn :: "'a res \<Rightarrow> instr list \<Rightarrow> Page option res \<Rightarrow> task" where
  "goOn (Panic m) rest out = ([], Panic m)"
| "goOn _ rest out = (rest, out)"

lemma alone_removeMeta:
  assumes "removePageMetadata E key p = (r, p')"
  shows "(alone E)\<^sup>*\<^sup>* ((IRemoveMeta key andFile # rest, out), p)
    (goOn r ((if andFile \<and> is_ok r then [IRemoveFile key] else []) @ rest) out, p')"
proof (cases "\<exists>meta. r = Ok meta")
  case True
  then obtain meta where r: "r = Ok meta" by blast
  with assms obtain db where
    "exec E (IRemoveMeta key andFile) rest out p =
       ((counters (- pmSize meta) (- 1) @ (if andFile then [IRemoveFile key] else []) @ rest, out), p\<lparr>cpDb := db\<rparr>)"
    "p' = UpdateCachePagesCount (- 1) (IncrementSize (- pmSize meta) (p\<lparr>cpDb := db\<rparr>))"
    by (auto simp: exec_eqs removeMeta_tx Let_def split: prod.splits txRes.splits sum.splits option.splits)
  with alone_counters [of E "- pmSize meta" "- 1" "(if andFile then [IRemoveFile key] else []) @ rest" out "p\<lparr>cpDb := db\<rparr>"] r
  show ?thesis by (auto intro: alone_first)
next
  case False
  with assms have "exec E (IRemoveMeta key andFile) rest out p = (goOn r rest out, p')"
    by (cases r) (auto simp: exec_eqs removeMeta_tx Let_def split: prod.splits txRes.splits sum.splits option.splits)
  moreover have "\<not> is_ok r" using False by (cases r) auto
  ultimately show ?thesis by (simp add: alone_one)
qed

lemma alone_remove:
  assumes "RemovePageFromCache E key p = (r, p')"
  shows "(alone E)\<^sup>*\<^sup>* ((IRemoveMeta key True # rest, out), p) (goOn r rest out, p')"
proof -
  obtain r1 p1 where 1: "removePageMetadata E key p = (r1, p1)" by (rule prod.exhaust)
  note steps = alone_removeMeta [OF 1, of True rest out]
  show ?thesis
  proof (cases r1)
    case (Ok meta)
    then have "exec E (IRemoveFile key) rest out p1 = (goOn r rest out, p')"
      using assms 1 by (auto simp: exec_eqs RemovePageFromCache_def split: prod.splits res.splits)
    with steps Ok show ?thesis by (auto intro: rtranclp_trans alone_one)
  qed (use assms 1 steps in \<open>auto simp: RemovePageFromCache_def\<close>)
qed

lemma alone_removeAll:
  "removeExpired E items sz p = (r, p') \<Longrightarrow>
     (alone E)\<^sup>*\<^sup>* ((map (\<lambda>(key, _). IRemoveMeta key True) items @ rest, out), p) (goOn r rest out, p')"
proof (induction items arbitrary: sz p)
  case Nil
  then show ?case by auto
next
  case (Cons it items)
  obtain key n where it: "it = (key, n)" by (rule prod.exhaust)
  obtain r1 p1 where 1: "RemovePageFromCache E key p = (r1, p1)" by (rule prod.exhaust)
  from alone_remove [OF this, of "map (\<lambda>(key, _). IRemoveMeta key True) items @ rest" out] Cons it 1
  show ?case by (cases r1) (auto intro: rtranclp_trans)
qed

lemma alone_evict:
  "removeWhileExceeded E items sz p = (r, p') \<Longrightarrow>
     (alone E)\<^sup>*\<^sup>* ((IEvict items # rest, out), p) (goOn r rest out, p')"
proof (induction items arbitrary: sz p)
  case Nil
  then show ?case by (auto simp: exec_eqs intro: alone_one)
next
  case (Cons it items)
  obtain key n where it: "it = (key, n)" by (rule prod.exhaust)
  show ?case
  proof (cases "isSizeExceeded p")
    case False
    with Cons.prems it show ?thesis by (auto simp: exec_eqs intro: alone_one)
  next
    case True
    obtain r1 p1 where 1: "RemovePageFromCache E key p = (r1, p1)" by (rule prod.exhaust)
    have "(alone E)\<^sup>*\<^sup>* ((IEvict (it # items) # rest, out), p) (goOn r1 (IEvict items # rest) out, p1)"
      using True it by (intro alone_first [OF _ alone_remove [OF 1]]) (simp add: exec_eqs)
    with Cons it 1 True show ?thesis by (cases r1) (auto intro: rtranclp_trans)
  qed
qed

fun resMap :: "('a \<Rightarrow> 'b) \<Rightarrow> 'a res \<Rightarrow> 'b res" where
  "resMap f (Ok a) = Ok (f a)"
| "resMap f (Err e) = Err e"
| "resMap f (Panic m) = Panic m"

text \<open>What an operation returns; the results of the cleaner's go to the log only.\<close>

fun outcome :: "'db cacheEnv \<Rightarrow> cacheEvent \<Rightarrow> 'db CachingProperties \<Rightarrow> Page option res" where
  "outcome E (EvInsert clk key req resp page) p = resMap (\<lambda>_. None) (fst (InsertPageInCache E clk key req resp page p))"
| "outcome E (EvGet clk t1 t2 key req) p = resMap Some (fst (GetPageFromCache E clk t1 t2 key req p))"
| "outcome E (EvRemove key) p = snd (goOn (fst (RemovePageFromCache E key p)) [] (Ok None))"
| "outcome E (EvTick clk) p = snd (goOn (fst (observeTick E clk p)) [] (Ok None))"
| "outcome E (EvClear visit) p = resMap (\<lambda>_. None) (fst (ClearCache E visit p))"

lemma goOn_Nil: "goOn r [] out = ([], snd (goOn r [] out))"
  by (cases r) simp_all

text \<open>Writing the page file, and taking the metadata back when that fails.\<close>

lemma alone_write:
  assumes "(case writePageToDisk (ceCodec E) (ceOs E) key page (cpFs q) of
       (None, fs) \<Rightarrow> (Ok (), q\<lparr>cpFs := fs\<rparr>)
     | (Some e, fs) \<Rightarrow>
         (case removePageMetadata E key (q\<lparr>cpFs := fs\<rparr>) of
            (Panic m, p) \<Rightarrow> (Panic m, p)
          | (_, p) \<Rightarrow> (Err e, p))) = (r, q')"
  shows "(alone E)\<^sup>*\<^sup>* (([IWrite key page], Ok None), q) (([], resMap (\<lambda>_. None) r), q')"
proof (cases "writePageToDisk (ceCodec E) (ceOs E) key page (cpFs q)")
  case (Pair err fs)
  show ?thesis
  proof (cases err)
    case None
    with Pair assms show ?thesis by (auto simp: exec_eqs intro: alone_one)
  next
    case (Some e)
    obtain r1 q1 where 1: "removePageMetadata E key (q\<lparr>cpFs := fs\<rparr>) = (r1, q1)" by (rule prod.exhaust)
    with Pair Some assms have "goOn r1 [] (Err e) = ([], resMap (\<lambda>_. None) r)" "q' = q1"
      by (cases r1; auto)+
    moreover have "(alone E)\<^sup>*\<^sup>* ((IRemoveMeta key False # [], Err e), q\<lparr>cpFs := fs\<rparr>) (goOn r1 [] (Err e), q1)"
      using alone_removeMeta [of E key "q\<lparr>cpFs := fs\<rparr>" r1 _ False "[]" "Err e"] 1 by simp
    ultimately show ?thesis using 1 Pair Some by (auto simp: exec_eqs intro: alone_first)
  qed
qed

lemma alone_insert:
  "(alone E)\<^sup>*\<^sup>* (launch (EvInsert clk key req resp page), p)
     (([], outcome E (EvInsert clk key req resp page) p), cacheStep E (EvInsert clk key req resp page) p)"
proof -
  let ?i = "IInsert clk key req resp page"
  let ?meta = "createCacheInfo (clk 2) resp (of_nat (length (pageBody page)))"
  show ?thesis
  proof (cases "sint (maxFileSize (cpCleaner p)) < sint (Size p + of_nat (length (pageBody page))) \<or>
      rqNoStore (loadRequestDirectives (clk 0) (reqHeader req)) \<or> rsNoStore (loadResponseDirectives (clk 1) (respHeader resp)) \<or>
      reqMethod req \<noteq> ''GET'' \<or> rsPrivate (loadResponseDirectives (clk 1) (respHeader resp))")
    case True
    then have "exec E ?i [] (Ok None) p =
        (([], outcome E (EvInsert clk key req resp page) p), cacheStep E (EvInsert clk key req resp page) p)"
      by (auto simp: exec_eqs InsertPageInCache_def Let_def)
    then show ?thesis by (simp add: alone_one)
  next
    case False
    then have start: "exec E ?i [] (Ok None) p = (([ISaveMeta key ?meta page], Ok None), p)"
      by (simp add: exec_eqs Let_def)
    obtain r1 p1 where 1: "insertPageMetadataToDB E key ?meta p = (r1, p1)" by (rule prod.exhaust)
    obtain r p' where all: "InsertPageInCache E clk key req resp page p = (r, p')" by (rule prod.exhaust)
    have "(alone E)\<^sup>*\<^sup>* (([ISaveMeta key ?meta page], Ok None), p) (([], resMap (\<lambda>_. None) r), p')"
    proof (cases r1)
      case (Ok u)
      have "(case writePageToDisk (ceCodec E) (ceOs E) key page (cpFs p1) of
           (None, fs) \<Rightarrow> (Ok (), p1\<lparr>cpFs := fs\<rparr>)
         | (Some e, fs) \<Rightarrow>
             (case removePageMetadata E key (p1\<lparr>cpFs := fs\<rparr>) of
                (Panic m, p) \<Rightarrow> (Panic m, p)
              | (_, p) \<Rightarrow> (Err e, p))) = (r, p')"
        using all False 1 Ok by (auto simp: InsertPageInCache_def Let_def split: if_splits)
      note stored = alone_write [OF this]
      consider db where "exec E (ISaveMeta key ?meta page) [] (Ok None) p =
          ((counters (pmSize ?meta) 1 @ [IWrite key page], Ok None), p\<lparr>cpDb := db\<rparr>)"
          "p1 = UpdateCachePagesCount 1 (IncrementSize (pmSize ?meta) (p\<lparr>cpDb := db\<rparr>))"
        | "exec E (ISaveMeta key ?meta page) [] (Ok None) p = (([IWrite key page], Ok None), p1)"
        using 1 Ok by (auto simp: exec_eqs insertMeta_tx split: sum.splits prod.splits txRes.splits unit.splits if_splits)
      then show ?thesis
      proof cases
        case 1
        from alone_counters [of E "pmSize ?meta" 1 "[IWrite key page]" "Ok None" "p\<lparr>cpDb := db\<rparr>"] 1 stored
        show ?thesis by (auto intro: alone_first rtranclp_trans)
      qed (auto intro: alone_first stored)
    qed (use all False 1 in \<open>auto simp: exec_eqs InsertPageInCache_def insertMeta_tx Let_def intro!: alone_one
           split: sum.splits prod.splits txRes.splits unit.splits if_splits\<close>)
    with start all show ?thesis by (auto intro: alone_first)
  qed
qed

lemma alone_read:
  assumes "(case readPageFromDisk (ceCodec E) (ceOs E) key (cpFs q) of
      Inr page \<Rightarrow> (Ok page, req, q)
    | Inl e \<Rightarrow>
        if errors_is e ErrNotExist then
          (case removePageMetadata E key q of
             (Panic m, p) \<Rightarrow> (Panic m, req, p)
           | (_, p) \<Rightarrow> (Err e, req, p))
        else (Err e, req, q)) = (r, req', q')"
  shows "(alone E)\<^sup>*\<^sup>* (([IRead key], Ok None), q) (([], resMap Some r), q')"
proof (cases "\<exists>e. readPageFromDisk (ceCodec E) (ceOs E) key (cpFs q) = Inl e \<and> errors_is e ErrNotExist")
  case False
  with assms have "exec E (IRead key) [] (Ok None) q = (([], resMap Some r), q')"
    by (auto simp: exec_eqs split: sum.splits if_splits)
  then show ?thesis by (rule alone_one)
next
  case True
  then obtain e where e: "readPageFromDisk (ceCodec E) (ceOs E) key (cpFs q) = Inl e" "errors_is e ErrNotExist" by blast
  obtain r1 q1 where 1: "removePageMetadata E key q = (r1, q1)" by (rule prod.exhaust)
  with e assms have "goOn r1 [] (Err e) = ([], resMap Some r)" "q' = q1" by (cases r1; auto)+
  with alone_removeMeta [OF 1, of False "[]" "Err e"] e show ?thesis
    by (auto simp: exec_eqs intro: alone_first)
qed

lemma alone_get:
  "(alone E)\<^sup>*\<^sup>* (launch (EvGet clk t1 t2 key req), p)
     (([], outcome E (EvGet clk t1 t2 key req) p), cacheStep E (EvGet clk t1 t2 key req) p)"
proof -
  let ?rq = "loadRequestDirectives clk (reqHeader req)"
  obtain r req' p' where all: "GetPageFromCache E clk t1 t2 key req p = (r, req', p')" by (metis prod.exhaust)
  have "(alone E)\<^sup>*\<^sup>* (([IGet clk t1 t2 key req], Ok None), p) (([], resMap Some r), p')"
  proof (cases "viewTx E key (cpDb p)")
    case (TxDone v)
    obtain c db where count: "countTx E key (cpDb p) = (c, db)" by (rule prod.exhaust)
    have go: "exec E (IGet clk t1 t2 key req) [] (Ok None) p = (([ICount t1 t2 ?rq key v], Ok None), p)"
      using TxDone by (simp add: exec_eqs)
    have "(alone E)\<^sup>*\<^sup>* (([ICount t1 t2 ?rq key v], Ok None), p) (([], resMap Some r), p')"
    proof (cases "exec E (ICount t1 t2 ?rq key v) [] (Ok None) p = (([IRead key], Ok None), p\<lparr>cpDb := db\<rparr>)")
      case True
      then obtain info where info: "getPageMetadata E key p = (Ok info, p\<lparr>cpDb := db\<rparr>)" "isFresh t1 t2 ?rq info"
        using TxDone count by (auto simp: exec_eqs getMeta_tx split: txRes.splits sum.splits option.splits if_splits)
      from all have "(case readPageFromDisk (ceCodec E) (ceOs E) key (cpFs (p\<lparr>cpDb := db\<rparr>)) of
          Inr page \<Rightarrow> (Ok page, req', p\<lparr>cpDb := db\<rparr>)
        | Inl e \<Rightarrow>
            if errors_is e ErrNotExist then
              (case removePageMetadata E key (p\<lparr>cpDb := db\<rparr>) of
                 (Panic m, p) \<Rightarrow> (Panic m, req', p)
               | (_, p) \<Rightarrow> (Err e, req', p))
            else (Err e, req', p\<lparr>cpDb := db\<rparr>)) = (r, req', p')"
        using info by (auto simp: GetPageFromCache_def Let_def split: sum.splits if_splits prod.splits res.splits)
      from alone_read [OF this] True show ?thesis by (auto intro: alone_first)
    next
      case False
      then have "exec E (ICount t1 t2 ?rq key v) [] (Ok None) p = (([], resMap Some r), p')"
        using TxDone count all
        by (auto simp: exec_eqs getMeta_tx GetPageFromCache_def Let_def split: txRes.splits sum.splits option.splits if_splits)
      then show ?thesis by (rule alone_one)
    qed
    with go show ?thesis by (rule alone_first)
  qed (use all in \<open>auto simp: exec_eqs getMeta_tx GetPageFromCache_def Let_def intro!: alone_one\<close>)
  with all show ?thesis by simp
qed

lemma alone_tick:
  "(alone E)\<^sup>*\<^sup>* (launch (EvTick clk), p) (([], outcome E (EvTick clk) p), cacheStep E (EvTick clk) p)"
proof (cases "isSizeExceeded p")
  case False
  then show ?thesis by (auto simp: exec_eqs observeTick_def intro!: alone_one)
next
  case True
  obtain r1 p1 where 1: "deleteExpiredCache E clk p = (r1, p1)" by (rule prod.exhaust)
  obtain r2 p2 where 2: "deletePagesLRU E p1 = (r2, p2)" by (rule prod.exhaust)
  have goOn_size: "goOn (fst (nullSizeOr rp)) c out = goOn (fst rp) c out" "snd (nullSizeOr rp) = snd rp"
    for rp :: "int64 res \<times> 'a CachingProperties" and c out
    by (auto simp: nullSizeOr_def split: prod.split res.split)
  have expire: "(alone E)\<^sup>*\<^sup>* (([IExpire clk, ILru], Ok None), p) (goOn r1 [ILru] (Ok None), p1)"
  proof (cases "expiredTx E clk (cpDb p)")
    case (TxDone items)
    obtain r p' where rm: "removeExpired E items 0 p = (r, p')" by (rule prod.exhaust)
    with 1 TxDone goOn_size [of "(r, p')"] have "goOn r1 [ILru] (Ok None) = goOn r [ILru] (Ok None)" "p1 = p'"
      by (auto simp: deleteExpiredCache_def expiredTx_def)
    with alone_removeAll [OF rm, of "[ILru]" "Ok None"] TxDone show ?thesis
      by (auto simp: exec_eqs intro: alone_first)
  qed (use 1 in \<open>auto simp: exec_eqs deleteExpiredCache_def expiredTx_def intro!: alone_one\<close>)
  have lru: "(alone E)\<^sup>*\<^sup>* (([ILru], Ok None), p1) (goOn r2 [] (Ok None), p2)"
  proof (cases "lruTx E (cpDb p1)")
    case (TxDone items)
    obtain r p' where rm: "removeWhileExceeded E (ceSort E items) 0 p1 = (r, p')" by (rule prod.exhaust)
    with 2 TxDone goOn_size [of "(r, p')"] have "goOn r2 [] (Ok None) = goOn r [] (Ok None)" "p2 = p'"
      by (auto simp: deletePagesLRU_def lruTx_def)
    with alone_evict [OF rm, of "[]" "Ok None"] TxDone show ?thesis
      by (auto simp: exec_eqs intro: alone_first)
  qed (use 2 in \<open>auto simp: exec_eqs deletePagesLRU_def lruTx_def intro!: alone_one\<close>)
  have "(alone E)\<^sup>*\<^sup>* (launch (EvTick clk), p) (goOn r1 [ILru] (Ok None), p1)"
    using True expire by (auto simp: exec_eqs intro: alone_first)
  with lru 1 2 True show ?thesis
    by (cases r1; cases r2) (auto simp: observeTick_def intro: rtranclp_trans)
qed

lemma alone_gauge:
  "(alone E)\<^sup>*\<^sup>* ((IReadSize # rest, out), p) ((rest, out), p\<lparr>gaugeSize := toFloat (sint (Size p))\<rparr>)"
  by (rule alone_first, rule exec.simps, rule alone_one) (rule exec.simps)

lemma alone_clear:
  "(alone E)\<^sup>*\<^sup>* (launch (EvClear visit), p) (([], outcome E (EvClear visit) p), cacheStep E (EvClear visit) p)"
proof -
  obtain r db where tx: "clearTx E visit p = (r, db)" by (rule prod.exhaust)
  show ?thesis
  proof (cases r)
    case (TxDone p1)
    let ?q = "p1\<lparr>cpDb := db, gaugeSize := toFloat (sint (Size p1))\<rparr>"
    have "(alone E)\<^sup>*\<^sup>* (launch (EvClear visit), p) (([IClearPages], Ok None), ?q)"
      using alone_gauge [of E "[IClearPages]" "Ok None" "p1\<lparr>cpDb := db\<rparr>"] tx TxDone
      by (auto simp: exec_eqs intro: alone_first)
    moreover have "exec E IClearPages [] (Ok None) ?q =
        (([], outcome E (EvClear visit) p), cacheStep E (EvClear visit) p)"
      using tx TxDone by (auto simp: exec_eqs ClearCache_def split: prod.split option.split)
    ultimately show ?thesis by (auto intro: rtranclp_trans alone_one)
  next
    case (TxErr e p1)
    with alone_gauge [of E "[]" "Err e" "p1\<lparr>cpDb := db\<rparr>"] tx show ?thesis
      by (auto simp: exec_eqs ClearCache_def intro: alone_first)
  next
    case (TxPanic m)
    with tx show ?thesis by (auto simp: exec_eqs ClearCache_def intro: alone_one)
  qed
qed

lemma alone_operation: "(alone E)\<^sup>*\<^sup>* (launch e, p) (([], outcome E e p), cacheStep E e p)"
proof (cases e)
  case (EvInsert clk key req resp page)
  then show ?thesis by (simp only: alone_insert)
next
  case (EvGet clk t1 t2 key req)
  then show ?thesis by (simp only: alone_get)
next
  case (EvTick clk)
  then show ?thesis by (simp only: alone_tick)
next
  case (EvClear visit)
  then show ?thesis by (simp only: alone_clear)
next
  case (EvRemove key)
  obtain r p' where rm: "RemovePageFromCache E key p = (r, p')" by (rule prod.exhaust)
  from alone_remove [OF this, of "[]" "Ok None"] EvRemove rm show ?thesis by (simp flip: goOn_Nil)
qed

section \<open>Environments of one cache\<close>

text \<open>Operations of one cache, which may meet different faults each time.\<close>

definition sameCache :: "'db cacheEnv \<Rightarrow> 'db cacheEnv \<Rightarrow> bool" where
  "sameCache E E' \<longleftrightarrow> ceBolt E = ceBolt E' \<and> ceCodec E = ceCodec E' \<and> ceSha1 E = ceSha1 E'"

lemma sameCache_ok:
  assumes "sameCache E E'"
  shows "env_ok E = env_ok E'" "cache_ok E p = cache_ok E' p"
proof -
  have "metaOf E db n = metaOf E' db n" for db n
    using assms by (simp add: metaOf_def sameCache_def split: option.split sum.split)
  then have "metaOf E = metaOf E'" by (simp add: fun_eq_iff)
  then have "metaSize E db = metaSize E' db" "bucketOk E db = bucketOk E' db" for db
    using assms by (simp_all add: fun_eq_iff metaSize_def bucketOk_def sameCache_def)
  then show "cache_ok E p = cache_ok E' p" using assms by (simp add: cache_ok_def dbSize_def sameCache_def)
  show "env_ok E = env_ok E'" using assms by (simp add: env_ok_def sameCache_def)
qed

end
