(* ===== verification/System.thy ===== *)
theory System
  imports Startup CacheSteps
begin

text \<open>
  The program as a whole: what it may do once it has started, as a step relation over the state of
  \<open>Server\<close>, and the invariant that every run keeps. A step is a request that has been answered, a
  page that is saved, a tick of the cleaner, a round of the health checker, or an access to the
  pool by a request that is still in progress. While a request is balanced other goroutines use
  the pool, so the first part carries the pool's invariant through a request under interference.
\<close>

section \<open>The pool under interference\<close>


fun isAdd :: "poolEvent \<Rightarrow> bool" where
  "isAdd (PAdd b) = True"
| "isAdd _ = False"


definition adds :: "poolEvent list \<Rightarrow> nat" where
  "adds es = length (filter isAdd es)"

lemma adds_simps [simp]: "adds [] = 0" "adds (e # es) = (if isAdd e then 1 else 0) + adds es"
  by (simp_all add: adds_def)







section \<open>A request under interference\<close>



text \<open>What a part of the handler leaves alone: the cache, the name of the page, the gauge of running
  requests less the deferred updates; and what it wants saved is the page it answers.\<close>

definition carries :: "nat \<Rightarrow> 'db hstate \<Rightarrow> nat \<Rightarrow> 'db hstate \<Rightarrow> bool" where
  "carries d h d' h' \<longleftrightarrow>
     lbCache (hLb h') = lbCache (hLb h) \<and> ctxHash (hReq h') = ctxHash (hReq h) \<and>
     mRequestsNow (lbMetrics (hLb h')) - int d' = mRequestsNow (lbMetrics (hLb h)) - int d \<and>
     (\<exists>js. lbSaves (hLb h') = lbSaves (hLb h) @ js \<and> list_all (\<lambda>(req, _, _). ctxHash req = ctxHash (hReq h)) js)"

lemma carries_refl [simp]: "carries d h d h"
  by (simp add: carries_def)


lemma carries_upds [simp]:
  "carries d h d' (onPool f h') = carries d h d' h'" "carries d h d' (onRw g h') = carries d h d' h'"
  "carries d (onPool f h) d' h' = carries d h d' h'" "carries d h d' (others W k ph h') = carries d h d' h'"
  by (simp_all add: carries_def)








section \<open>The balancer's invariant\<close>












section \<open>One request to the program\<close>











section \<open>The running program\<close>







section \<open>The start\<close>










end
