(* ===== verification/CacheRaces.thy ===== *)
theory CacheRaces
  imports CacheSteps
begin

text \<open>
  Goroutines that work on the cache at the same time, interleaved at the steps of \<open>CacheSteps\<close>: the
  accounts that hold along every interleaving, and what can go wrong between two steps of one
  operation.
\<close>

section \<open>Interleaving\<close>

text \<open>Any goroutine may take its next step, and a new operation may begin at any time. The faults of
  the operating system may differ from step to step. With \<open>intact\<close> the transaction of a clearing does
  not fail half-way.\<close>

fun smooth :: "'db cacheEnv \<Rightarrow> instr \<Rightarrow> 'db CachingProperties \<Rightarrow> bool" where
  "smooth E (IClear visit) p = clearsWhole E visit p"
| "smooth E _ p = True"

inductive together ::
  "bool \<Rightarrow> 'db cacheEnv \<Rightarrow> task list \<times> 'db CachingProperties \<Rightarrow> task list \<times> 'db CachingProperties \<Rightarrow> bool"
  for intact E where
  start: "eventOk e \<Longrightarrow> together intact E (ts, p) (ts @ [launch e], p)"
| turn: "sameCache E' E \<Longrightarrow> exec E' i rest out p = (t, p') \<Longrightarrow> intact \<longrightarrow> smooth E' i p \<Longrightarrow>
    together intact E (xs @ (i # rest, out) # ys, p) (xs @ t # ys, p')"

inductive_cases togetherE [consumes 1, case_names start turn]: "together intact E s s'"

lemma alone_together:
  "(alone E)\<^sup>*\<^sup>* (t, p) (t', p') \<Longrightarrow> (together False E)\<^sup>*\<^sup>* (xs @ t # ys, p) (xs @ t' # ys, p')"
proof (induction rule: rtranclp_induct2)
  case refl
  then show ?case by simp
next
  case (step t1 p1 t2 p2)
  from step.hyps(2) have "together False E (xs @ t1 # ys, p1) (xs @ t2 # ys, p2)"
    by cases (auto intro!: together.turn simp: sameCache_def)
  with step.IH show ?case by simp
qed

section \<open>What the goroutines owe\<close>

fun owed :: "instr \<Rightarrow> int64" where
  "owed (IAddSize d) = d"
| "owed _ = 0"

fun owedPages :: "instr \<Rightarrow> int" where
  "owedPages (IAddPages k) = k"
| "owedPages _ = 0"

definition owing :: "task list \<Rightarrow> int64" where
  "owing ts = (\<Sum>(code, _) \<leftarrow> ts. sum_list (map owed code))"

definition owingPages :: "task list \<Rightarrow> int" where
  "owingPages ts = (\<Sum>(code, _) \<leftarrow> ts. sum_list (map owedPages code))"

lemma owing_append [simp]:
  "owing (xs @ ys) = owing xs + owing ys" "owingPages (xs @ ys) = owingPages xs + owingPages ys"
  by (simp_all add: owing_def owingPages_def)

lemma owing_Cons [simp]:
  "owing ((code, out) # ts) = sum_list (map owed code) + owing ts"
  "owingPages ((code, out) # ts) = sum_list (map owedPages code) + owingPages ts"
  "owing [] = 0" "owingPages [] = 0"
  by (simp_all add: owing_def owingPages_def)

text \<open>The counters come first on a stack, and what is to be stored has the name of a page.\<close>

fun counting :: "instr \<Rightarrow> bool" where
  "counting (IAddSize d) = True"
| "counting IReadSize = True"
| "counting (ISetGauge v) = True"
| "counting (IAddPages k) = True"
| "counting _ = False"

fun tidy :: "instr list \<Rightarrow> bool" where
  "tidy [] = True"
| "tidy (i # code) = (if counting i then tidy code else \<not> list_ex counting code)"

fun named :: "instr \<Rightarrow> bool" where
  "named (IInsert clk key req resp page) = diskKey key"
| "named (ISaveMeta key meta page) = diskKey key"
| "named _ = True"

lemma tidy_plain: "\<not> list_ex counting code \<Longrightarrow> tidy code"
  by (cases code) auto

lemma owed_plain: "\<not> list_ex counting code \<Longrightarrow> sum_list (map owed code) = 0 \<and> sum_list (map owedPages code) = 0"
proof (induction code)
  case Nil
  then show ?case by simp
next
  case (Cons i code)
  then show ?case by (cases i) auto
qed

text \<open>A cache over a database, with the right \<open>Size\<close>.\<close>

definition over :: "'db cacheEnv \<Rightarrow> 'db \<Rightarrow> 'db CachingProperties" where
  "over E db = (NewCachingProperties db [] (NewCacheCleaner 0 0))\<lparr>Size := dbSize E db\<rparr>"

lemma over_simps [simp]: "cpDb (over E db) = db" "gaugePages (over E db) = 0"
  by (simp_all add: over_def NewCachingProperties_def)

lemma over_ok: "bolt_ok (ceBolt E) \<Longrightarrow> cache_ok E (over E db) \<longleftrightarrow> dbOk E db"
  by (simp add: dbOk_def cache_ok_alt over_def NewCachingProperties_def)

section \<open>What a transaction comes to\<close>

lemma insertTx_cases:
  assumes "env_ok E" "diskKey key" "marshalMeta (ceCodec E) m = Inr v"
  obtains (fresh) db' where "insertTx E key v db = (TxDone (), db')" "dbGains E key m db db'"
    | (nothing) e where "insertTx E key v db = (TxErr e (), db)"
proof -
  note eq = insertMeta_tx [of E key m "over E db", unfolded assms(3) sum.case over_simps]
  obtain r db1 where tx: "insertTx E key v db = (r, db1)" by (rule prod.exhaust)
  show ?thesis
  proof (cases rule: insertMeta_cases [OF env_okD [OF assms(1)] assms(2), of m "over E db"])
    case (1 db')
    have "gaugePages (snd (insertPageMetadataToDB E key m (over E db))) = 1"
      "cpDb (snd (insertPageMetadataToDB E key m (over E db))) = db'" using 1(1) by simp_all
    with eq tx have "r = TxDone () \<and> db1 = db'" by (cases r) (auto split: unit.splits)
    with tx 1(2) that(1) show ?thesis by simp
  next
    case 2
    have "gaugePages (snd (insertPageMetadataToDB E key m (over E db))) = 0"
      "cpDb (snd (insertPageMetadataToDB E key m (over E db))) = db"
      "\<And>x. fst (insertPageMetadataToDB E key m (over E db)) \<noteq> Panic x" using 2(2) by simp_all
    with eq tx have "\<exists>e. r = TxErr e () \<and> db1 = db" by (cases r) (auto split: unit.splits)
    with tx that(2) show ?thesis by auto
  next
    case (3 e)
    have "gaugePages (snd (insertPageMetadataToDB E key m (over E db))) = 0"
      "cpDb (snd (insertPageMetadataToDB E key m (over E db))) = db"
      "\<And>x. fst (insertPageMetadataToDB E key m (over E db)) \<noteq> Panic x" using 3 by simp_all
    with eq tx have "\<exists>e. r = TxErr e () \<and> db1 = db" by (cases r) (auto split: unit.splits)
    with tx that(2) show ?thesis by auto
  qed
qed

lemma removeTx_cases:
  assumes "bolt_ok (ceBolt E)" "dbOk E db"
  obtains (removed) v m db' where "removeTx E key db = (TxDone v, db')"
      "unmarshalMeta (ceCodec E) (case v of None \<Rightarrow> [] | Some b \<Rightarrow> b) = Inr (Some m)"
      "metaOf E db key = Some m" "dbLoses E key db db'"
    | (nothing) e v where "removeTx E key db = (TxErr e v, db)"
proof -
  note eq = removeMeta_tx [of E key "over E db", unfolded over_simps Let_def]
  have ok: "cache_ok E (over E db)" using over_ok [OF assms(1)] assms(2) by simp
  obtain r db1 where tx: "removeTx E key db = (r, db1)" by (rule prod.exhaust)
  let ?fn = "\<lambda>db. if \<not> txBucket (ceBolt E) db key then (TxErr (ErrMsg ''there's no page to delete'') None, db)
      else let m = txGet (ceBolt E) db key pageMetadataKey;
               (err, db) = txDelete (ceBolt E) db key
           in (case err of None \<Rightarrow> TxDone m | Some e \<Rightarrow> TxErr e m, db)"
  show ?thesis
  proof (cases rule: removeMeta_cases [OF assms(1) ok, of key])
    case (1 m db')
    have "fst (removePageMetadata E key (over E db)) = Ok m"
      "cpDb (snd (removePageMetadata E key (over E db))) = db'" using 1(1) by simp_all
    with eq tx have "\<exists>v. r = TxDone v \<and> db1 = db' \<and>
        unmarshalMeta (ceCodec E) (case v of None \<Rightarrow> [] | Some b \<Rightarrow> b) = Inr (Some m)"
      by (cases r) (auto split: sum.splits option.splits)
    with tx 1(2,3) that(1) show ?thesis by auto
  next
    case (2 e)
    have "fst (removePageMetadata E key (over E db)) = Err e"
      "cpDb (snd (removePageMetadata E key (over E db))) = db" using 2(1) by simp_all
    moreover have "unmarshalMeta (ceCodec E) (case v of None \<Rightarrow> [] | Some b \<Rightarrow> b) \<noteq> Inl x" if "r = TxDone v" for v x
    proof -
      have "txBucket (ceBolt E) db key \<and> v = txGet (ceBolt E) db key pageMetadataKey"
        using tx that unfolding removeTx_def
        by (cases rule: boltUpdate_cases [of "ceBolt E" None ?fn db]) (auto simp: Let_def split: if_splits option.splits prod.splits)
      then have "bucketOk E db key \<and> v = txGet (ceBolt E) db key pageMetadataKey" using assms(2) by (simp add: dbOk_def)
      then show ?thesis by (auto simp: bucketOk_def metaOf_def split: option.splits sum.splits)
    qed
    ultimately have "\<exists>e v. r = TxErr e v \<and> db1 = db"
      using eq tx by (cases r) (auto split: sum.splits option.splits)
    with tx that(2) show ?thesis by auto
  qed
qed

lemma countTx_cases:
  assumes "bolt_ok (ceBolt E)" "dbOk E db"
  obtains (counted) db' where "countTx E key db = (TxDone (), db')" "dbCounts E key db db'"
    | (nothing) r where "countTx E key db = (r, db)" "r \<noteq> TxDone ()"
proof -
  let ?fn = "\<lambda>db. if \<not> txBucket (ceBolt E) db key then (TxPanic ''nil pointer dereference'', db)
          else (case txGet (ceBolt E) db key usesKey of
                  None \<Rightarrow> (TxErr (ErrMsg ''value ot found'') (), db)
                | Some bs \<Rightarrow>
                    (case getUint32 bs of
                       None \<Rightarrow> (TxPanic ''index out of range'', db)
                     | Some u \<Rightarrow> (TxDone (), snd (txPut (ceBolt E) db key usesKey (putUint32 (u + 1))))))"
  show ?thesis
  proof (cases rule: boltUpdate_cases [of "ceBolt E" "()" ?fn db])
    case (commit u d)
    then obtain bs c where "txBucket (ceBolt E) db key" "txGet (ceBolt E) db key usesKey = Some bs"
      "getUint32 bs = Some c" "d = snd (txPut (ceBolt E) db key usesKey (putUint32 (c + 1)))"
      by (auto split: if_splits option.splits)
    moreover have "length (putUint32 (c + 1)) \<le> maxValueSize" by (simp add: maxValueSize_def)
    ultimately have "dbCounts E key db d"
      by (elim bolt_put [OF assms(1) _ validName_keys(2), of db key "putUint32 (c + 1)"])
        (auto simp: dbCounts_def)
    with commit(1) that(1) show ?thesis by (simp add: countTx_def)
  next
    case (rollback e r)
    show ?thesis by (rule that(2) [OF rollback [folded countTx_def]]) simp
  next
    case (unwind m)
    show ?thesis by (rule that(2) [OF unwind [folded countTx_def]]) simp
  qed
qed

section \<open>One step\<close>

text \<open>What a step leaves of the accounts: the database stays well formed, and, with \<open>b\<close>, \<open>Size\<close> and the page gauge
  with what is still owed stay where they were against the database.\<close>

definition keeps :: "bool \<Rightarrow> 'db cacheEnv \<Rightarrow> instr list \<Rightarrow> 'db CachingProperties \<Rightarrow> instr list \<Rightarrow> 'db CachingProperties \<Rightarrow> bool" where
  "keeps b E code p code' p' \<longleftrightarrow>
     dbOk E (cpDb p') \<and> tidy code' \<and> list_all named code' \<and> (b \<longrightarrow>
     Size p' + sum_list (map owed code') - dbSize E (cpDb p') = Size p + sum_list (map owed code) - dbSize E (cpDb p) \<and>
     gaugePages p' + sum_list (map owedPages code') - buckets E (cpDb p') =
       gaugePages p + sum_list (map owedPages code) - buckets E (cpDb p))"

lemma keeps_same:
  assumes "dbOk E (cpDb p)" "\<not> list_ex counting (i # rest)" "list_all named rest"
    "cpDb p' = cpDb p" "Size p' = Size p" "gaugePages p' = gaugePages p"
  shows "list_all named code' \<Longrightarrow> \<not> list_ex counting code' \<Longrightarrow> keeps b E (i # rest) p (code' @ rest) p'"
    "keeps b E (i # rest) p rest p'" "keeps b E (i # rest) p [] p'"
  using assms owed_plain [of "i # rest"] owed_plain [of rest] owed_plain [of code'] tidy_plain [of "code' @ rest"]
    tidy_plain [of rest]
  by (simp_all add: keeps_def)

lemma keeps_counters:
  assumes "tidy (i # rest)" "list_all named (i # rest)" "counting i" "dbOk E (cpDb p)"
    "exec E i rest out p = ((code, out'), p')"
  shows "keeps b E (i # rest) p code p'"
  using assms by (cases i) (auto simp: exec_eqs keeps_def algebra_simps UpdateCachePagesCount_def)

lemma keeps_save:
  assumes "env_ok E" "dbOk E (cpDb p)" "diskKey key" "list_all named rest" "\<not> list_ex counting rest"
    "exec E (ISaveMeta key m page) rest out p = ((code, out'), p')"
  shows "keeps b E (ISaveMeta key m page # rest) p code p'"
proof (cases "marshalMeta (ceCodec E) m")
  case (Inl e)
  with assms show ?thesis by (auto simp: exec_eqs intro: keeps_same)
next
  case (Inr v)
  note bolt = env_okD(1) [OF assms(1)]
  show ?thesis
  proof (cases rule: insertTx_cases [OF assms(1,3) Inr, of "cpDb p"])
    case (1 db')
    with assms(6) Inr have "code = counters (pmSize m) 1 @ IWrite key page # rest" "p' = p\<lparr>cpDb := db'\<rparr>"
      by (simp_all add: exec_eqs)
    moreover have "dbSize E db' = dbSize E (cpDb p) + pmSize m" by (rule dbSize_gains [OF bolt 1(2)])
    ultimately show ?thesis
      using assms dbOk_gains [OF bolt assms(2) 1(2) assms(3)] owed_plain [OF assms(5)]
      by (simp add: keeps_def counters_def)
  next
    case (2 e)
    with assms Inr show ?thesis
      using keeps_same(1) [of E p "ISaveMeta key m page" rest p "[IWrite key page]"]
      by (auto simp: exec_eqs split: if_splits intro: keeps_same)
  qed
qed

lemma keeps_removeMeta:
  assumes "bolt_ok (ceBolt E)" "dbOk E (cpDb p)" "list_all named rest" "\<not> list_ex counting rest"
    "exec E (IRemoveMeta key andFile) rest out p = ((code, out'), p')"
  shows "keeps b E (IRemoveMeta key andFile # rest) p code p'"
proof (cases rule: removeTx_cases [OF assms(1,2), of key])
  case (1 v m db')
  with assms(5) have "code = counters (- pmSize m) (- 1) @ (if andFile then [IRemoveFile key] else []) @ rest"
    "p' = p\<lparr>cpDb := db'\<rparr>"
    by (simp_all add: exec_eqs)
  moreover have "dbSize E db' = dbSize E (cpDb p) - pmSize m"
    using dbSize_loses [OF assms(1) 1(4)] 1(3) by (simp add: metaSize_def)
  ultimately show ?thesis
    using assms dbOk_loses [OF assms(1,2) 1(4)] owed_plain [OF assms(4)] tidy_plain [OF assms(4)]
    by (simp add: keeps_def counters_def)
next
  case (2 e v)
  with assms show ?thesis by (auto simp: exec_eqs intro: keeps_same)
qed

lemma keeps_count:
  assumes "bolt_ok (ceBolt E)" "dbOk E (cpDb p)" "list_all named rest" "\<not> list_ex counting rest"
    "exec E (ICount t1 t2 rq key result) rest out p = ((code, out'), p')"
  shows "keeps b E (ICount t1 t2 rq key result # rest) p code p'"
proof -
  have code: "code = IRead key # rest \<or> code = rest \<or> code = []"
    and p': "p' = p\<lparr>cpDb := snd (countTx E key (cpDb p))\<rparr>"
    using assms(5) by (auto simp: exec_eqs split: prod.splits txRes.splits sum.splits if_splits)
  have "dbOk E (cpDb p') \<and> buckets E (cpDb p') = buckets E (cpDb p) \<and> dbSize E (cpDb p') = dbSize E (cpDb p)"
  proof (cases rule: countTx_cases [OF assms(1,2), of key])
    case (1 db')
    with p' dbOk_counts [OF assms(2) 1(2)] dbSize_counts [OF assms(1) 1(2)] show ?thesis by simp
  next
    case (2 r)
    with p' assms(2) show ?thesis by simp
  qed
  with code p' assms(3,4) owed_plain [OF assms(4)] tidy_plain [OF assms(4)] show ?thesis
    by (auto simp: keeps_def)
qed

lemma keeps_clear:
  assumes "bolt_ok (ceBolt E)" "dbOk E (cpDb p)" "list_all named rest" "\<not> list_ex counting rest"
    "exec E (IClear visit) rest out p = ((code, out'), p')" "b \<longrightarrow> clearsWhole E visit p"
  shows "keeps b E (IClear visit # rest) p code p'"
proof -
  note plain = owed_plain [OF assms(4)] tidy_plain [OF assms(4)]
  show ?thesis
  proof (cases rule: clearTx_cases [OF assms(1,2), of visit])
    case (1 p1 db')
    with assms(5) have "code = IReadSize # IClearPages # rest" "p' = p1\<lparr>cpDb := db'\<rparr>"
      by (simp_all add: exec_eqs)
    with 1 assms(3,4) plain show ?thesis by (simp add: keeps_def)
  next
    case (2 e p1)
    with assms(5) have "code = IReadSize # rest" "p' = p1\<lparr>cpDb := cpDb p\<rparr>"
      by (simp_all add: exec_eqs)
    with 2 assms(2,3,4,6) plain show ?thesis by (simp add: keeps_def clearsWhole_def)
  next
    case (3 m)
    with assms show ?thesis by (auto simp: exec_eqs keeps_def clearsWhole_def)
  qed
qed

lemma keeps_step:
  assumes "env_ok E" "dbOk E (cpDb p)" "tidy (i # rest)" "list_all named (i # rest)"
    "exec E i rest out p = ((code, out'), p')" "b \<longrightarrow> smooth E i p"
  shows "keeps b E (i # rest) p code p'"
proof (cases "counting i")
  case True
  from keeps_counters [OF assms(3,4) this assms(2,5)] show ?thesis .
next
  case False
  with assms(3,4) have rest: "\<not> list_ex counting (i # rest)" "\<not> list_ex counting rest" "list_all named rest" by auto
  note bolt = env_okD(1) [OF assms(1)]
  note same = keeps_same [OF assms(2) rest(1,3)]
  show ?thesis
  proof (cases i)
    case (ISaveMeta key m page)
    with keeps_save [OF assms(1,2) _ rest(3,2)] assms show ?thesis by simp
  next
    case (IRemoveMeta key andFile)
    with keeps_removeMeta [OF bolt assms(2) rest(3,2)] assms show ?thesis by simp
  next
    case (ICount t1 t2 rq key result)
    with keeps_count [OF bolt assms(2) rest(3,2)] assms show ?thesis by simp
  next
    case (IClear visit)
    with keeps_clear [OF bolt assms(2) rest(3,2)] assms(5,6) show ?thesis by simp
  next
    case (IExpire clk)
    have "list_all named (map (\<lambda>(key, _). IRemoveMeta key True) items)"
      "\<not> list_ex counting (map (\<lambda>(key, _). IRemoveMeta key True) items)" for items :: "(bytes \<times> int64) list"
      by (auto simp: list_all_iff list_ex_iff)
    with IExpire assms(5) same show ?thesis
      by (auto simp: exec_eqs split: txRes.splits)
  next
    case (IInsert clk key req resp page)
    with assms(4,5) rest same(1) [of p "[ISaveMeta key (createCacheInfo (clk 2) resp (of_nat (length (pageBody page)))) page]"]
      same(2) show ?thesis
      by (auto simp: exec_eqs Let_def split: if_splits)
  qed (use False assms(5) rest same(2,3) same(1) [of _ "[_]"] same(1) [of _ "[_, _]"] in
    \<open>auto simp: exec_eqs split: if_splits prod.splits option.splits txRes.splits sum.splits res.splits list.splits\<close>)
qed

lemma sameCache_keeps:
  assumes "sameCache E' E"
  shows "keeps b E' code p code' p' = keeps b E code p code' p'" "dbOk E' db = dbOk E db"
proof -
  have "metaOf E' db n = metaOf E db n" for db n
    using assms by (simp add: metaOf_def sameCache_def split: option.split sum.split)
  then have "metaOf E' = metaOf E" by (simp add: fun_eq_iff)
  then have "metaSize E' = metaSize E" "bucketOk E' = bucketOk E" "buckets E' = buckets E"
    using assms by (simp_all add: fun_eq_iff metaSize_def bucketOk_def buckets_def sameCache_def)
  moreover from this(1) have "dbSize E' = dbSize E" using assms by (intro ext) (simp only: dbSize_def sameCache_def)
  moreover from \<open>bucketOk E' = bucketOk E\<close> have "dbOk E' = dbOk E"
    using assms by (intro ext) (simp only: dbOk_def sameCache_def)
  ultimately show "keeps b E' code p code' p' = keeps b E code p code' p'" "dbOk E' db = dbOk E db"
    by (simp_all add: keeps_def)
qed

section \<open>Along every interleaving\<close>

text \<open>The database is well formed and, with \<open>b\<close>, the counters with what is owed are \<open>c\<close> and \<open>d\<close> above it.\<close>

definition balance :: "bool \<Rightarrow> 'db cacheEnv \<Rightarrow> int64 \<Rightarrow> int \<Rightarrow> task list \<times> 'db CachingProperties \<Rightarrow> bool" where
  "balance b E c d = (\<lambda>(ts, p).
     dbOk E (cpDb p) \<and> list_all (\<lambda>(code, _). tidy code \<and> list_all named code) ts \<and>
     (b \<longrightarrow> Size p + owing ts - dbSize E (cpDb p) = c \<and> gaugePages p + owingPages ts - buckets E (cpDb p) = d))"

lemma launch_ok: "eventOk e \<Longrightarrow> launch e = (code, out) \<Longrightarrow>
   tidy code \<and> list_all named code \<and> sum_list (map owed code) = 0 \<and> sum_list (map owedPages code) = 0"
  by (cases e) auto

lemma regroup:
  fixes u :: "'a :: ab_group_add"
  assumes "u + a - b = v + c - d" "v + (x + (c + y)) - d = e"
  shows "u + (x + (a + y)) - b = e"
proof -
  have "u + (x + (a + y)) - b = (u + a - b) + (x + y)" "(v + c - d) + (x + y) = v + (x + (c + y)) - d"
    by (simp_all add: algebra_simps)
  with assms show ?thesis by simp
qed

lemma balance_step:
  assumes "together b E s s'" "env_ok E" "balance b E c d s"
  shows "balance b E c d s'"
  using assms(1)
proof (cases rule: togetherE)
  case (start e ts p)
  obtain code out where "launch e = (code, out)" by (rule prod.exhaust)
  with launch_ok [OF start(3) this] start assms(3) show ?thesis by (simp add: balance_def)
next
  case (turn E' i rest out p t p' xs ys)
  obtain code out' where t: "t = (code, out')" by (rule prod.exhaust)
  from turn assms(3) have ok: "dbOk E (cpDb p)" "tidy (i # rest)" "list_all named (i # rest)"
    by (simp_all add: balance_def)
  with turn(3) have "dbOk E' (cpDb p)" "env_ok E'"
    using sameCache_keeps(2) [OF turn(3)] sameCache_ok(1) [OF turn(3)] assms(2) by simp_all
  from keeps_step [OF this(2,1) ok(2,3) turn(4) [unfolded t] turn(5)] have "keeps b E (i # rest) p code p'"
    by (simp add: sameCache_keeps(1) [OF turn(3)])
  note keeps = this [unfolded keeps_def]
  from assms(3) have all: "list_all (\<lambda>(code, _). tidy code \<and> list_all named code) (xs @ ys)"
    "b \<Longrightarrow> Size p + (owing xs + (sum_list (map owed (i # rest)) + owing ys)) - dbSize E (cpDb p) = c"
    "b \<Longrightarrow> gaugePages p + (owingPages xs + (sum_list (map owedPages (i # rest)) + owingPages ys)) - buckets E (cpDb p) = d"
    unfolding balance_def turn(1) by simp_all
  have "Size p' + (owing xs + (sum_list (map owed code) + owing ys)) - dbSize E (cpDb p') = c" if b
    by (rule regroup [OF _ all(2) [OF that]]) (use keeps that in blast)
  moreover have "gaugePages p' + (owingPages xs + (sum_list (map owedPages code) + owingPages ys)) - buckets E (cpDb p') = d" if b
    by (rule regroup [OF _ all(3) [OF that]]) (use keeps that in blast)
  ultimately show ?thesis using keeps all(1) by (simp add: balance_def turn(2) t)
qed

interpretation races: stable_relation "together b E" "\<lambda>s. env_ok E \<and> balance b E c d s" for b E c d
  by unfold_locales (auto intro: balance_step)

lemma idle_owes_nothing:
  "list_all (\<lambda>(code, _). code = []) ts \<Longrightarrow> owing ts = 0 \<and> owingPages ts = 0"
  by (induction ts) auto

text \<open>C4: Invariant under concurrency. However the steps of any number of concurrent insertions, lookups,
  removals, cleaner ticks and clearings interleave, with whatever faults of the operating system,
  every bucket stays well formed. As long as no clearing fails half-way, \<open>Size\<close> moreover differs from
  the sum of the stored sizes by exactly the additions that goroutines which have committed a
  transaction have not made yet, as does the page gauge from the number of buckets; and when every
  goroutine has finished, the accounts are right.\<close>
theorem concurrent_accounts:
  assumes "env_ok E" and "cache_ok E p" and "(together intact E)\<^sup>*\<^sup>* ([], p) (ts, p')"
  shows "(\<forall>n. txBucket (ceBolt E) (cpDb p') n \<longrightarrow> bucketOk E (cpDb p') n) \<and>
    (intact \<longrightarrow>
       Size p' + owing ts = dbSize E (cpDb p') \<and>
       gaugePages p' + owingPages ts - buckets E (cpDb p') = gaugePages p - buckets E (cpDb p) \<and>
       (list_all (\<lambda>(code, _). code = []) ts \<longrightarrow>
          cache_ok E p' \<and> gaugePages p' - gaugePages p = buckets E (cpDb p') - buckets E (cpDb p)))"
proof -
  have "balance intact E 0 (gaugePages p - buckets E (cpDb p)) ([], p)"
    using assms(1,2) by (simp add: balance_def cache_ok_dbOk env_okD(1))
  with races.reachable [OF assms(3)] assms(1)
  have "balance intact E 0 (gaugePages p - buckets E (cpDb p)) (ts, p')" by blast
  then have all: "dbOk E (cpDb p')" "intact \<Longrightarrow> Size p' + owing ts = dbSize E (cpDb p')"
    "intact \<Longrightarrow> gaugePages p' + owingPages ts - buckets E (cpDb p') = gaugePages p - buckets E (cpDb p)"
    by (simp_all add: balance_def)
  moreover have "cache_ok E p' \<and> gaugePages p' - gaugePages p = buckets E (cpDb p') - buckets E (cpDb p)"
    if intact "list_all (\<lambda>(code, _). code = []) ts"
    using all that(1) idle_owes_nothing [OF that(2)] by (simp add: cache_ok_dbOk env_okD(1) [OF assms(1)])
  ultimately show ?thesis by (simp add: dbOk_def)
qed

lemma together_start: "eventOk e \<Longrightarrow> (together b E)\<^sup>*\<^sup>* (ts @ [launch e], p) s \<Longrightarrow> (together b E)\<^sup>*\<^sup>* (ts, p) s"
  by (meson together.start converse_rtranclp_into_rtranclp)

lemma together_turn:
  assumes "exec E i rest out p = (t, p')" "(together b E)\<^sup>*\<^sup>* (xs @ t # ys, p') s" "b \<longrightarrow> smooth E i p"
  shows "(together b E)\<^sup>*\<^sup>* (xs @ (i # rest, out) # ys, p) s"
proof -
  have "sameCache E E" by (simp add: sameCache_def)
  from together.turn [OF this assms(1,3)] assms(2) show ?thesis by (rule converse_rtranclp_into_rtranclp)
qed

lemmas turn_any = together_turn [where b = False, simplified]

lemma together_whole:
  assumes "eventOk e" "(together False E)\<^sup>*\<^sup>* (ts @ [([], outcome E e p)], cacheStep E e p) s"
  shows "(together False E)\<^sup>*\<^sup>* (ts, p) s"
proof (rule together_start [OF assms(1)])
  from alone_together [OF alone_operation, of E ts e "[]" p] assms(2)
  show "(together False E)\<^sup>*\<^sup>* (ts @ [launch e], p) s" by (rule rtranclp_trans)
qed

section \<open>Between two steps\<close>

text \<open>A lookup in one go never panics.\<close>

lemma lookup_alone_no_panic:
  assumes "bolt_ok (ceBolt E)" "cache_ok E p" "getPageMetadata E key p = (Ok m, p\<lparr>cpDb := db'\<rparr>)"
  shows "outcome E (EvGet clk t1 t2 key req) p \<noteq> Panic msg"
proof -
  have "cache_ok E (snd (getPageMetadata E key p))" by (rule cache_ok_getMeta [OF assms(1,2)])
  then have "cache_ok E (p\<lparr>cpDb := db'\<rparr>)" using assms(3) by simp
  then obtain r q where "removePageMetadata E key (p\<lparr>cpDb := db'\<rparr>) = (r, q)" "\<And>x. r \<noteq> Panic x"
    by (cases rule: removeMeta_cases [OF assms(1), of "p\<lparr>cpDb := db'\<rparr>" key]) auto
  with assms(3) have "fst (GetPageFromCache E clk t1 t2 key req p) \<noteq> Panic msg"
    by (auto simp: GetPageFromCache_def Let_def split: sum.split res.split)
  then show ?thesis by (cases "fst (GetPageFromCache E clk t1 t2 key req p)") auto
qed

text \<open>C27: Race. A page removed (by the cleaner or an administrator) between the transaction with which a
  lookup reads its metadata and the one with which it counts the use makes the lookup panic; alone,
  no lookup of a cache whose accounts are right does.\<close>
theorem lookup_panics_between:
  assumes "env_ok E" and "bolt_live (ceBolt E)" and "cache_ok E p" and "cacheMap E (cpDb p) key = Some m"
  shows "\<exists>p'. (together False E)\<^sup>*\<^sup>* ([], p)
      ([([], Panic ''nil pointer dereference''), ([], outcome E (EvRemove key) p)], p') \<and>
    (\<forall>msg. outcome E (EvGet clk t1 t2 key req) p \<noteq> Panic msg)"
proof -
  note B = env_okD(1) [OF assms(1)]
  let ?get = "EvGet clk t1 t2 key req" and ?rq = "loadRequestDirectives clk (reqHeader req)"
  let ?p1 = "cacheStep E (EvRemove key) p" and ?o = "outcome E (EvRemove key) p"
  have bucket: "txBucket (ceBolt E) (cpDb p) key" using assms(4) by (auto simp: cacheMap_def split: if_splits)
  obtain db' where meta: "getPageMetadata E key p = (Ok m, p\<lparr>cpDb := db'\<rparr>)"
    using getMeta_present [OF B assms(2-4)] by metis
  then obtain v where v: "viewTx E key (cpDb p) = TxDone v"
    unfolding getMeta_tx by (cases "viewTx E key (cpDb p)") auto
  have gone: "\<not> txBucket (ceBolt E) (cpDb ?p1) key"
  proof (rule removePage_live [OF B assms(2,3) bucket])
    fix r p'
    assume "RemovePageFromCache E key p = (r, p')" "dbLoses E key (cpDb p) (cpDb p')"
    then show ?thesis by (simp add: dbLoses_def)
  qed
  have "exec E (ICount t1 t2 ?rq key v) [] (Ok None) ?p1 = (([], Panic ''nil pointer dereference''), ?p1)"
    using gone by (simp add: exec_eqs countTx_def boltUpdate_live [OF assms(2)])
  then have "(together False E)\<^sup>*\<^sup>* ([([ICount t1 t2 ?rq key v], Ok None), ([], ?o)], ?p1)
      ([([], Panic ''nil pointer dereference''), ([], ?o)], ?p1)"
    using turn_any [of E _ "[]" "Ok None" ?p1 _ ?p1 "[]" "[([], ?o)]"] by simp
  then have "(together False E)\<^sup>*\<^sup>* ([([ICount t1 t2 ?rq key v], Ok None)], p)
      ([([], Panic ''nil pointer dereference''), ([], ?o)], ?p1)"
    using together_whole [of "EvRemove key" E "[([ICount t1 t2 ?rq key v], Ok None)]" p] by simp
  then have "(together False E)\<^sup>*\<^sup>* ([launch ?get], p) ([([], Panic ''nil pointer dereference''), ([], ?o)], ?p1)"
    using turn_any [of E "IGet clk t1 t2 key req" "[]" "Ok None" p _ p "[]" "[]"] v by (simp add: exec_eqs)
  then have run: "(together False E)\<^sup>*\<^sup>* ([], p) ([([], Panic ''nil pointer dereference''), ([], ?o)], ?p1)"
    using together_start [of ?get False E "[]" p] by simp
  with lookup_alone_no_panic [OF B assms(3) meta] show ?thesis by blast
qed

lemma save_fresh:
  assumes "env_ok E" "bolt_live (ceBolt E)" "diskKey key" "\<not> txBucket (ceBolt E) (cpDb p) key" "jsonMeta m"
  obtains db' where "dbGains E key m (cpDb p) db'"
    "\<And>rest out. exec E (ISaveMeta key m page) rest out p =
       ((counters (pmSize m) 1 @ IWrite key page # rest, out), p\<lparr>cpDb := db'\<rparr>)"
proof -
  obtain v where v: "marshalMeta (ceCodec E) m = Inr v"
    using env_okD(2) [OF assms(1)] assms(5) by (auto simp: codec_ok_def)
  obtain db1 where "insertPageMetadataToDB E key m p =
      (Ok (), UpdateCachePagesCount 1 (IncrementSize (pmSize m) (p\<lparr>cpDb := db1\<rparr>)))"
    using insertMeta_live [OF assms] by metis
  then have pages: "gaugePages (snd (insertPageMetadataToDB E key m p)) = gaugePages p + 1" by simp
  show ?thesis
  proof (cases rule: insertTx_cases [OF assms(1,3) v, of "cpDb p"])
    case (1 db')
    with v show ?thesis by (intro that) (simp_all add: exec_eqs)
  next
    case (2 e)
    with pages v show ?thesis by (simp add: insertMeta_tx)
  qed
qed

lemma write_page:
  assumes "codec_ok (ceCodec E)" "ceOs E = noFaults" "diskKey key" "tree_ok (cpFs p)"
  obtains fs' where "tree_ok fs'" "\<And>rest out. exec E (IWrite key page) rest out p = ((rest, out), p\<lparr>cpFs := fs'\<rparr>)"
proof -
  obtain v where v: "marshalPage (ceCodec E) page = Inr v" using assms(1) unfolding codec_ok_def by blast
  obtain fs' where fs': "storeBytes noFaults key v (cpFs p) = (None, fs')"
    using storeBytes_succeeds [OF assms(3,4)] by blast
  moreover have "tree_ok fs'" using tree_ok_storeBytes [OF assms(3,4), of noFaults v] fs' by simp
  ultimately show ?thesis using v assms(2)
    by (intro that [of fs']) (simp_all add: exec_eqs writePageToDisk_def)
qed

lemma insert_begins:
  "fits p page \<Longrightarrow> storable req resp \<Longrightarrow>
   exec E (IInsert clk key req resp page) rest out p = ((ISaveMeta key (newMeta clk resp page) page # rest, out), p)"
  by (auto simp: exec_eqs fits_def storable_def newMeta_def Let_def directive_flags)

text \<open>Two goroutines whose counters interleave: the one that set the gauge last had read \<open>Size\<close> first.\<close>

lemma counters_cross:
  "(together False E)\<^sup>*\<^sup>* ([(counters a i @ r1, o1), (counters b j @ r2, o2)], p)
     ([(r1, o1), (r2, o2)], p\<lparr>Size := Size p + a + b, gaugeSize := toFloat (sint (Size p + a)),
        gaugePages := gaugePages p + j + i\<rparr>)"
proof -
  note fst = turn_any [where xs = "[]" and ys = "[(_, _)]", simplified]
  note snd = turn_any [where xs = "[(_, _)]" and ys = "[]", simplified]
  show ?thesis unfolding counters_def append_Cons append_Nil
    apply (rule fst, rule exec.simps)
    apply (rule fst, rule exec.simps)
    apply (rule snd, rule exec.simps)
    apply (rule snd, rule exec.simps)
    apply (rule snd, rule exec.simps)
    apply (rule snd, rule exec.simps)
    apply (rule fst, rule exec.simps)
    apply (rule fst, rule exec.simps)
    apply (simp add: UpdateCachePagesCount_def)
    done
qed

text \<open>Both insertions look, both commit, the counters cross, both write their files.\<close>

lemma crossing_inserts:
  assumes "diskKey k1" "diskKey k2" "fits p pg1" "storable rq1 rs1" "fits p pg2" "storable rq2 rs2"
    and save1: "\<And>rest out. exec E (ISaveMeta k1 (newMeta c1 rs1 pg1) pg1) rest out p =
      ((counters n1 1 @ IWrite k1 pg1 # rest, out), p1)"
    and save2: "\<And>rest out. exec E (ISaveMeta k2 (newMeta c2 rs2 pg2) pg2) rest out p1 =
      ((counters n2 1 @ IWrite k2 pg2 # rest, out), p2)"
    and write1: "\<And>rest out. exec E (IWrite k1 pg1) rest out (p2\<lparr>Size := Size p2 + n1 + n2,
        gaugeSize := toFloat (sint (Size p2 + n1)), gaugePages := gaugePages p2 + 1 + 1\<rparr>) = ((rest, out), p4)"
    and write2: "\<And>rest out. exec E (IWrite k2 pg2) rest out p4 = ((rest, out), p5)"
  shows "(together False E)\<^sup>*\<^sup>* ([], p) ([([], Ok None), ([], Ok None)], p5)"
proof -
  let ?e1 = "EvInsert c1 k1 rq1 rs1 pg1" and ?e2 = "EvInsert c2 k2 rq2 rs2 pg2"
  note fst = turn_any [where xs = "[]" and ys = "[(_, _)]", simplified]
  note snd = turn_any [where xs = "[(_, _)]" and ys = "[]", simplified]
  let ?p3 = "p2\<lparr>Size := Size p2 + n1 + n2, gaugeSize := toFloat (sint (Size p2 + n1)), gaugePages := gaugePages p2 + 1 + 1\<rparr>"
  have "(together False E)\<^sup>*\<^sup>* ([([IWrite k1 pg1], Ok None), ([IWrite k2 pg2], Ok None)], ?p3)
      ([([], Ok None), ([], Ok None)], p5)"
    by (rule fst [OF write1], rule snd [OF write2]) simp
  note rtranclp_trans [OF counters_cross this]
  then have "(together False E)\<^sup>*\<^sup>* ([([ISaveMeta k1 (newMeta c1 rs1 pg1) pg1], Ok None),
      ([ISaveMeta k2 (newMeta c2 rs2 pg2) pg2], Ok None)], p) ([([], Ok None), ([], Ok None)], p5)"
    by (intro fst [OF save1] snd [OF save2]) simp
  then have "(together False E)\<^sup>*\<^sup>* ([launch ?e1, launch ?e2], p) ([([], Ok None), ([], Ok None)], p5)"
    unfolding launch.simps
    by (intro fst [OF insert_begins [OF assms(3,4)]] snd [OF insert_begins [OF assms(5,6)]])
  then show ?thesis
    using together_start [of ?e1 False E "[]" p] together_start [of ?e2 False E "[launch ?e1]" p] assms(1,2) by simp
qed

text \<open>C28: Race. The limit is checked before the counters move: of two pages that fit one at a time, put in
  at once under different free keys, both are stored and reported stored, whether or not they fit
  together; and the size gauge may be left at what the first one made of \<open>Size\<close>.\<close>
theorem insert_race:
  assumes "env_ok E" and "bolt_live (ceBolt E)" and "ceOs E = noFaults" and "cache_ok E p" and "tree_ok (cpFs p)"
    and "diskKey k1" and "diskKey k2" and "k1 \<noteq> k2"
    and "cacheMap E (cpDb p) k1 = None" and "cacheMap E (cpDb p) k2 = None"
    and "fits p pg1" and "storable rq1 rs1" and "jsonMeta (newMeta c1 rs1 pg1)"
    and "fits p pg2" and "storable rq2 rs2" and "jsonMeta (newMeta c2 rs2 pg2)"
  shows "\<exists>p'. (together False E)\<^sup>*\<^sup>* ([], p) ([([], Ok None), ([], Ok None)], p') \<and>
    cacheMap E (cpDb p') = (cacheMap E (cpDb p))(k1 \<mapsto> newMeta c1 rs1 pg1, k2 \<mapsto> newMeta c2 rs2 pg2) \<and>
    cpCleaner p' = cpCleaner p \<and>
    Size p' = Size p + of_nat (length (pageBody pg1)) + of_nat (length (pageBody pg2)) \<and>
    gaugeSize p' = toFloat (sint (Size p + of_nat (length (pageBody pg1))))"
proof -
  note B = env_okD [OF assms(1)]
  let ?m1 = "newMeta c1 rs1 pg1" and ?m2 = "newMeta c2 rs2 pg2"
  have nb: "\<not> txBucket (ceBolt E) (cpDb p) k1" "\<not> txBucket (ceBolt E) (cpDb p) k2"
    using metaOf_removed [OF assms(4) B(1), of k1] metaOf_removed [OF assms(4) B(1), of k2] assms(9,10)
    by (auto simp: cacheMap_def split: if_splits)
  obtain db1 where 1: "dbGains E k1 ?m1 (cpDb p) db1"
      "\<And>rest out. exec E (ISaveMeta k1 ?m1 pg1) rest out p =
         ((counters (pmSize ?m1) 1 @ IWrite k1 pg1 # rest, out), p\<lparr>cpDb := db1\<rparr>)"
    using save_fresh [OF assms(1,2,6) nb(1) assms(13)] by metis
  let ?p1 = "p\<lparr>cpDb := db1\<rparr>"
  have "\<not> txBucket (ceBolt E) (cpDb ?p1) k2" using 1(1) nb(2) assms(8) by (simp add: dbGains_def)
  then obtain db2 where 2: "dbGains E k2 ?m2 db1 db2"
      "\<And>rest out. exec E (ISaveMeta k2 ?m2 pg2) rest out ?p1 =
         ((counters (pmSize ?m2) 1 @ IWrite k2 pg2 # rest, out), p\<lparr>cpDb := db2\<rparr>)"
    using save_fresh [OF assms(1,2,7) _ assms(16), of ?p1] by auto
  let ?p2 = "p\<lparr>cpDb := db2\<rparr>"
  let ?p3 = "?p2\<lparr>Size := Size ?p2 + pmSize ?m1 + pmSize ?m2, gaugeSize := toFloat (sint (Size ?p2 + pmSize ?m1)),
    gaugePages := gaugePages ?p2 + 1 + 1\<rparr>"
  obtain fs1 where 3: "tree_ok fs1" "\<And>rest out. exec E (IWrite k1 pg1) rest out ?p3 = ((rest, out), ?p3\<lparr>cpFs := fs1\<rparr>)"
    by (rule write_page [OF B(2) assms(3,6), of ?p3 pg1]) (use assms(5) in simp_all)
  let ?p4 = "?p3\<lparr>cpFs := fs1\<rparr>"
  obtain fs2 where 4: "\<And>rest out. exec E (IWrite k2 pg2) rest out ?p4 = ((rest, out), ?p4\<lparr>cpFs := fs2\<rparr>)"
    by (rule write_page [OF B(2) assms(3,7), of ?p4 pg2]) (use 3(1) in simp_all)
  let ?p' = "?p4\<lparr>cpFs := fs2\<rparr>"
  have "(together False E)\<^sup>*\<^sup>* ([], p) ([([], Ok None), ([], Ok None)], ?p')"
    by (rule crossing_inserts [OF assms(6,7,11,12,14,15) 1(2) 2(2) 3(2) 4])
  moreover have "cacheMap E (cpDb ?p') = (cacheMap E (cpDb p))(k1 \<mapsto> ?m1, k2 \<mapsto> ?m2)"
    using cacheMap_gains(1) [OF 1(1)] cacheMap_gains(1) [OF 2(1)] by simp
  ultimately show ?thesis
    by (intro exI [of _ ?p']) (simp add: newMeta_def createCacheInfo_def)
qed

text \<open>An insertion commits and counts, another goroutine does all of its operation, the insertion writes.\<close>

lemma whole_during_insert:
  assumes "diskKey key" "fits p page" "storable req resp" "eventOk e"
    and save: "\<And>rest out. exec E (ISaveMeta key (newMeta clk resp page) page) rest out p =
      ((counters n 1 @ IWrite key page # rest, out), p1)"
    and other: "cacheStep E e (UpdateCachePagesCount 1 (IncrementSize n p1)) = r"
      "outcome E e (UpdateCachePagesCount 1 (IncrementSize n p1)) = x"
    and page: "\<And>rest out. exec E (IWrite key page) rest out r = ((rest, out), r')"
  shows "(together False E)\<^sup>*\<^sup>* ([], p) ([([], Ok None), ([], x)], r')"
proof -
  let ?e = "EvInsert clk key req resp page" and ?q = "UpdateCachePagesCount 1 (IncrementSize n p1)"
  have "(together False E)\<^sup>*\<^sup>* ([([IWrite key page], Ok None), ([], x)], r) ([([], Ok None), ([], x)], r')"
    by (rule turn_any [where xs = "[]" and ys = "[(_, _)]", simplified, OF page]) simp
  then have "(together False E)\<^sup>*\<^sup>* ([([IWrite key page], Ok None)], ?q) ([([], Ok None), ([], x)], r')"
    using together_whole [of e E "[([IWrite key page], Ok None)]" ?q] assms(4) other by simp
  then have "(together False E)\<^sup>*\<^sup>* ([(counters n 1 @ [IWrite key page], Ok None)], p1) ([([], Ok None), ([], x)], r')"
    using alone_together [OF alone_counters, where xs = "[]" and ys = "[]", simplified] by (blast intro: rtranclp_trans)
  then have "(together False E)\<^sup>*\<^sup>* ([launch ?e], p) ([([], Ok None), ([], x)], r')"
    using turn_any [where xs = "[]" and ys = "[]", OF insert_begins [OF assms(2,3)]]
      turn_any [where xs = "[]" and ys = "[]", OF save] by simp
  then show ?thesis using together_start [of ?e False E "[]" p] assms(1) by simp
qed

text \<open>C37: Race. A clearing that comes to a page whose insertion has committed its metadata but not yet
  written its file reports an error and restores the database; the insertion then ends well, every page
  is still there, and yet \<open>Size\<close> has lost the bytes of the pages the clearing had visited before: the
  accounts are wrong from then on.\<close>
theorem clear_during_insert:
  assumes "env_ok E" and "bolt_live (ceBolt E)" and "ceOs E = noFaults" and "cache_ok E p" and "tree_ok (cpFs p)"
    and "diskKey key" and "cacheMap E (cpDb p) key = None" and "fsLookup (cpFs p) (pagePath key) = None"
    and "fits p page" and "storable req resp" and "jsonMeta (newMeta clk resp page)"
    and "distinct xs" and "\<forall>n \<in> set xs. cacheMap E (cpDb p) n \<noteq> None \<and> fsLookup (cpFs p) (pagePath n) \<noteq> None"
  shows "\<exists>p'. (together False E)\<^sup>*\<^sup>* ([], p) ([([], Ok None), ([], Err ErrNotExist)], p') \<and>
    cacheMap E (cpDb p') = (cacheMap E (cpDb p))(key \<mapsto> newMeta clk resp page) \<and>
    Size p' = Size p + of_nat (length (pageBody page)) - sum_list (map (metaSize E (cpDb p)) xs) \<and>
    (sum_list (map (metaSize E (cpDb p)) xs) \<noteq> 0 \<longrightarrow> \<not> cache_ok E p')"
proof -
  note B = env_okD [OF assms(1)]
  let ?m = "newMeta clk resp page" and ?clear = "EvClear (xs @ key # [])"
  let ?lost = "sum_list (map (metaSize E (cpDb p)) xs)"
  have nb: "\<not> txBucket (ceBolt E) (cpDb p) key"
    using metaOf_removed [OF assms(4) B(1), of key] assms(7) by (auto simp: cacheMap_def split: if_splits)
  have stored: "txBucket (ceBolt E) (cpDb p) n" "n \<noteq> key" if "n \<in> set xs" for n
    using that assms(13) nb by (auto simp: cacheMap_def split: if_splits)
  obtain db1 where 1: "dbGains E key ?m (cpDb p) db1"
      "\<And>rest out. exec E (ISaveMeta key ?m page) rest out p =
         ((counters (pmSize ?m) 1 @ IWrite key page # rest, out), p\<lparr>cpDb := db1\<rparr>)"
    using save_fresh [OF assms(1,2,6) nb assms(11)] by metis
  let ?q = "UpdateCachePagesCount 1 (IncrementSize (pmSize ?m) (p\<lparr>cpDb := db1\<rparr>))"
  have ok: "cache_ok E ?q" by (rule cache_ok_gains [OF B(1) assms(4) 1(1) assms(6)])
  have same: "metaSize E db1 n = metaSize E (cpDb p) n" if "n \<in> set xs" for n
    using 1(1) stored(2) [OF that] by (intro metaSize_cong) (simp add: dbGains_def)
  then have lost: "sum_list (map (metaSize E (cpDb ?q)) xs) = ?lost"
    by (intro arg_cong [where f = sum_list] map_cong) simp_all
  have "\<exists>r. ClearCache E (xs @ key # []) ?q = (Err ErrNotExist, r) \<and> cpDb r = cpDb ?q \<and> cpFs r = cpFs ?q \<and>
      Size r = Size ?q - sum_list (map (metaSize E (cpDb ?q)) xs) \<and>
      (sum_list (map (metaSize E (cpDb ?q)) xs) \<noteq> 0 \<longrightarrow> \<not> cache_ok E r)"
    by (rule clear_failure_drifts [OF assms(1,2) ok])
      (use assms(8,12,13) stored 1(1) in \<open>auto simp: checkDisk_noFaults [OF assms(3)] dbGains_def\<close>)
  then obtain r where r: "ClearCache E (xs @ key # []) ?q = (Err ErrNotExist, r)" "cpDb r = db1" "cpFs r = cpFs p"
    "Size r = Size p + pmSize ?m - ?lost" "?lost \<noteq> 0 \<Longrightarrow> \<not> cache_ok E r"
    unfolding lost by auto
  obtain fs where 2: "\<And>rest out. exec E (IWrite key page) rest out r = ((rest, out), r\<lparr>cpFs := fs\<rparr>)"
    by (rule write_page [OF B(2) assms(3,6), of r page]) (use assms(5) r(3) in simp_all)
  let ?p' = "r\<lparr>cpFs := fs\<rparr>"
  have "(together False E)\<^sup>*\<^sup>* ([], p) ([([], Ok None), ([], Err ErrNotExist)], ?p')"
    by (rule whole_during_insert [OF assms(6,9,10) _ 1(2) _ _ 2, of ?clear]) (simp_all add: r(1))
  moreover have "cache_ok E ?p' \<longleftrightarrow> cache_ok E r" by (simp add: cache_ok_def)
  ultimately show ?thesis using cacheMap_gains(1) [OF 1(1)] r
    by (intro exI [of _ ?p']) (simp add: newMeta_def createCacheInfo_def)
qed

section \<open>Witnesses\<close>

definition plainInsert :: "char \<Rightarrow> cacheEvent" where
  "plainInsert c = EvInsert (\<lambda>_ _. 5) (refKey c) (refRequest ''GET'' []) (refResponse 200 [] ''hi'') (refPage ''hi'')"

theorem concurrent_accounts_witness:
  "\<exists>ts p. (together True refEnv)\<^sup>*\<^sup>* ([], refCache 100) (ts, p) \<and> Size p = 0 \<and> owing ts = 2 \<and> dbSize refEnv (cpDb p) = 2"
proof -
  let ?k = "refKey CHR ''a''" and ?p = "refCache 100"
  let ?m = "newMeta (\<lambda>_ _. 5) (refResponse 200 [] ''hi'') (refPage ''hi'')"
  obtain db where save: "\<And>rest out. exec refEnv (ISaveMeta ?k ?m (refPage ''hi'')) rest out ?p =
      ((counters (pmSize ?m) 1 @ IWrite ?k (refPage ''hi'') # rest, out), ?p\<lparr>cpDb := db\<rparr>)"
    by (rule save_fresh [OF env_ok_ref, of ?k ?p ?m "refPage ''hi''"])
      (simp_all add: bolt_live_ref plain_jsonMeta refCache_def NewCachingProperties_def refBucket_def)
  let ?ts = "[(counters 2 1 @ [IWrite ?k (refPage ''hi'')], Ok None)]"
  have "(together True refEnv)\<^sup>*\<^sup>* ([launch (plainInsert CHR ''a'')], ?p) (?ts, ?p\<lparr>cpDb := db\<rparr>)"
    unfolding plainInsert_def launch.simps
    using together_turn [where xs = "[]" and ys = "[]", OF insert_begins [OF plain_fits plain_storable]]
      together_turn [where xs = "[]" and ys = "[]", OF save]
    by (simp add: newMeta_plain)
  then have run: "(together True refEnv)\<^sup>*\<^sup>* ([], ?p) (?ts, ?p\<lparr>cpDb := db\<rparr>)"
    using together_start [of "plainInsert CHR ''a''" True refEnv "[]" ?p] by (simp add: plainInsert_def)
  moreover have "Size ?p = 0" by (simp add: refCache_def NewCachingProperties_def)
  ultimately show ?thesis
    using concurrent_accounts [OF env_ok_ref cache_ok_refCache run]
    by (intro exI [of _ ?ts] exI [of _ "?p\<lparr>cpDb := db\<rparr>"]) (simp add: counters_def)
qed

theorem lookup_panics_between_witness:
  "\<exists>p p' out. Size p = 2 \<and>
     (together False refEnv)\<^sup>*\<^sup>* ([], p) ([([], Panic ''nil pointer dereference''), ([], out)], p')"
proof -
  obtain p where p: "Size p = 2" "cache_ok refEnv p" "cacheMap refEnv (cpDb p) (refKey CHR ''a'') =
       Some (newMeta (\<lambda>_ _. 5) (refResponse 200 [] ''hi'') (refPage ''hi''))"
    by (rule refStored [of 100]) auto
  with lookup_panics_between [OF env_ok_ref _ p(2,3), of "\<lambda>_. 5" 5 5 "refRequest ''GET'' []"]
  show ?thesis by (auto simp: bolt_live_ref)
qed

theorem insert_race_witness:
  "\<exists>p. (together False refEnv)\<^sup>*\<^sup>* ([], refCache 3) ([([], Ok None), ([], Ok None)], p) \<and>
     Size p = 4 \<and> maxFileSize (cpCleaner p) = 3 \<and> gaugeSize p = toFloat 2"
proof -
  have "Size (refCache 3) = 0" "maxFileSize (cpCleaner (refCache 3)) = 3"
    by (simp_all add: refCache_def NewCachingProperties_def NewCacheCleaner_def)
  moreover have "refKey CHR ''a'' \<noteq> refKey CHR ''b''" by (simp add: refKey_def)
  ultimately show ?thesis
    using insert_race [OF env_ok_ref _ _ cache_ok_refCache tree_ok_refCache, of "refKey CHR ''a''" "refKey CHR ''b''"
        3 "refPage ''hi''" "refRequest ''GET'' []" "refResponse 200 [] ''hi''" "\<lambda>_ _. 5"
        "refPage ''hi''" "refRequest ''GET'' []" "refResponse 200 [] ''hi''" "\<lambda>_ _. 5"]
    by (simp add: bolt_live_ref plain_fits plain_storable plain_jsonMeta) auto
qed

theorem clear_during_insert_witness:
  "\<exists>p p'. cache_ok refEnv p \<and> Size p = 2 \<and>
     (together False refEnv)\<^sup>*\<^sup>* ([], p) ([([], Ok None), ([], Err ErrNotExist)], p') \<and>
     Size p' = 2 \<and> \<not> cache_ok refEnv p'"
proof -
  let ?a = "refKey CHR ''a''" and ?b = "refKey CHR ''b''"
  have ab: "?b \<noteq> ?a" by (simp add: refKey_def)
  obtain p where p: "cache_ok refEnv p" "tree_ok (cpFs p)" "Size p = 2" "cpCleaner p = cpCleaner (refCache 100)"
      "pageFile ?a (cpFs p) = Some ''6869.''" "\<And>n. refBucket (cpDb p) n \<longleftrightarrow> n = ?a"
      "cacheMap refEnv (cpDb p) ?a = Some (newMeta (\<lambda>_ _. 5) (refResponse 200 [] ''hi'') (refPage ''hi''))"
      "\<And>j. diskKey j \<Longrightarrow> j \<noteq> ?a \<Longrightarrow> fsLookup (cpFs p) (pagePath j) = None"
    by (rule refStored [of 100]) auto
  have free: "cacheMap refEnv (cpDb p) ?b = None" using p(6) ab by (simp add: cacheMap_def)
  have absent: "fsLookup (cpFs p) (pagePath ?b) = None" using p(8) ab by simp
  have fits: "fits p (refPage ''hi'')"
    using p(3,4) by (simp add: fits_def refCache_def NewCachingProperties_def NewCacheCleaner_def)
  have size: "metaSize refEnv (cpDb p) ?a = 2"
    using p(7) by (auto simp: metaSize_def cacheMap_def newMeta_plain split: if_splits)
  have "\<forall>n \<in> set [?a]. cacheMap refEnv (cpDb p) n \<noteq> None \<and> fsLookup (cpFs p) (pagePath n) \<noteq> None"
    using p(5,7) by (auto simp: pageFile_def split: option.splits)
  from clear_during_insert [OF env_ok_ref _ _ p(1,2) _ free absent fits plain_storable plain_jsonMeta _ this]
  obtain p' where "(together False refEnv)\<^sup>*\<^sup>* ([], p) ([([], Ok None), ([], Err ErrNotExist)], p')"
    "Size p' = 2" "\<not> cache_ok refEnv p'"
    using p(3) size bolt_live_ref by auto
  with p(1,3) show ?thesis by blast
qed

end
