(* ===== verification/CacheOrigin.thy ===== *)
theory CacheOrigin
  imports CacheRaces
begin

text \<open>
  Where the page comes from that a lookup returns while other goroutines insert, remove and evict:
  the interleavings of \<open>CacheRaces\<close> with the list of the operations started so far.
\<close>

section \<open>Interleavings with their history\<close>

text \<open>\<open>Es\<close> are the environments the steps may meet; the operation with number \<open>j\<close> is the goroutine with
  number \<open>j\<close>.\<close>

inductive ran ::
  "'db cacheEnv set \<Rightarrow> 'db CachingProperties \<Rightarrow> cacheEvent list \<Rightarrow> task list \<Rightarrow> 'db CachingProperties \<Rightarrow> bool"
  for Es p where
  initially: "ran Es p [] [] p"
| start: "ran Es p es ts q \<Longrightarrow> eventOk e \<Longrightarrow> ran Es p (es @ [e]) (ts @ [launch e]) q"
| turn: "ran Es p es (xs @ (i # rest, out) # ys) q \<Longrightarrow> E \<in> Es \<Longrightarrow> exec E i rest out q = (t, q') \<Longrightarrow>
    ran Es p es (xs @ t # ys) q'"

text \<open>Without the history these are the runs of \<open>together\<close>.\<close>

lemma ran_together:
  "ran Es p es ts q \<Longrightarrow> \<forall>E' \<in> Es. sameCache E' E \<Longrightarrow> (together False E)\<^sup>*\<^sup>* ([], p) (ts, q)"
proof (induction rule: ran.induct)
  case (start es ts q e)
  then show ?case by (meson rtranclp.rtrancl_into_rtrancl together.start)
next
  case (turn es xs i rest out ys q E' t q')
  then have "together False E (xs @ (i # rest, out) # ys, q) (xs @ t # ys, q')"
    by (intro together.turn [of E']) simp_all
  with turn.IH turn.prems show ?case by (blast intro: rtranclp.rtrancl_into_rtrancl)
qed simp

lemma together_ran:
  "(together False E)\<^sup>*\<^sup>* ([], p) (ts, q) \<Longrightarrow> \<exists>es. ran {E'. sameCache E' E} p es ts q"
proof (induction rule: rtranclp_induct2)
  case refl
  then show ?case by (auto intro: ran.initially)
next
  case (step ts q ts' q')
  then obtain es where "ran {E'. sameCache E' E} p es ts q" by blast
  with step.hyps(2) show ?case by (cases rule: togetherE) (blast intro: ran.start ran.turn)+
qed

section \<open>What the goroutines and the files hold\<close>

definition inserted :: "cacheEvent list \<Rightarrow> bytes \<Rightarrow> Page \<Rightarrow> bool" where
  "inserted es key page \<longleftrightarrow> (\<exists>clk req resp. EvInsert clk key req resp page \<in> set es)"

definition looksUp :: "cacheEvent \<Rightarrow> bytes \<Rightarrow> bool" where
  "looksUp e key \<longleftrightarrow> (\<exists>clk t1 t2 req. e = EvGet clk t1 t2 key req)"

fun origin :: "cacheEvent list \<Rightarrow> cacheEvent \<Rightarrow> instr \<Rightarrow> bool" where
  "origin es e (IInsert clk key req resp page) = (inserted es key page \<and> diskKey key)"
| "origin es e (ISaveMeta key m page) = (inserted es key page \<and> diskKey key)"
| "origin es e (IWrite key page) = (inserted es key page \<and> diskKey key)"
| "origin es e (IGet clk t1 t2 key req) = looksUp e key"
| "origin es e (ICount t1 t2 rq key result) = looksUp e key"
| "origin es e (IRead key) = looksUp e key"
| "origin es e _ = True"

definition taskOk :: "cacheEvent list \<Rightarrow> cacheEvent \<Rightarrow> task \<Rightarrow> bool" where
  "taskOk es e = (\<lambda>(code, out). list_all (origin es e) code \<and>
     (\<forall>page key. out = Ok (Some page) \<and> looksUp e key \<and> diskKey key \<longrightarrow> inserted es key page))"

definition filesOk :: "codec \<Rightarrow> cacheEvent list \<Rightarrow> fsys \<Rightarrow> bool" where
  "filesOk J es fs \<longleftrightarrow> tree_ok fs \<and>
     (\<forall>key v. diskKey key \<and> pageFile key fs = Some v \<longrightarrow> (\<exists>page. inserted es key page \<and> marshalPage J page = Inr v))"

lemma inserted_more: "inserted es key page \<Longrightarrow> inserted (es @ [e]) key page"
  by (auto simp: inserted_def)

lemma origin_more: "origin es e i \<Longrightarrow> origin (es @ [e']) e i"
  by (cases i) (auto simp: inserted_more)

lemma taskOk_more: "taskOk es e t \<Longrightarrow> taskOk (es @ [e']) e t"
  by (cases t) (auto simp: taskOk_def list_all_iff origin_more inserted_more)

lemma looksUp_key: "looksUp e key \<Longrightarrow> looksUp e j \<Longrightarrow> j = key"
  by (auto simp: looksUp_def)

lemma filesOk_more: "filesOk J es fs \<Longrightarrow> filesOk J (es @ [e]) fs"
  using inserted_more unfolding filesOk_def by blast

lemma taskOk_launch: "eventOk e \<Longrightarrow> taskOk (es @ [e]) e (launch e)"
  by (cases e) (auto simp: taskOk_def inserted_def looksUp_def)

section \<open>One step\<close>

lemma osRemove_only: "fsLookup (snd (osRemove F p fs)) q \<in> {None, fsLookup fs q}"
  by (auto simp: osRemove_def fsLookup_def map_of_delete AList.delete_conv' split: option.split node.split)

lemma removeDirs_only: "fsLookup (snd (removeDirs F path fs)) q \<in> {None, fsLookup fs q}"
proof (induction F path fs rule: removeDirs.induct)
  case (1 F path fs)
  obtain r fs1 where rm: "osRemove F path fs = (r, fs1)" by (rule prod.exhaust)
  with osRemove_only [of F path fs q] have first: "fsLookup fs1 q \<in> {None, fsLookup fs q}" by simp
  have "removeDirs F path fs =
      (if path = PagesPath then (Ok (), fs)
       else case r of
         Some e \<Rightarrow> (Err e, fs1)
       | None \<Rightarrow>
           (case beforeLast CHR ''/'' path of
              None \<Rightarrow> (Panic ''slice bounds out of range'', fs1)
            | Some parent \<Rightarrow> removeDirs F parent fs1))"
    by (subst removeDirs.simps) (simp add: rm)
  moreover have "fsLookup (snd (removeDirs F parent fs1)) q \<in> {None, fsLookup fs1 q}"
    if "path \<noteq> PagesPath" "r = None" "beforeLast CHR ''/'' path = Some parent" for parent
    using "1.IH" [OF that(1) rm [symmetric] that(2,3)] .
  ultimately show ?case using first by (auto split: option.split)
qed

lemma removePage_only: "fsLookup (snd (removePageFromDisk F k fs)) q \<in> {None, fsLookup fs q}"
proof -
  let ?p = "fold (\<lambda>v path. path @ ''/'' @ v) (subHashes k) PagesPath"
  obtain r fs1 where rm: "osRemove F (?p @ ''/'' @ k) fs = (r, fs1)" by (rule prod.exhaust)
  with osRemove_only [of F "?p @ ''/'' @ k" fs q] removeDirs_only [of F ?p fs1 q] show ?thesis
    by (auto simp: removePageFromDisk_def Let_def split: option.split)
qed

lemma removeAllEach_only: "fsLookup (snd (removeAllEach F ps fs)) q \<in> {None, fsLookup fs q}"
proof (induction ps arbitrary: fs)
  case Nil
  then show ?case by simp
next
  case (Cons p ps)
  let ?kept = "filter (\<lambda>(q, _). q \<noteq> p \<and> \<not> under p q) fs"
  have "map_of ?kept q = (if q \<noteq> p \<and> \<not> under p q then map_of fs q else None)"
    by (induction fs) auto
  then have "fsLookup ?kept q \<in> {None, fsLookup fs q}" by (auto simp: fsLookup_def)
  with Cons.IH [of ?kept] show ?case by (auto simp: osRemoveAll_def split: option.split)
qed

lemma tree_ok_removeAllEach: "tree_ok fs \<Longrightarrow> tree_ok (snd (removeAllEach F ps fs))"
proof (induction ps arbitrary: fs)
  case Nil
  then show ?case by simp
next
  case (Cons p ps)
  have "tree_ok (filter (\<lambda>(q, _). q \<noteq> p \<and> \<not> under p q) fs)"
    using Cons.prems by (simp add: tree_ok_def list_all_iff)
  from Cons.IH [OF this] Cons.prems show ?case by (auto simp: osRemoveAll_def split: option.split)
qed

lemma filesOk_only:
  assumes "filesOk J es fs" "tree_ok fs'" "\<And>q. fsLookup fs' q \<in> {None, fsLookup fs q}"
  shows "filesOk J es fs'"
proof -
  have "pageFile key fs = Some v" if "pageFile key fs' = Some v" for key v
    using assms(3) [of "pagePath key"] that by (auto simp: pageFile_def)
  with assms(1,2) show ?thesis unfolding filesOk_def by blast
qed

lemma filesOk_remove:
  assumes "filesOk J es fs"
  shows "filesOk J es (snd (removePageFromDisk F k fs))" "filesOk J es (snd (clearPages F fs))"
proof -
  have "tree_ok fs" using assms by (simp add: filesOk_def)
  then show "filesOk J es (snd (removePageFromDisk F k fs))" "filesOk J es (snd (clearPages F fs))"
    unfolding clearPages_def
    by (rule filesOk_only [OF assms tree_ok_removePageFromDisk removePage_only]
        filesOk_only [OF assms tree_ok_removeAllEach removeAllEach_only])+
qed

lemma storeBytes_fails:
  assumes "diskKey k" "faultWrite F = (\<lambda>_. None)" "storeBytes F k v fs = (Some e, fs')"
  shows "fsLookup fs' (pagePath k) = fsLookup fs (pagePath k)"
proof -
  obtain r1 fs1 where 1: "osMkdirAll F (makePath k subHashCount) fs = (r1, fs1)" by (rule prod.exhaust)
  have "depth (pagePath k) = 7" using depth_pagePath [of k] assms(1) by (simp add: diskKey_def)
  then have "pagePath k \<notin> set (pathPrefixes [] (makePath k subHashCount))"
    using prefixes_makePath_depth [OF assms(1)] by force
  from mkdirEach_other [OF this, of F fs] 1 have "fsLookup fs1 (pagePath k) = fsLookup fs (pagePath k)"
    by (simp add: osMkdirAll_def)
  moreover have "fs' = fs1"
    using assms(2,3) 1 by (auto simp: storeBytes_def osWriteAll_def osCreate_def split: option.splits if_splits)
  ultimately show ?thesis by simp
qed

lemma filesOk_write:
  assumes "filesOk J es fs" "diskKey k" "inserted es k page" "faultWrite F = (\<lambda>_. None)"
    "writePageToDisk J F k page fs = (r, fs')"
  shows "filesOk J es fs'"
proof (cases "marshalPage J page")
  case (Inl e)
  with assms(1,5) show ?thesis by (simp add: writePageToDisk_def)
next
  case (Inr v)
  then have store: "storeBytes F k v fs = (r, fs')" using assms(5) by (simp add: writePageToDisk_def)
  have "\<exists>page. inserted es j page \<and> marshalPage J page = Inr w" if j: "diskKey j" "pageFile j fs' = Some w" for j w
  proof (cases "j = k \<and> r = None")
    case True
    with store assms(2) have "pageFile j fs' = Some v" using pages.put_same by blast
    with True j(2) Inr assms(3) show ?thesis by auto
  next
    case False
    have "pageFile j fs' = pageFile j fs"
    proof (cases "j = k")
      case True
      with False obtain e where "r = Some e" by auto
      with storeBytes_fails [OF assms(2,4)] store True show ?thesis by (simp add: pageFile_def)
    next
      case False
      from pages.put_other [OF assms(2) j(1) this, of F v fs] store show ?thesis by simp
    qed
    with j assms(1) show ?thesis by (simp add: filesOk_def)
  qed
  moreover have "tree_ok fs'"
    using tree_ok_storeBytes [OF assms(2), of fs F v] assms(1) store by (simp add: filesOk_def)
  ultimately show ?thesis by (simp add: filesOk_def)
qed

lemma read_inserted:
  assumes "codec_ok J" "filesOk J es fs" "diskKey k" "\<forall>page. inserted es k page \<longrightarrow> asciiHeader (pageHeader page)"
    "readPageFromDisk J F k fs = Inr page"
  shows "inserted es k page"
proof -
  have "fsLookup fs (pagePath k) \<noteq> Some Dir"
    using tree_ok_lookup [of fs "pagePath k" Dir] pagePath_not_dot [OF assms(3)] depth_pagePath [of k] assms(2,3)
    by (auto simp: filesOk_def nodeDepthOk_def diskKey_def)
  with assms(5) obtain v where v: "fsLookup fs (pagePath k) = Some (File v)" "unmarshalPage J (readUntilNul v) = Inr page"
    by (auto simp: readPageFromDisk_def osReadFile_def split: option.splits node.splits)
  then have "pageFile k fs = Some v" by (simp add: pageFile_def)
  then obtain page' where page': "inserted es k page'" "marshalPage J page' = Inr v"
    using assms(2,3) unfolding filesOk_def by blast
  then have "unmarshalPage J v = Inr page'" "CHR 0x00 \<notin> set v"
    using assms(1,4) unfolding codec_ok_def by blast+
  with v(2) have "page = page'" by (simp add: readUntilNul_id)
  with page' show ?thesis by simp
qed

lemma step_origin:
  assumes "exec E i rest out p = (t, p')" "ceCodec E = J" "codec_ok J" "faultWrite (ceOs E) = (\<lambda>_. None)"
    "filesOk J es (cpFs p)" "taskOk es e (i # rest, out)"
    "\<forall>key page. inserted es key page \<longrightarrow> asciiHeader (pageHeader page)"
  shows "filesOk J es (cpFs p') \<and> taskOk es e t"
proof (cases i)
  case (IWrite key page)
  obtain r fs' where store: "writePageToDisk J (ceOs E) key page (cpFs p) = (r, fs')" by (rule prod.exhaust)
  from assms(6) IWrite have "inserted es key page" "diskKey key" by (simp_all add: taskOk_def)
  from filesOk_write [OF assms(5) this(2,1) assms(4) store] assms(1,2,6) IWrite store show ?thesis
    by (cases r) (auto simp: exec_eqs taskOk_def)
next
  case (IRead key)
  have "inserted es j page" if "readPageFromDisk J (ceOs E) key (cpFs p) = Inr page" "looksUp e j" "diskKey j" for j page
  proof -
    have "j = key" using looksUp_key [OF _ that(2), of key] assms(6) IRead by (simp add: taskOk_def)
    with read_inserted [OF assms(3,5) that(3) _ ] that(1) assms(7) show ?thesis by blast
  qed
  with assms(1,2,5,6) IRead show ?thesis
    by (auto simp: exec_eqs taskOk_def split: sum.splits if_splits)
next
  case (IRemoveFile key)
  with assms(1,6) filesOk_remove(1) [OF assms(5), of "ceOs E" key] show ?thesis
    by (auto simp: exec_eqs taskOk_def split: prod.splits res.splits)
next
  case (IClear visit)
  obtain r db where "clearTx E visit p = (r, db)" by (rule prod.exhaust)
  with clearTx_fs [of p E visit] assms(1,5,6) IClear show ?thesis
    by (cases r) (auto simp: exec_eqs taskOk_def visited_fs)
next
  case IClearPages
  with assms(1,6) filesOk_remove(2) [OF assms(5), of "ceOs E"] show ?thesis
    by (auto simp: exec_eqs taskOk_def split: prod.splits option.splits)
next
  case (IExpire clk)
  with assms(1,5,6) show ?thesis
    by (auto simp: exec_eqs taskOk_def list_all_iff split: txRes.splits)
qed (use assms(1,5,6) in \<open>auto simp: exec_eqs taskOk_def counters_def Let_def UpdateCachePagesCount_def
    split: prod.splits txRes.splits sum.splits option.splits list.splits if_splits unit.splits\<close>)

section \<open>Along every interleaving\<close>

lemma ran_lengths: "ran Es p es ts q \<Longrightarrow> length ts = length es"
  by (induction rule: ran.induct) auto

lemma ran_origin:
  assumes "ran Es p es ts q" "codec_ok J" "\<forall>E \<in> Es. ceCodec E = J \<and> faultWrite (ceOs E) = (\<lambda>_. None)"
    "tree_ok (cpFs p)" "\<forall>key. diskKey key \<longrightarrow> pageFile key (cpFs p) = None"
    "\<forall>key page. inserted es key page \<longrightarrow> asciiHeader (pageHeader page)"
  shows "filesOk J es (cpFs q) \<and> list_all2 (taskOk es) es ts"
  using assms(1,6)
proof (induction rule: ran.induct)
  case initially
  with assms(4,5) show ?case by (auto simp: filesOk_def)
next
  case (start es ts q e)
  have "\<forall>key page. inserted es key page \<longrightarrow> asciiHeader (pageHeader page)"
    using start.prems inserted_more by blast
  with start.IH have "filesOk J es (cpFs q)" "list_all2 (taskOk es) es ts" by simp_all
  moreover from this(2) have "list_all2 (taskOk (es @ [e])) es ts"
    by (rule list_all2_mono) (rule taskOk_more)
  ultimately show ?case
    using filesOk_more taskOk_launch [OF start.hyps(2)] by (simp add: list_all2_appendI)
next
  case (turn es xs i rest out ys q E t q')
  then have files: "filesOk J es (cpFs q)" and "list_all2 (taskOk es) es (xs @ (i # rest, out) # ys)" by simp_all
  then obtain us e vs where es: "es = us @ e # vs" "list_all2 (taskOk es) us xs" "taskOk es e (i # rest, out)"
    "list_all2 (taskOk es) vs ys"
    by (auto simp: list_all2_append2 list_all2_Cons2)
  from step_origin [OF turn.hyps(3) _ assms(2) _ files es(3) turn.prems] turn.hyps(2) assms(3)
  have "filesOk J es (cpFs q')" "taskOk es e t" by simp_all
  moreover from this(2) es(2,4) have "list_all2 (taskOk es) (us @ e # vs) (xs @ t # ys)"
    by (simp add: list_all2_appendI)
  ultimately show ?case using es(1) by simp
qed

text \<open>C5: Safety under concurrency. From an empty page tree, however insertions of pages with ASCII
  headers, lookups, removals,
  cleaner ticks and clearings interleave (each operation on a page file being one step; \<open>PageFile\<close> says what
  comes of it below these), and whatever calls of the
  operating system but writing fail, a lookup that returns a page returns one that some insertion
  of the run was given for the same key, never the page of another key.\<close>
theorem lookup_returns_inserted:
  assumes "ran Es p es ts q" and "codec_ok J"
    and "\<forall>E \<in> Es. ceCodec E = J \<and> faultWrite (ceOs E) = (\<lambda>_. None)"
    and "tree_ok (cpFs p)" and "\<forall>key. diskKey key \<longrightarrow> pageFile key (cpFs p) = None"
    and "\<forall>key page. inserted es key page \<longrightarrow> asciiHeader (pageHeader page)"
    and "j < length es" and "es ! j = EvGet clk t1 t2 key req" and "diskKey key"
    and "snd (ts ! j) = Ok (Some page)"
  shows "\<exists>i < length es. \<exists>clk' req' resp. es ! i = EvInsert clk' key req' resp page"
proof -
  from ran_origin [OF assms(1-6)] assms(7) have "taskOk es (es ! j) (ts ! j)" by (simp add: list_all2_nthD)
  with assms(8-10) have "inserted es key page" by (cases "ts ! j") (auto simp: taskOk_def looksUp_def)
  then show ?thesis by (auto simp: inserted_def in_set_conv_nth)
qed

section \<open>Witness\<close>

lemma ran_alone:
  "(alone E)\<^sup>*\<^sup>* (t, q) (t', q') \<Longrightarrow> E \<in> Es \<Longrightarrow> ran Es p es (xs @ t # ys) q \<Longrightarrow> ran Es p es (xs @ t' # ys) q'"
proof (induction rule: rtranclp_induct2)
  case (step t1 q1 t2 q2)
  from step.hyps(2) show ?case by cases (use step.IH step.prems in \<open>auto intro: ran.turn\<close>)
qed

lemma ran_whole:
  assumes "ran Es p es ts q" "E \<in> Es" "eventOk e"
  shows "ran Es p (es @ [e]) (ts @ [([], outcome E e q)]) (cacheStep E e q)"
  by (rule ran_alone [OF alone_operation assms(2) ran.start [OF assms(1,3)]])

theorem lookup_returns_inserted_witness:
  "\<exists>es ts q. ran {refEnv} (refCache 100) es ts q \<and> snd (ts ! 1) = Ok (Some (refPage ''hi'')) \<and>
     (\<exists>i < length es. \<exists>clk req resp. es ! i = EvInsert clk (refKey CHR ''a'') req resp (refPage ''hi''))"
proof -
  let ?k = "refKey CHR ''a''" and ?ins = "plainInsert CHR ''a''"
  let ?get = "EvGet (\<lambda>_. 5) 5 5 ?k (refRequest ''GET'' [])"
  obtain p where p: "cache_ok refEnv p" "cacheMap refEnv (cpDb p) ?k =
         Some (newMeta (\<lambda>_ _. 5) (refResponse 200 [] ''hi'') (refPage ''hi''))"
      "pageFile ?k (cpFs p) = Some ''6869.''"
      "InsertPageInCache refEnv (\<lambda>_ _. 5) ?k (refRequest ''GET'' []) (refResponse 200 [] ''hi'') (refPage ''hi'')
         (refCache 100) = (Ok (), p)"
    by (rule refStored [of 100]) auto
  have "marshalPage refCodec (refPage ''hi'') = Inr ''6869.''"
    by (simp add: refMarshalPage_def terminated_def hexEncode_def hexDigit_def char_of_def bit_iff_odd)
  then have "readPageFromDisk refCodec noFaults ?k (cpFs p) = Inr (refPage ''hi'')"
    using p(3) by (intro readPage_pageFile [OF codec_ok_ref]) (simp_all add: asciiHeader_def)
  then have hit: "outcome refEnv ?get p = Ok (Some (refPage ''hi''))"
    using GetPage_hit [OF env_ok_ref _ p(1,2), of 5 5 "\<lambda>_. 5" "refRequest ''GET'' []" "refPage ''hi''"]
    by (simp add: bolt_live_ref plain_fresh)
  have "ran {refEnv} (refCache 100) [?ins] [([], Ok None)] p"
    using ran_whole [OF ran.initially, of refEnv "{refEnv}" ?ins "refCache 100"] p(4) by (simp add: plainInsert_def)
  from ran_whole [OF this, of refEnv ?get] hit obtain q where
    run: "ran {refEnv} (refCache 100) [?ins, ?get] [([], Ok None), ([], Ok (Some (refPage ''hi'')))] q"
    by auto
  have "inserted [?ins, ?get] key page \<longrightarrow> asciiHeader (pageHeader page)" for key page
    by (auto simp: inserted_def plainInsert_def asciiHeader_def)
  moreover have "pageFile key (cpFs (refCache 100)) = None" if "diskKey key" for key
    using pagePath_not_dot [OF that] by (simp add: pageFile_def fsLookup_def refCache_def NewCachingProperties_def)
  ultimately have "\<exists>i < length [?ins, ?get]. \<exists>clk req resp. [?ins, ?get] ! i = EvInsert clk ?k req resp (refPage ''hi'')"
    using lookup_returns_inserted [OF run codec_ok_ref, of 1 "\<lambda>_. 5" 5 5 ?k "refRequest ''GET'' []" "refPage ''hi''"]
    by (simp add: noFaults_def)
  with run show ?thesis by (intro exI [of _ "[?ins, ?get]"]) auto
qed

end
