(* ===== verification/PageFile.thy ===== *)
theory PageFile
  imports RefEnv "HOL-Library.Sublist"
begin

text \<open>
  One page file below the steps of \<open>CacheSteps\<close>: \<open>writePageToDisk\<close> (\<open>cache/insert.go\<close>) creates the
  file and then writes it, \<open>readPageFromDisk\<close> (\<open>cache/read.go\<close>) opens it and then reads it in chunks of
  the size of its buffer, and none of them holds a lock. As in Unix an open file is its data, whatever
  happens to its name: removing the file takes the name away, and creating a file that
  exists empties the data its readers have open.
\<close>

section \<open>Steps on one file\<close>

definition bufferSize :: nat where
  "bufferSize = 131072"

text \<open>The data ever created under the path, and which of them the path names.\<close>

record pageFile =
  pfData :: "bytes list"
  pfName :: "nat option"

definition noFile :: pageFile where
  "noFile = \<lparr>pfData = [], pfName = None\<rparr>"

text \<open>A writer has still to create the file, has written so many bytes of the encoded page to the
  data it opened, or has ended; a reader has still to open the file, has got some bytes, or has
  decoded them.\<close>

datatype fileTask =
    WStart Page
  | Writing Page bytes nat nat
  | WEnded Page "goerror option"
  | RStart
  | Reading nat bytes
  | RDone "goerror + Page"

definition createStep :: "codec \<Rightarrow> Page \<Rightarrow> pageFile \<Rightarrow> fileTask \<times> pageFile" where
  "createStep J page f =
     (case marshalPage J page of
        Inl e \<Rightarrow> (WEnded page (Some e), f)
      | Inr v \<Rightarrow>
          (case pfName f of
             Some i \<Rightarrow> (Writing page v i 0, f\<lparr>pfData := (pfData f)[i := []]\<rparr>)
           | None \<Rightarrow> (Writing page v (length (pfData f)) 0,
                      \<lparr>pfData = pfData f @ [[]], pfName = Some (length (pfData f))\<rparr>)))"

text \<open>A write at a position beyond the end fills the gap with NUL.\<close>

definition overwriteAt :: "nat \<Rightarrow> bytes \<Rightarrow> bytes \<Rightarrow> bytes" where
  "overwriteAt off piece bs =
     take off (bs @ replicate (off - length bs) (CHR 0x00)) @ piece @ drop (off + length piece) bs"

text \<open>The operating system takes the value in pieces of any size.\<close>

definition pieceStep :: "nat \<Rightarrow> Page \<Rightarrow> bytes \<Rightarrow> nat \<Rightarrow> nat \<Rightarrow> pageFile \<Rightarrow> fileTask \<times> pageFile" where
  "pieceStep n page v i off f =
     (if length v \<le> off then (WEnded page None, f)
      else let piece = take (Suc n) (drop off v) in
        (Writing page v i (off + length piece),
         f\<lparr>pfData := (pfData f)[i := overwriteAt off piece (pfData f ! i)]\<rparr>))"

definition openStep :: "pageFile \<Rightarrow> fileTask" where
  "openStep f = (case pfName f of None \<Rightarrow> RDone (Inl ErrNotExist) | Some i \<Rightarrow> Reading i [])"

text \<open>\<open>ReadBytes(0)\<close> reads into what is left of its buffer until it has met a NUL or the end of the file;
  the operating system may give it fewer bytes than there is room for.\<close>

definition chunkStep :: "codec \<Rightarrow> nat \<Rightarrow> nat \<Rightarrow> bytes \<Rightarrow> pageFile \<Rightarrow> fileTask" where
  "chunkStep J n i got f =
     (let chunk = take (min (Suc n) (bufferSize - length got mod bufferSize)) (drop (length got) (pfData f ! i))
      in if chunk = [] then RDone (unmarshalPage J got)
         else if CHR 0x00 \<in> set chunk then RDone (unmarshalPage J (got @ readUntilNul chunk))
         else Reading i (got @ chunk))"

fun fileTurn :: "codec \<Rightarrow> nat \<Rightarrow> fileTask \<Rightarrow> pageFile \<Rightarrow> fileTask \<times> pageFile" where
  "fileTurn J n (WStart page) f = createStep J page f"
| "fileTurn J n (Writing page v i off) f = pieceStep n page v i off f"
| "fileTurn J n RStart f = (openStep f, f)"
| "fileTurn J n (Reading i got) f = (chunkStep J n i got f, f)"
| "fileTurn J n t f = (t, f)"

text \<open>Insertions and lookups of the key may come at any time, and the file may be removed. Making and
  opening the file may fail, a write may fail half-way, and so may a read, whose error
  \<open>readPageFromDisk\<close> ignores. \<open>again\<close> says whether a file that exists may be created again.\<close>

inductive fileRun :: "codec \<Rightarrow> bool \<Rightarrow> fileTask list \<times> pageFile \<Rightarrow> fileTask list \<times> pageFile \<Rightarrow> bool"
  for J again where
  insert: "asciiHeader (pageHeader page) \<Longrightarrow> fileRun J again (ts, f) (ts @ [WStart page], f)"
| lookup: "fileRun J again (ts, f) (ts @ [RStart], f)"
| remove: "fileRun J again (ts, f) (ts, f\<lparr>pfName := None\<rparr>)"
| refused: "fileRun J again (xs @ WStart page # ys, f) (xs @ WEnded page (Some e) # ys, f)"
| unopened: "fileRun J again (xs @ RStart # ys, f) (xs @ RDone (Inl e) # ys, f)"
| cut: "fileRun J again (xs @ Reading i got # ys, f) (xs @ RDone (unmarshalPage J got) # ys, f)"
| fail: "fileRun J again (xs @ Writing page v i off # ys, f) (xs @ WEnded page (Some e) # ys, f)"
| turn: "fileTurn J n t f = (t', f') \<Longrightarrow> again \<or> pfName f = None \<or> \<not> (\<exists>page. t = WStart page) \<Longrightarrow>
    fileRun J again (xs @ t # ys, f) (xs @ t' # ys, f')"

section \<open>Files that are written once\<close>

text \<open>No proper prefix of the encoding of a page decodes: in JSON it is an object that is not closed.\<close>

definition codec_whole :: "codec \<Rightarrow> bool" where
  "codec_whole J \<longleftrightarrow>
     (\<forall>page v k p. marshalPage J page = Inr v \<and> k < length v \<longrightarrow> unmarshalPage J (take k v) \<noteq> Inr p)"

fun pageOf :: "fileTask \<Rightarrow> Page option" where
  "pageOf (WStart page) = Some page"
| "pageOf (Writing page v i off) = Some page"
| "pageOf (WEnded page e) = Some page"
| "pageOf _ = None"

fun dataOf :: "fileTask \<Rightarrow> nat list" where
  "dataOf (Writing page v i off) = [i]"
| "dataOf _ = []"

definition toWrite :: "fileTask list \<Rightarrow> Page \<Rightarrow> bool" where
  "toWrite ts page \<longleftrightarrow> Some page \<in> set (map pageOf ts) \<and> asciiHeader (pageHeader page)"

text \<open>\<open>ps\<close> are the pages written to the data created so far.\<close>

fun fileTaskOk :: "codec \<Rightarrow> (Page \<Rightarrow> bool) \<Rightarrow> Page list \<Rightarrow> bytes list \<Rightarrow> fileTask \<Rightarrow> bool" where
  "fileTaskOk J W ps ds (WStart page) \<longleftrightarrow> W page"
| "fileTaskOk J W ps ds (Writing page v i off) \<longleftrightarrow>
     i < length ds \<and> ps ! i = page \<and> marshalPage J page = Inr v \<and> off \<le> length v \<and> ds ! i = take off v \<and> W page"
| "fileTaskOk J W ps ds (WEnded page e) \<longleftrightarrow> True"
| "fileTaskOk J W ps ds RStart \<longleftrightarrow> True"
| "fileTaskOk J W ps ds (Reading i got) \<longleftrightarrow>
     i < length ds \<and> (\<exists>v. marshalPage J (ps ! i) = Inr v \<and> prefix got v)"
| "fileTaskOk J W ps ds (RDone x) \<longleftrightarrow> (\<forall>page. x = Inr page \<longrightarrow> W page)"

definition dataOk :: "codec \<Rightarrow> (Page \<Rightarrow> bool) \<Rightarrow> Page list \<Rightarrow> pageFile \<Rightarrow> bool" where
  "dataOk J W ps f \<longleftrightarrow> length ps = length (pfData f) \<and>
     (\<forall>i < length ps. \<exists>v. marshalPage J (ps ! i) = Inr v \<and> prefix (pfData f ! i) v \<and> W (ps ! i)) \<and>
     (\<forall>i. pfName f = Some i \<longrightarrow> i < length ps)"

definition fileOk :: "codec \<Rightarrow> fileTask list \<times> pageFile \<Rightarrow> bool" where
  "fileOk J tf \<longleftrightarrow> (case tf of (ts, f) \<Rightarrow> distinct (concat (map dataOf ts)) \<and>
     (\<exists>ps. dataOk J (toWrite ts) ps f \<and> (\<forall>t \<in> set ts. fileTaskOk J (toWrite ts) ps (pfData f) t)))"

lemma pageOf_turn: "fileTurn J n t f = (t', f') \<Longrightarrow> pageOf t' = pageOf t"
  by (cases t)
    (auto simp: createStep_def pieceStep_def openStep_def chunkStep_def Let_def
      split: sum.splits option.splits if_splits)

lemma toWrite_more: "toWrite ts page \<Longrightarrow> toWrite (ts @ [t]) page"
  by (auto simp: toWrite_def)

lemma toWrite_same: "pageOf t' = pageOf t \<Longrightarrow> toWrite (xs @ t' # ys) = toWrite (xs @ t # ys)"
  by (auto simp: toWrite_def fun_eq_iff)

lemma overwriteAt_next: "overwriteAt off (take k (drop off v)) (take off v) = take (off + length (take k (drop off v))) v"
  if "off \<le> length v"
proof -
  have "take (off + length (take k (drop off v))) v = take off v @ take k (drop off v)"
    by (simp add: take_add min_def)
  with that show ?thesis by (simp add: overwriteAt_def)
qed

lemma prefix_chunk:
  assumes "prefix got v" "prefix bs v"
  shows "prefix (got @ take c (drop (length got) bs)) v"
proof (cases "length got \<le> length bs")
  case True
  with assms have "prefix got bs" by (metis prefix_length_prefix)
  then obtain r where "bs = got @ r" by (rule prefixE)
  then have "prefix (got @ take c (drop (length got) bs)) bs" by (simp add: take_is_prefix)
  from prefix_order.trans [OF this assms(2)] show ?thesis .
next
  case False
  with assms(1) show ?thesis by simp
qed

text \<open>What a step of one goroutine does to its task and to the data.\<close>

lemma decoded_ok:
  assumes "codec_ok J" "codec_whole J" "dataOk J W ps f" "fileTaskOk J W ps (pfData f) (Reading i got)"
    and "\<forall>page. W page \<longrightarrow> asciiHeader (pageHeader page)"
  shows "fileTaskOk J W ps (pfData f) (RDone (unmarshalPage J got))"
proof -
  obtain v where v: "marshalPage J (ps ! i) = Inr v" "prefix got v" and W: "W (ps ! i)"
    using assms(3,4) by (auto simp: dataOk_def)
  have dec: "unmarshalPage J v = Inr (ps ! i)" using assms(1,5) W v(1) unfolding codec_ok_def by blast
  have take: "got = take (length got) v" using v(2) by (auto elim: prefixE)
  have "got = v" if "unmarshalPage J got = Inr page" for page
  proof -
    have "\<not> length got < length v" using assms(2) v(1) that take unfolding codec_whole_def by metis
    with take show ?thesis by simp
  qed
  with dec W show ?thesis by auto
qed

lemma chunkStep_ok:
  assumes "codec_ok J" "codec_whole J" "dataOk J W ps f" "fileTaskOk J W ps (pfData f) (Reading i got)"
    and "\<forall>page. W page \<longrightarrow> asciiHeader (pageHeader page)"
  shows "fileTaskOk J W ps (pfData f) (chunkStep J n i got f)"
proof -
  obtain v where v: "marshalPage J (ps ! i) = Inr v" "prefix (pfData f ! i) v" and W: "W (ps ! i)"
    and i: "i < length (pfData f)" using assms(3,4) by (auto simp: dataOk_def)
  have got: "prefix got v" using assms(4) v(1) by auto
  have dec: "CHR 0x00 \<notin> set v" using assms(1,5) W v(1) unfolding codec_ok_def by blast
  let ?chunk = "take (min (Suc n) (bufferSize - length got mod bufferSize)) (drop (length got) (pfData f ! i))"
  have more: "prefix (got @ ?chunk) v" by (rule prefix_chunk [OF got v(2)])
  then have "CHR 0x00 \<notin> set ?chunk" using dec set_mono_prefix [OF more] by auto
  moreover have "fileTaskOk J W ps (pfData f) (RDone (unmarshalPage J got))" by (rule decoded_ok [OF assms])
  ultimately show ?thesis using more v(1) i by (simp add: chunkStep_def Let_def)
qed

text \<open>Other goroutines do not notice a step of one that writes.\<close>

lemma taskOk_created:
  "fileTaskOk J W ps ds t \<Longrightarrow> length ps = length ds \<Longrightarrow> fileTaskOk J W (ps @ [page]) (ds @ [[]]) t"
  by (cases t) (auto simp: nth_append)

lemma taskOk_written:
  "fileTaskOk J W ps ds t \<Longrightarrow> i \<notin> set (dataOf t) \<Longrightarrow> fileTaskOk J W ps (ds[i := bs]) t"
  by (cases t) auto

lemma dataOf_below: "fileTaskOk J W ps ds u \<Longrightarrow> i \<in> set (dataOf u) \<Longrightarrow> i < length ds"
  by (cases u) auto

text \<open>The invariant from the point of view of the goroutine \<open>t\<close> among the goroutines \<open>us\<close>.\<close>

definition soundWith :: "codec \<Rightarrow> (Page \<Rightarrow> bool) \<Rightarrow> fileTask list \<Rightarrow> fileTask \<Rightarrow> pageFile \<Rightarrow> bool" where
  "soundWith J W us t f \<longleftrightarrow> distinct (dataOf t @ concat (map dataOf us)) \<and>
     (\<exists>ps. dataOk J W ps f \<and> fileTaskOk J W ps (pfData f) t \<and> (\<forall>u \<in> set us. fileTaskOk J W ps (pfData f) u))"

lemma fileOk_soundWith: "fileOk J (xs @ t # ys, f) \<longleftrightarrow> soundWith J (toWrite (xs @ t # ys)) (xs @ ys) t f"
  unfolding fileOk_def soundWith_def by (rule iffI) auto

lemma soundWith_quiet:
  assumes "soundWith J W us t f" "dataOf t' = []"
    and "\<And>ps. dataOk J W ps f \<Longrightarrow> fileTaskOk J W ps (pfData f) t \<Longrightarrow> fileTaskOk J W ps (pfData f) t'"
  shows "soundWith J W us t' f"
  using assms unfolding soundWith_def by auto

lemma createStep_sound:
  assumes "soundWith J W us (WStart page) f" "pfName f = None" "createStep J page f = (t', f')"
  shows "soundWith J W us t' f'"
proof (cases "marshalPage J page")
  case (Inl e)
  with assms show ?thesis by (auto simp: createStep_def intro: soundWith_quiet)
next
  case (Inr v)
  with assms(2,3) have new: "t' = Writing page v (length (pfData f)) 0"
    "f' = \<lparr>pfData = pfData f @ [[]], pfName = Some (length (pfData f))\<rparr>" by (auto simp: createStep_def)
  obtain ps where ps: "dataOk J W ps f" "W page" "\<forall>u \<in> set us. fileTaskOk J W ps (pfData f) u"
    and dist: "distinct (concat (map dataOf us))" using assms(1) by (auto simp: soundWith_def)
  have len: "length ps = length (pfData f)" using ps(1) by (simp add: dataOk_def)
  have "dataOk J W (ps @ [page]) f'" using ps(1,2) Inr by (auto simp: dataOk_def new nth_append less_Suc_eq)
  moreover have "fileTaskOk J W (ps @ [page]) (pfData f') t'" using ps(2) Inr len by (simp add: new nth_append)
  moreover have "\<forall>u \<in> set us. fileTaskOk J W (ps @ [page]) (pfData f') u"
    using ps(3) taskOk_created [OF _ len] by (simp add: new)
  moreover have "length (pfData f) \<notin> set (dataOf u)" if "u \<in> set us" for u
    using dataOf_below [of J W ps "pfData f" u] ps(3) that by blast
  ultimately show ?thesis using dist unfolding soundWith_def by (auto simp: new)
qed

lemma pieceStep_sound:
  assumes "soundWith J W us (Writing page v i off) f" "pieceStep n page v i off f = (t', f')"
  shows "soundWith J W us t' f'"
proof (cases "length v \<le> off")
  case True
  with assms show ?thesis by (auto simp: pieceStep_def intro: soundWith_quiet)
next
  case False
  let ?k = "length (take (Suc n) (drop off v))"
  obtain ps where ps: "dataOk J W ps f" "\<forall>u \<in> set us. fileTaskOk J W ps (pfData f) u"
    and task: "i < length (pfData f)" "marshalPage J page = Inr v" "ps ! i = page" "W page" "off \<le> length v"
      "pfData f ! i = take off v"
    and dist: "i \<notin> set (concat (map dataOf us))" "distinct (concat (map dataOf us))"
    using assms(1) by (auto simp: soundWith_def)
  have new: "t' = Writing page v i (off + ?k)" "f' = f\<lparr>pfData := (pfData f)[i := take (off + ?k) v]\<rparr>"
    using task(5,6) False assms(2) by (auto simp: pieceStep_def Let_def overwriteAt_next)
  have "dataOk J W ps f'" using ps(1) task by (auto simp: dataOk_def new nth_list_update take_is_prefix)
  moreover have "fileTaskOk J W ps (pfData f') t'" using task by (simp add: new)
  moreover have "\<forall>u \<in> set us. fileTaskOk J W ps (pfData f') u" using ps(2) dist(1) taskOk_written by (simp add: new)
  ultimately show ?thesis using dist unfolding soundWith_def by (auto simp: new)
qed

lemma fileTurn_sound:
  assumes "codec_ok J" "codec_whole J" "\<forall>page. W page \<longrightarrow> asciiHeader (pageHeader page)"
    and "soundWith J W us t f" "fileTurn J n t f = (t', f')" "\<not> (\<exists>page. t = WStart page \<and> pfName f \<noteq> None)"
  shows "soundWith J W us t' f'"
proof (cases t)
  case (WStart page)
  with assms(4-6) show ?thesis by (auto intro: createStep_sound)
next
  case (Writing page v i off)
  with assms(4,5) show ?thesis by (auto intro: pieceStep_sound)
next
  case RStart
  with assms(5) have new: "f' = f" "t' = openStep f" by auto
  show ?thesis unfolding new
    by (rule soundWith_quiet [OF assms(4)]) (fastforce simp: openStep_def dataOk_def split: option.splits)+
next
  case (Reading i got)
  with assms(5) have new: "f' = f" "t' = chunkStep J n i got f" by auto
  show ?thesis unfolding new
    by (rule soundWith_quiet [OF assms(4)])
      (use chunkStep_ok [OF assms(1,2) _ _ assms(3)] Reading in \<open>auto simp: chunkStep_def Let_def\<close>)
qed (use assms(4,5) in simp_all)

lemma fileTaskOk_mono: "fileTaskOk J W ps ds t \<Longrightarrow> (\<And>page. W page \<Longrightarrow> W' page) \<Longrightarrow> fileTaskOk J W' ps ds t"
  by (cases t) auto

lemma fileOk_more:
  assumes "fileOk J (ts, f)" "dataOf t = []" "\<And>W ps. (\<forall>page. pageOf t = Some page \<longrightarrow> W page) \<Longrightarrow> fileTaskOk J W ps (pfData f) t"
    and "\<forall>page. pageOf t = Some page \<longrightarrow> asciiHeader (pageHeader page)"
  shows "fileOk J (ts @ [t], f)"
proof -
  obtain ps where ps: "dataOk J (toWrite ts) ps f" "\<forall>u \<in> set ts. fileTaskOk J (toWrite ts) ps (pfData f) u"
    using assms(1) by (auto simp: fileOk_def)
  have "\<forall>page. pageOf t = Some page \<longrightarrow> toWrite (ts @ [t]) page" using assms(4) by (auto simp: toWrite_def)
  then have "fileTaskOk J (toWrite (ts @ [t])) ps (pfData f) t" by (rule assms(3))
  moreover have "dataOk J (toWrite (ts @ [t])) ps f" using ps(1) toWrite_more unfolding dataOk_def by blast
  moreover have "\<forall>u \<in> set ts. fileTaskOk J (toWrite (ts @ [t])) ps (pfData f) u"
    using ps(2) fileTaskOk_mono [of J "toWrite ts" ps "pfData f" _ "toWrite (ts @ [t])"] toWrite_more by blast
  moreover have "distinct (concat (map dataOf (ts @ [t])))" using assms(1,2) by (auto simp: fileOk_def)
  ultimately show ?thesis unfolding fileOk_def prod.case by auto
qed

lemma fileRun_ok:
  assumes "codec_ok J" "codec_whole J" "fileRun J False tf tf'" "fileOk J tf"
  shows "fileOk J tf'"
  using assms(3)
proof cases
  case (insert page ts f)
  with assms(4) show ?thesis by (auto intro: fileOk_more)
next
  case (lookup ts f)
  with assms(4) show ?thesis by (auto intro: fileOk_more)
next
  case (remove ts f)
  with assms(4) show ?thesis by (auto simp: fileOk_def dataOk_def)
next
  case (refused xs page ys f e)
  have "toWrite (xs @ WEnded page (Some e) # ys) = toWrite (xs @ WStart page # ys)" by (rule toWrite_same) simp
  with assms(4) refused show ?thesis by (auto simp: fileOk_soundWith intro: soundWith_quiet)
next
  case (unopened xs ys f e)
  have "toWrite (xs @ RDone (Inl e) # ys) = toWrite (xs @ RStart # ys)" by (rule toWrite_same) simp
  with assms(4) unopened show ?thesis by (auto simp: fileOk_soundWith intro: soundWith_quiet)
next
  case (cut xs i got ys f)
  let ?W = "toWrite (xs @ Reading i got # ys)"
  have same: "toWrite (xs @ RDone (unmarshalPage J got) # ys) = ?W" by (rule toWrite_same) simp
  have "soundWith J ?W (xs @ ys) (Reading i got) f" using assms(4) cut(1) by (simp only: fileOk_soundWith)
  then have "soundWith J ?W (xs @ ys) (RDone (unmarshalPage J got)) f"
    by (rule soundWith_quiet [OF _ _ decoded_ok [OF assms(1,2)]]) (simp_all add: toWrite_def)
  then show ?thesis unfolding cut(2) fileOk_soundWith same .
next
  case (fail xs page v i off ys f e)
  have "toWrite (xs @ WEnded page (Some e) # ys) = toWrite (xs @ Writing page v i off # ys)"
    by (rule toWrite_same) simp
  with assms(4) fail show ?thesis by (auto simp: fileOk_soundWith intro: soundWith_quiet)
next
  case (turn n t f t' f' xs ys)
  have "toWrite (xs @ t' # ys) = toWrite (xs @ t # ys)" by (rule toWrite_same [OF pageOf_turn [OF turn(3)]])
  moreover have "\<forall>page. toWrite (xs @ t # ys) page \<longrightarrow> asciiHeader (pageHeader page)" by (simp add: toWrite_def)
  ultimately show ?thesis
    using fileTurn_sound [OF assms(1,2) _ _ turn(3)] assms(4) turn(1,2,4) by (auto simp: fileOk_soundWith)
qed

interpretation page_file: stable_relation "fileRun J False" "\<lambda>tf. codec_ok J \<and> codec_whole J \<and> fileOk J tf" for J
  by unfold_locales (auto intro: fileRun_ok)

lemma fileOk_noFile: "fileOk J ([], noFile)"
  by (simp add: fileOk_def dataOk_def noFile_def)

text \<open>C21: Reading a page file while others insert, look up and remove. As long as a file is not created again
  while it exists, a lookup that decodes a page from the file decodes one, with ASCII headers, that was given to be
  written to it, although the writer may still be in the middle of the file or fail there, the reading may
  fail, and the file may be removed and a new one made meanwhile: what a reader gets is a prefix of one encoded
  page, and no proper prefix of one decodes.\<close>
theorem page_read_whole:
  assumes "codec_ok J" "codec_whole J" "(fileRun J False)\<^sup>*\<^sup>* ([], noFile) (ts, f)" "RDone (Inr page) \<in> set ts"
  shows "\<exists>t \<in> set ts. pageOf t = Some page"
proof -
  have "fileOk J (ts, f)" using page_file.reachable [OF assms(3)] assms(1,2) fileOk_noFile by blast
  then obtain ps where "fileTaskOk J (toWrite ts) ps (pfData f) (RDone (Inr page))" using assms(4) by (auto simp: fileOk_def)
  then show ?thesis by (auto simp: toWrite_def)
qed

section \<open>Files that are written again\<close>

lemmas file_then = converse_rtranclp_into_rtranclp [of "fileRun J again" for J again]
  and file_trans = rtranclp_trans [of "fileRun J again" for J again]

lemma reading_alone:
  assumes "CHR 0x00 \<notin> set (pfData f ! i)"
  shows "(fileRun J again)\<^sup>*\<^sup>* (xs @ Reading i got # ys, f)
    (xs @ RDone (unmarshalPage J (got @ drop (length got) (pfData f ! i))) # ys, f)"
proof (induction "length (pfData f ! i) - length got" arbitrary: got rule: less_induct)
  case less
  let ?d = "pfData f ! i" and ?c = "bufferSize - length got mod bufferSize"
  have "0 < ?c" by (simp add: bufferSize_def)
  show ?case
  proof (cases "length ?d \<le> length got")
    case True
    then have "fileTurn J bufferSize (Reading i got) f = (RDone (unmarshalPage J (got @ drop (length got) ?d)), f)"
      by (simp add: chunkStep_def)
    from fileRun.turn [OF this] show ?thesis by (simp add: r_into_rtranclp)
  next
    case False
    let ?chunk = "take ?c (drop (length got) ?d)"
    have chunk: "?chunk \<noteq> []" "CHR 0x00 \<notin> set ?chunk"
      using False \<open>0 < ?c\<close> assms by (auto dest: in_set_takeD in_set_dropD)
    then have "fileTurn J bufferSize (Reading i got) f = (Reading i (got @ ?chunk), f)" by (simp add: chunkStep_def Let_def)
    from fileRun.turn [OF this] have 1: "fileRun J again (xs @ Reading i got # ys, f) (xs @ Reading i (got @ ?chunk) # ys, f)"
      by simp
    have same: "(got @ ?chunk) @ drop (length (got @ ?chunk)) ?d = got @ drop (length got) ?d"
      by (simp add: min_def) (metis append_take_drop_id drop_drop add.commute)
    have "length ?d - length (got @ ?chunk) < length ?d - length got" using False \<open>0 < ?c\<close> by simp
    from less [OF this] show ?thesis unfolding same by (rule file_then [OF 1])
  qed
qed

text \<open>The file after all of a write.\<close>

definition filled :: "bytes \<Rightarrow> pageFile \<Rightarrow> pageFile" where
  "filled v f =
     (case pfName f of
        Some i \<Rightarrow> f\<lparr>pfData := (pfData f)[i := v]\<rparr>
      | None \<Rightarrow> \<lparr>pfData = pfData f @ [v], pfName = Some (length (pfData f))\<rparr>)"

lemma writing_alone:
  assumes "i < length (pfData f)" "pfData f ! i = []"
  shows "(fileRun J again)\<^sup>*\<^sup>* (xs @ Writing page v i 0 # ys, f) (xs @ WEnded page None # ys, f\<lparr>pfData := (pfData f)[i := v]\<rparr>)"
proof (cases "v = []")
  case True
  have "(pfData f)[i := v] = pfData f" using assms(2) list_update_id [of "pfData f" i] by (simp add: True)
  then have "fileTurn J 0 (Writing page v i 0) f = (WEnded page None, f\<lparr>pfData := (pfData f)[i := v]\<rparr>)"
    by (simp add: pieceStep_def True)
  from fileRun.turn [OF this] show ?thesis by (simp add: r_into_rtranclp)
next
  case False
  let ?f = "f\<lparr>pfData := (pfData f)[i := v]\<rparr>"
  have "fileTurn J (length v) (Writing page v i 0) f = (Writing page v i (length v), ?f)"
    using assms False by (simp add: pieceStep_def overwriteAt_def)
  from fileRun.turn [OF this] have 1: "fileRun J again (xs @ Writing page v i 0 # ys, f) (xs @ Writing page v i (length v) # ys, ?f)"
    by simp
  have "fileTurn J 0 (Writing page v i (length v)) ?f = (WEnded page None, ?f)" by (simp add: pieceStep_def)
  from fileRun.turn [OF this] have "fileRun J again (xs @ Writing page v i (length v) # ys, ?f) (xs @ WEnded page None # ys, ?f)"
    by simp
  from r_into_rtranclp [of "fileRun J again", OF this] show ?thesis by (rule file_then [OF 1])
qed

lemma insert_alone:
  assumes "marshalPage J page = Inr v" "asciiHeader (pageHeader page)" "again \<or> pfName f = None"
    and "\<forall>i. pfName f = Some i \<longrightarrow> i < length (pfData f)"
  shows "(fileRun J again)\<^sup>*\<^sup>* (ts, f) (ts @ [WEnded page None], filled v f)"
proof -
  obtain i f1 where 1: "createStep J page f = (Writing page v i 0, f1)" "i < length (pfData f1)" "pfData f1 ! i = []"
    "f1\<lparr>pfData := (pfData f1)[i := v]\<rparr> = filled v f"
    using assms(1,4) by (cases "pfName f") (auto simp: createStep_def filled_def)
  have "fileRun J again (ts @ [WStart page], f) (ts @ [Writing page v i 0], f1)"
    using fileRun.turn [of J 0 "WStart page" f _ f1 again ts "[]"] 1(1) assms(3) by auto
  from file_then [OF this writing_alone [OF 1(2,3), where ys = "[]"]]
  have "(fileRun J again)\<^sup>*\<^sup>* (ts @ [WStart page], f) (ts @ [WEnded page None], filled v f)" using 1(4) by simp
  then show ?thesis by (rule file_then [OF fileRun.insert [OF assms(2)]])
qed

text \<open>C22: A page file that is written again while it is being read. An insertion under a key that is cached
  creates the file of the page again and so empties the data a lookup has open. When the lookup
  has read the first chunk of one page and goes on after the second page has been written, it
  gets the beginning of the one and the rest of the other; when that is the encoding of a third
  page, as of two bodies of the same length it is, the lookup returns this page, which nobody has
  inserted.\<close>
theorem torn_page:
  assumes "codec_ok J" "marshalPage J page1 = Inr v1" "marshalPage J page2 = Inr v2"
    and "marshalPage J page3 = Inr (take bufferSize v1 @ drop bufferSize v2)"
    and "asciiHeader (pageHeader page1)" "asciiHeader (pageHeader page2)" "asciiHeader (pageHeader page3)"
    and "bufferSize < length v1" "take bufferSize v1 \<noteq> take bufferSize v2" "drop bufferSize v1 \<noteq> drop bufferSize v2"
  shows "\<exists>f. (fileRun J True)\<^sup>*\<^sup>* ([], noFile) ([WEnded page1 None, RDone (Inr page3), WEnded page2 None], f) \<and>
    page3 \<noteq> page1 \<and> page3 \<noteq> page2"
proof -
  let ?v3 = "take bufferSize v1 @ drop bufferSize v2" and ?got = "take bufferSize v1"
  let ?f1 = "filled v1 noFile" and ?f2 = "filled v2 (filled v1 noFile)"
  have dec: "unmarshalPage J ?v3 = Inr page3" "CHR 0x00 \<notin> set v1" "CHR 0x00 \<notin> set v2"
    using assms(1-7) unfolding codec_ok_def by blast+
  have files: "pfData ?f1 = [v1]" "pfName ?f1 = Some 0" "pfData ?f2 = [v2]" by (simp_all add: filled_def noFile_def)
  have first: "(fileRun J True)\<^sup>*\<^sup>* ([], noFile) ([WEnded page1 None], ?f1)"
    using insert_alone [OF assms(2,5), of True noFile "[]"] by (simp add: noFile_def)
  have "fileTurn J 0 RStart ?f1 = (Reading 0 [], ?f1)" by (simp add: openStep_def files)
  from fileRun.turn [OF this, of True "[WEnded page1 None]" "[]"]
  have opened: "fileRun J True ([WEnded page1 None, RStart], ?f1) ([WEnded page1 None, Reading 0 []], ?f1)" by simp
  have "?got \<noteq> []" "CHR 0x00 \<notin> set ?got"
    using assms(8) dec(2) by (auto simp: bufferSize_def dest: in_set_takeD)
  then have "fileTurn J bufferSize (Reading 0 []) ?f1 = (Reading 0 ?got, ?f1)" by (simp add: chunkStep_def files Let_def)
  from fileRun.turn [OF this, of True "[WEnded page1 None]" "[]"]
  have read: "fileRun J True ([WEnded page1 None, Reading 0 []], ?f1) ([WEnded page1 None, Reading 0 ?got], ?f1)" by simp
  have second: "(fileRun J True)\<^sup>*\<^sup>* ([WEnded page1 None, Reading 0 ?got], ?f1)
      ([WEnded page1 None, Reading 0 ?got, WEnded page2 None], ?f2)"
    using insert_alone [OF assms(3,6), of True ?f1 "[WEnded page1 None, Reading 0 ?got]"] by (simp add: files)
  have rest: "(fileRun J True)\<^sup>*\<^sup>* ([WEnded page1 None, Reading 0 ?got, WEnded page2 None], ?f2)
      ([WEnded page1 None, RDone (Inr page3), WEnded page2 None], ?f2)"
    using reading_alone [of ?f2 0 J True "[WEnded page1 None]" ?got "[WEnded page2 None]"] assms(8) dec(1,3)
    by (simp add: files min_def)
  have "fileRun J True ([WEnded page1 None], ?f1) ([WEnded page1 None, RStart], ?f1)"
    using fileRun.lookup [of J True "[WEnded page1 None]" ?f1] by simp
  from file_trans [OF first file_then [OF this file_then [OF opened file_then [OF read file_trans [OF second rest]]]]]
  have "(fileRun J True)\<^sup>*\<^sup>* ([], noFile) ([WEnded page1 None, RDone (Inr page3), WEnded page2 None], ?f2)" .
  moreover have "?v3 \<noteq> v1" "?v3 \<noteq> v2" using assms(9,10) by (metis append_take_drop_id same_append_eq append_same_eq)+
  then have "page3 \<noteq> page1" "page3 \<noteq> page2" using assms(2-4) by auto
  ultimately show ?thesis by blast
qed

section \<open>Witnesses\<close>

text \<open>The encoding of \<open>RefEnv\<close> with a closing brace.\<close>

definition closedCodec :: codec where
  "closedCodec = refCodec
     \<lparr>marshalPage := \<lambda>p. map_sum id (\<lambda>v. v @ ''}'') (refMarshalPage p),
      unmarshalPage := \<lambda>s. if s \<noteq> [] \<and> last s = CHR ''}'' then refUnmarshalPage (butlast s)
        else Inl (ErrMsg ''unexpected end of JSON input'')\<rparr>"

lemma brace_fresh: "CHR ''}'' \<notin> set (hexEncode s)"
  using hexEncode_codes [of "CHR ''}''" s] by auto

lemma refMarshalPage_no_brace: "refMarshalPage p = Inr v \<Longrightarrow> CHR ''}'' \<notin> set v"
  by (auto simp: refMarshalPage_def brace_fresh dest!: set_terminated)

lemma closed_simps:
  "marshalPage closedCodec p = Inr v \<longleftrightarrow> (\<exists>u. refMarshalPage p = Inr u \<and> v = u @ ''}'')"
  "unmarshalPage closedCodec (u @ ''}'') = refUnmarshalPage u"
  "marshalMeta closedCodec = refMarshalMeta" "unmarshalMeta closedCodec = refUnmarshalMeta"
  by (cases "refMarshalPage p"; auto simp: closedCodec_def)+

lemma codec_ok_closed: "codec_ok closedCodec"
proof -
  have "\<exists>u. refMarshalPage p = Inr u" for p by (simp add: refMarshalPage_def)
  with codec_ok_ref show ?thesis
    unfolding codec_ok_def closed_simps refCodec_simps by (auto simp: closed_simps)
qed

lemma codec_whole_closed: "codec_whole closedCodec"
  unfolding codec_whole_def
proof (intro allI impI, elim conjE)
  fix page v k p
  assume "marshalPage closedCodec page = Inr v" "k < length v"
  then obtain u where u: "refMarshalPage page = Inr u" "v = u @ ''}''" "k \<le> length u"
    by (auto simp: closed_simps)
  then have "CHR ''}'' \<notin> set (take k u)" using refMarshalPage_no_brace by (auto dest: in_set_takeD)
  then have "take k u = [] \<or> last (take k u) \<noteq> CHR ''}''" using last_in_set by metis
  with u show "unmarshalPage closedCodec (take k v) \<noteq> Inr p" by (auto simp: closedCodec_def)
qed

lemma asciiHeader_refPage: "asciiHeader (pageHeader (refPage b))"
  by (simp add: asciiHeader_def)

theorem page_read_whole_witness:
  "\<exists>f. (fileRun closedCodec False)\<^sup>*\<^sup>* ([], noFile) ([WEnded (refPage ''hi'') None, RDone (Inr (refPage ''hi''))], f) \<and>
     (\<exists>t \<in> {WEnded (refPage ''hi'') None, RDone (Inr (refPage ''hi''))}. pageOf t = Some (refPage ''hi''))"
proof -
  let ?page = "refPage ''hi''" and ?J = closedCodec
  obtain v where v: "marshalPage ?J ?page = Inr v" "unmarshalPage ?J v = Inr ?page" "CHR 0x00 \<notin> set v" "asciiHeader (pageHeader ?page)"
    using codec_ok_closed unfolding codec_ok_def by (metis asciiHeader_refPage)
  let ?f = "filled v noFile"
  have "(fileRun ?J False)\<^sup>*\<^sup>* ([], noFile) ([WEnded ?page None], ?f)"
    using insert_alone [OF v(1,4), of False noFile "[]"] by (simp add: noFile_def)
  moreover have "fileRun ?J False ([WEnded ?page None], ?f) ([WEnded ?page None, RStart], ?f)"
    using fileRun.lookup [of ?J False "[WEnded ?page None]" ?f] by simp
  moreover have "fileRun ?J False ([WEnded ?page None, RStart], ?f) ([WEnded ?page None, Reading 0 []], ?f)"
    using fileRun.turn [of ?J 0 RStart ?f "Reading 0 []" ?f False "[WEnded ?page None]" "[]"]
    by (simp add: openStep_def filled_def noFile_def)
  moreover have "(fileRun ?J False)\<^sup>*\<^sup>* ([WEnded ?page None, Reading 0 []], ?f) ([WEnded ?page None, RDone (Inr ?page)], ?f)"
    using reading_alone [of ?f 0 ?J False "[WEnded ?page None]" "[]" "[]"] v(2,3) by (simp add: filled_def noFile_def)
  ultimately have run: "(fileRun ?J False)\<^sup>*\<^sup>* ([], noFile) ([WEnded ?page None, RDone (Inr ?page)], ?f)"
    by (blast intro: file_trans file_then)
  with page_read_whole [OF codec_ok_closed codec_whole_closed run] show ?thesis by auto
qed

text \<open>Two bodies of 70000 bytes and the body with the beginning of the one and the rest of the other.\<close>

lemma marshal_body:
  "marshalPage closedCodec (refPage b) = Inr (hexEncode b @ ''.}'')"
  by (simp add: closed_simps refMarshalPage_def terminated_def)

lemma hexEncode_append: "hexEncode (a @ b) = hexEncode a @ hexEncode b"
  by (simp add: hexEncode_def)

lemma hexEncode_letters: "0 < n \<Longrightarrow> hexEncode (replicate n CHR ''a'') \<noteq> hexEncode (replicate n CHR ''b'')"
  by (cases n) (auto simp: hexEncode_def hexDigit_def)

theorem torn_page_witness:
  "\<exists>f. (fileRun closedCodec True)\<^sup>*\<^sup>* ([], noFile)
     ([WEnded (refPage (replicate 65536 CHR ''a'' @ replicate 4464 CHR ''a'')) None,
       RDone (Inr (refPage (replicate 65536 CHR ''a'' @ replicate 4464 CHR ''b''))),
       WEnded (refPage (replicate 65536 CHR ''b'' @ replicate 4464 CHR ''b'')) None], f)"
proof -
  define m k :: nat where "m = 65536" and "k = 4464"
  have m: "bufferSize = 2 * m" "0 < m" "0 < k" by (simp_all add: m_def k_def bufferSize_def)
  let ?body = "\<lambda>c d. replicate m c @ replicate k d"
  have parts: "take bufferSize (hexEncode (?body c d) @ ''.}'') = hexEncode (replicate m c)"
    "drop bufferSize (hexEncode (?body c d) @ ''.}'') = hexEncode (replicate k d) @ ''.}''" for c d
    by (simp_all add: hexEncode_append m(1))
  have mixed: "marshalPage closedCodec (refPage (?body CHR ''a'' CHR ''b'')) =
      Inr (take bufferSize (hexEncode (?body CHR ''a'' CHR ''a'') @ ''.}'') @
        drop bufferSize (hexEncode (?body CHR ''b'' CHR ''b'') @ ''.}''))"
    unfolding parts by (simp add: marshal_body hexEncode_append)
  have "bufferSize < length (hexEncode (?body CHR ''a'' CHR ''a'') @ ''.}'')" by (simp add: m(1))
  note torn_page [OF codec_ok_closed marshal_body marshal_body mixed asciiHeader_refPage asciiHeader_refPage
      asciiHeader_refPage this]
  then show ?thesis
    unfolding m_def [symmetric] k_def [symmetric] parts using hexEncode_letters m(2,3) by simp
qed

end
