(* ===== verification/AuthSteps.thy ===== *)
theory AuthSteps
  imports AuthProps
begin

text \<open>
  The handlers of \<open>auth/auth.go\<close> cut where goroutines interleave: net/http runs one per request, and
  what they share is the user database and the mail server. A database transaction with the local
  work before it is one step, a mail another. Undisturbed, the steps of a request come to what its
  handler in \<open>Auth\<close> computes in one go.
\<close>

section \<open>Steps\<close>

text \<open>A request with what it will meet of the outside.\<close>

datatype authOp =
    OpSignUp authWorld request
  | OpSignIn authWorld request
  | OpChange authWorld request
  | OpDelete request

text \<open>
  What a goroutine has still to do: everything, mail the password of an account it created, store a
  salt and a hash, read the address of the account, mail a note to it, or nothing.
\<close>

datatype authTask =
    Arrived authOp rwriter
  | MailUp authWorld SignUpUser string rwriter
  | SetPassword authWorld string string string rwriter
  | ReadAddress authWorld string rwriter
  | MailChanged authWorld string rwriter
  | Answered "unit res" rwriter

fun ended :: "unit res \<times> rwriter \<times> 's \<Rightarrow> authTask \<times> 's" where
  "ended (x, w, s) = (Answered x w, s)"

definition signUpStep ::
  "authLib \<Rightarrow> 'db bolt \<Rightarrow> authWorld \<Rightarrow> rwriter \<Rightarrow> request \<Rightarrow> 'db authState \<Rightarrow> authTask \<times> 'db authState" where
  "signUpStep A B W w r s =
     (if reqMethod r \<noteq> ''POST'' then ended (reply 405 w s)
      else case decodeSignUp (reqBody r) of
        (Some e, _) \<Rightarrow> ended (replyError (errText e) 400 w s)
      | (None, user) \<Rightarrow>
          if \<not> validSignUp A user then ended (replyError signUpValidationError 400 w s)
          else case generateRandomPassword W 0 of
            Inl e \<Rightarrow> ended (reply 500 w s)
          | Inr password \<Rightarrow>
              (case generateSalt W 1 of
                 Inl e \<Rightarrow> ended (reply 500 w s)
               | Inr salt \<Rightarrow>
                   (case awBcrypt W (password @ salt) of
                      Inl e \<Rightarrow> ended (reply 500 w s)
                    | Inr hsh \<Rightarrow>
                        (case InsertUser B (suUsername user) salt hsh (suEmail user) (asDb s) of
                           (Panic m, db) \<Rightarrow> (Answered (Panic m) w, s\<lparr>asDb := db\<rparr>)
                         | (Err e, db) \<Rightarrow>
                             if errors_is e ErrBucketExists
                             then ended (replyError ''User already exists'' 409 w (s\<lparr>asDb := db\<rparr>))
                             else ended (reply 500 w (s\<lparr>asDb := db\<rparr>))
                         | (Ok (), db) \<Rightarrow> (MailUp W user password w, s\<lparr>asDb := db\<rparr>)))))"

definition mailUpStep ::
  "authService \<Rightarrow> authWorld \<Rightarrow> SignUpUser \<Rightarrow> string \<Rightarrow> rwriter \<Rightarrow> 'db authState \<Rightarrow> authTask \<times> 'db authState" where
  "mailUpStep svc W user password w s =
     (case SendSignUpEmail (awPost W) (asSender svc) (suEmail user) (suUsername user) password (asOutbox s) of
        (Some e, out) \<Rightarrow> ended (reply 500 w (s\<lparr>asOutbox := out\<rparr>))
      | (None, out) \<Rightarrow> ended (reply 201 w (s\<lparr>asOutbox := out\<rparr>)))"

definition changeStep ::
  "authLib \<Rightarrow> 'db bolt \<Rightarrow> authWorld \<Rightarrow> rwriter \<Rightarrow> request \<Rightarrow> 'db authState \<Rightarrow> authTask \<times> 'db authState" where
  "changeStep A B W w r s =
     (if reqMethod r \<noteq> ''PATCH'' then ended (reply 405 w s)
      else case decodeChange (reqBody r) of
        (Some e, _) \<Rightarrow> ended (reply 400 w s)
      | (None, user) \<Rightarrow>
          if \<not> validChange A user then ended (replyError changePasswordError 422 w s)
          else case ctxUser r of
            None \<Rightarrow> ended (reply 500 w s)
          | Some username \<Rightarrow>
              if \<not> isAuthorized A B username (cpOldPassword user) (asDb s) then ended (reply 401 w s)
              else case generateSalt W 0 of
                Inl e \<Rightarrow> ended (reply 500 w s)
              | Inr salt \<Rightarrow>
                  (case awBcrypt W (cpNewPassword user @ salt) of
                     Inl e \<Rightarrow> ended (reply 500 w s)
                   | Inr hsh \<Rightarrow> (SetPassword W username salt hsh w, s)))"

definition setPasswordStep ::
  "'db bolt \<Rightarrow> authWorld \<Rightarrow> string \<Rightarrow> string \<Rightarrow> string \<Rightarrow> rwriter \<Rightarrow> 'db authState \<Rightarrow> authTask \<times> 'db authState" where
  "setPasswordStep B W username salt hsh w s =
     (case dbChangePassword B username salt hsh (asDb s) of
        (Panic m, db) \<Rightarrow> (Answered (Panic m) w, s\<lparr>asDb := db\<rparr>)
      | (Err e, db) \<Rightarrow> ended (reply 500 w (s\<lparr>asDb := db\<rparr>))
      | (Ok (), db) \<Rightarrow> (ReadAddress W username w, s\<lparr>asDb := db\<rparr>))"

definition readAddressStep ::
  "'db bolt \<Rightarrow> authWorld \<Rightarrow> string \<Rightarrow> rwriter \<Rightarrow> 'db authState \<Rightarrow> authTask \<times> 'db authState" where
  "readAddressStep B W username w s =
     (case GetEmail B username (asDb s) of
        Panic m \<Rightarrow> (Answered (Panic m) w, s)
      | Err e \<Rightarrow> ended (reply 500 w s)
      | Ok emailAddress \<Rightarrow> (MailChanged W emailAddress w, s))"

definition mailChangedStep ::
  "authService \<Rightarrow> authWorld \<Rightarrow> string \<Rightarrow> rwriter \<Rightarrow> 'db authState \<Rightarrow> authTask \<times> 'db authState" where
  "mailChangedStep svc W emailAddress w s =
     (case SendChangedPasswordEmail (awPost W) (asSender svc) emailAddress (asOutbox s) of
        (Some e, out) \<Rightarrow> ended (reply 500 w (s\<lparr>asOutbox := out\<rparr>))
      | (None, out) \<Rightarrow> ended (reply 200 w (s\<lparr>asOutbox := out\<rparr>)))"

text \<open>A sign-in reads the database once and a deletion is one transaction: one step each.\<close>

fun authTurn ::
  "authLib \<Rightarrow> 'db bolt \<Rightarrow> authService \<Rightarrow> authTask \<Rightarrow> 'db authState \<Rightarrow> authTask \<times> 'db authState" where
  "authTurn A B svc (Arrived (OpSignUp W r) w) s = signUpStep A B W w r s"
| "authTurn A B svc (Arrived (OpSignIn W r) w) s = ended (SignIn A B svc W w r s)"
| "authTurn A B svc (Arrived (OpChange W r) w) s = changeStep A B W w r s"
| "authTurn A B svc (Arrived (OpDelete r) w) s = ended (DeleteUser A B w r s)"
| "authTurn A B svc (MailUp W user password w) s = mailUpStep svc W user password w s"
| "authTurn A B svc (SetPassword W u salt hsh w) s = setPasswordStep B W u salt hsh w s"
| "authTurn A B svc (ReadAddress W u w) s = readAddressStep B W u w s"
| "authTurn A B svc (MailChanged W to w) s = mailChangedStep svc W to w s"
| "authTurn A B svc (Answered x w) s = (Answered x w, s)"

section \<open>Undisturbed, the steps are the handlers\<close>

fun handle ::
  "authLib \<Rightarrow> 'db bolt \<Rightarrow> authService \<Rightarrow> authOp \<Rightarrow> rwriter \<Rightarrow> 'db authState \<Rightarrow> unit res \<times> rwriter \<times> 'db authState" where
  "handle A B svc (OpSignUp W r) w s = SignUp A B svc W w r s"
| "handle A B svc (OpSignIn W r) w s = SignIn A B svc W w r s"
| "handle A B svc (OpChange W r) w s = ChangePassword A B svc W w r s"
| "handle A B svc (OpDelete r) w s = DeleteUser A B w r s"

definition turns ::
  "authLib \<Rightarrow> 'db bolt \<Rightarrow> authService \<Rightarrow> nat \<Rightarrow> authTask \<times> 'db authState \<Rightarrow> authTask \<times> 'db authState" where
  "turns A B svc n = (\<lambda>(t, s). authTurn A B svc t s) ^^ n"

lemma turns_Suc: "turns A B svc (Suc n) (t, s) = turns A B svc n (authTurn A B svc t s)"
  by (simp only: turns_def funpow_Suc_right o_apply case_prod_conv)

lemma turns_0: "turns A B svc 0 ts = ts"
  by (simp add: turns_def)

lemma turns_Answered [simp]: "turns A B svc n (Answered x w, s) = (Answered x w, s)"
  by (induction n) (simp_all add: turns_0 turns_Suc)

lemma turns_ended [simp]: "turns A B svc n (ended xws) = ended xws"
  by (cases xws) simp

lemma turns_mailUp:
  "turns A B svc (Suc n) (MailUp W user password w, s) =
     ended (case SendSignUpEmail (awPost W) (asSender svc) (suEmail user) (suUsername user) password (asOutbox s) of
        (Some e, out) \<Rightarrow> reply 500 w (s\<lparr>asOutbox := out\<rparr>)
      | (None, out) \<Rightarrow> reply 201 w (s\<lparr>asOutbox := out\<rparr>))"
  by (simp add: turns_Suc mailUpStep_def split: prod.split option.split)

lemma turns_signUp: "turns A B svc (Suc (Suc n)) (Arrived (OpSignUp W r) w, s) = ended (SignUp A B svc W w r s)"
  by (auto simp: turns_Suc [of _ _ _ "Suc n"] turns_mailUp signUpStep_def SignUp_def registerUser_def
      split: option.split sum.split prod.split res.split)

lemma turns_setPassword:
  "turns A B svc (Suc (Suc (Suc n))) (SetPassword W u salt hsh w, s) = ended (storePassword B svc W u salt hsh w s)"
  by (auto simp: turns_Suc setPasswordStep_def readAddressStep_def mailChangedStep_def storePassword_def
      split: option.split prod.split res.split)

lemma turns_change:
  "turns A B svc (Suc (Suc (Suc (Suc n)))) (Arrived (OpChange W r) w, s) = ended (ChangePassword A B svc W w r s)"
  by (auto simp: turns_Suc [of _ _ _ "Suc (Suc (Suc n))"] turns_setPassword changeStep_def ChangePassword_def
      split: option.split sum.split prod.split)

lemma turns_other:
  "turns A B svc (Suc n) (Arrived (OpSignIn W r) w, s) = ended (SignIn A B svc W w r s)"
  "turns A B svc (Suc n) (Arrived (OpDelete r) w, s) = ended (DeleteUser A B w r s)"
  by (simp_all add: turns_Suc)

lemma turns_handle: "turns A B svc 4 (Arrived op w, s) = ended (handle A B svc op w s)"
proof -
  have "(4 :: nat) = Suc (Suc (Suc (Suc 0)))" by simp
  then show ?thesis
    by (cases op) (simp_all only: handle.simps turns_signUp turns_change turns_other)
qed

section \<open>What a step does\<close>

text \<open>What its surroundings promise a request, and what a goroutine has made sure of so far.\<close>

fun opOk :: "authLib \<Rightarrow> authOp \<Rightarrow> bool" where
  "opOk A (OpSignUp W r) \<longleftrightarrow> rand_ok W \<and> bcrypt_ok A W"
| "opOk A (OpSignIn W r) \<longleftrightarrow> True"
| "opOk A (OpChange W r) \<longleftrightarrow> rand_ok W \<and> bcrypt_ok A W"
| "opOk A (OpDelete r) \<longleftrightarrow> True"

definition openedBySome :: "authLib \<Rightarrow> string \<Rightarrow> string \<Rightarrow> bool" where
  "openedBySome A salt hsh \<longleftrightarrow> (\<exists>p. bcryptCompare A hsh (p @ salt) = None)"

fun taskOk :: "authLib \<Rightarrow> authTask \<Rightarrow> bool" where
  "taskOk A (Arrived op w) \<longleftrightarrow> openWriter w \<and> opOk A op"
| "taskOk A (MailUp W user password w) \<longleftrightarrow> openWriter w"
| "taskOk A (SetPassword W u salt hsh w) \<longleftrightarrow> openWriter w \<and> length salt = 28 \<and> openedBySome A salt hsh"
| "taskOk A (ReadAddress W u w) \<longleftrightarrow> openWriter w"
| "taskOk A (MailChanged W to w) \<longleftrightarrow> openWriter w"
| "taskOk A (Answered x w) \<longleftrightarrow> x = Ok () \<and> rwStatus w \<noteq> None"

text \<open>The operation of the database that a goroutine may perform in its next step.\<close>

fun writes :: "authLib \<Rightarrow> authTask \<Rightarrow> storeEvent \<Rightarrow> bool" where
  "writes A (Arrived (OpSignUp W r) w) e \<longleftrightarrow>
     reqMethod r = ''POST'' \<and>
     (\<exists>user password salt hsh. decodeSignUp (reqBody r) = (None, user) \<and> validSignUp A user \<and>
        madeSecrets W password salt hsh \<and>
        e = SInsert (suUsername user) \<lparr>acSalt = salt, acHash = hsh, acEmail = suEmail user\<rparr>)"
| "writes A (Arrived (OpDelete r) w) e \<longleftrightarrow> reqMethod r = ''DELETE'' \<and> e = SDelete (queryGet A (reqURL r) usernameKey)"
| "writes A (SetPassword W u salt hsh w) e \<longleftrightarrow> e = SChange u salt hsh"
| "writes A _ e \<longleftrightarrow> False"

text \<open>A step of a goroutine that is still as it should be leaves it so, sends at most one mail more,
  and changes the accounts only by an operation of the database that succeeds.\<close>

definition fairStep :: "authLib \<Rightarrow> 'db bolt \<Rightarrow> authTask \<Rightarrow> 'db authState \<Rightarrow> authTask \<times> 'db authState \<Rightarrow> bool" where
  "fairStep A B t s ts' \<longleftrightarrow>
     (case ts' of (t', s') \<Rightarrow>
        taskOk A t' \<and> (\<exists>ms. asOutbox s' = asOutbox s @ ms) \<and>
        (asDb s' = asDb s \<or> (\<exists>e. writes A t e \<and> performUser B e (asDb s) = (Ok (), asDb s'))))"

lemma taskOk_ended [simp]:
  "openWriter w \<Longrightarrow> fairStep A B t s (ended (reply c w s))"
  "openWriter w \<Longrightarrow> fairStep A B t s (ended (replyError m c w s))"
  by (simp_all add: reply_def replyError_def fairStep_def)

lemma fairStep_idle: "taskOk A t' \<Longrightarrow> fairStep A B t s (t', s)"
  by (simp add: fairStep_def)

lemma update_same [simp]: "s\<lparr>asDb := asDb s\<rparr> = s" "s\<lparr>asOutbox := asOutbox s\<rparr> = s"
  by simp_all

lemma fairStep_signUp:
  assumes "openWriter w" "rand_ok W" "bcrypt_ok A W"
  shows "fairStep A B (Arrived (OpSignUp W r) w) s (signUpStep A B W w r s)"
proof (cases "reqMethod r = ''POST'' \<and> (\<exists>user password salt hsh. decodeSignUp (reqBody r) = (None, user) \<and>
    validSignUp A user \<and> madeSecrets W password salt hsh)")
  case False
  with assms(1) show ?thesis
    by (auto simp: signUpStep_def madeSecrets_def split: option.split prod.split sum.split)
next
  case True
  then obtain user password salt hsh where form: "reqMethod r = ''POST''" "decodeSignUp (reqBody r) = (None, user)"
    "validSignUp A user" and made: "madeSecrets W password salt hsh" by blast
  show ?thesis
  proof (cases rule: InsertUser_outcome [of B "suUsername user" salt hsh "suEmail user" "asDb s"])
    case (done_ db')
    with form made assms(1) show ?thesis by (auto simp: signUpStep_def madeSecrets_def fairStep_def)
  next
    case (failed x)
    with form made assms(1) show ?thesis by (auto simp: signUpStep_def madeSecrets_def)
  qed
qed

lemma fairStep_change:
  assumes "openWriter w" "rand_ok W" "bcrypt_ok A W"
  shows "fairStep A B t s (changeStep A B W w r s)"
proof -
  have "openedBySome A salt hsh" if "awBcrypt W (p @ salt) = Inr hsh" for p salt hsh
    using that assms(3) unfolding bcrypt_ok_def openedBySome_def by blast
  then show ?thesis
    using assms(1) generateSalt_plain(1) [OF assms(2), of 0]
    by (auto simp: changeStep_def intro!: fairStep_idle split: option.split prod.split sum.split)
qed

lemma fairStep_setPassword:
  assumes "openWriter w"
  shows "fairStep A B (SetPassword W u salt hsh w) s (setPasswordStep B W u salt hsh w s)"
  using assms
  by (cases rule: dbChangePassword_outcome [of B u salt hsh "asDb s"]) (simp_all add: setPasswordStep_def fairStep_def [of _ _ _ _ "(ReadAddress _ _ _, _)"])

lemma fairStep_readAddress: "openWriter w \<Longrightarrow> fairStep A B t s (readAddressStep B W u w s)"
  using GetEmail_no_panic [of B u "asDb s"]
  by (auto simp: readAddressStep_def intro: fairStep_idle split: res.split)

lemma fairStep_mail:
  assumes "openWriter w"
  shows "fairStep A B t s (mailUpStep svc W user password w s)" "fairStep A B t s (mailChangedStep svc W to w s)"
proof -
  have "\<exists>ms. out = asOutbox s @ ms"
    if "SendSignUpEmail post sd to' u p (asOutbox s) = (None, out)" for post sd to' u p out
    using SendSignUpEmail_sent [OF that] by auto
  then show "fairStep A B t s (mailUpStep svc W user password w s)"
    using assms
    by (auto simp: mailUpStep_def fairStep_def reply_def split: prod.split option.split dest!: SendSignUpEmail_sent)
  have "\<exists>ms. out = asOutbox s @ ms"
    if "SendChangedPasswordEmail post sd to' (asOutbox s) = (None, out)" for post sd to' out
    using SendChangedPasswordEmail_sent [OF that] by auto
  then show "fairStep A B t s (mailChangedStep svc W to w s)"
    using assms
    by (auto simp: mailChangedStep_def fairStep_def reply_def split: prod.split option.split dest!: SendChangedPasswordEmail_sent)
qed

lemma fairStep_whole:
  assumes "openWriter w"
  shows "fairStep A B t s (ended (SignIn A B svc W w r s))"
    and "fairStep A B (Arrived (OpDelete r) w) s (ended (DeleteUser A B w r s))"
proof -
  obtain x w' s' where run: "SignIn A B svc W w r s = (x, w', s')" by (rule prod_cases3)
  from run assms show "fairStep A B t s (ended (SignIn A B svc W w r s))"
    by (cases rule: SignIn_cases) (auto simp: run fairStep_def assms)
next
  obtain x w' s' where run: "DeleteUser A B w r s = (x, w', s')" by (rule prod_cases3)
  from run assms show "fairStep A B (Arrived (OpDelete r) w) s (ended (DeleteUser A B w r s))"
    by (cases rule: DeleteUser_cases) (auto simp: run fairStep_def usernameKey_def)
qed

lemma authTurn_fair:
  assumes "taskOk A t"
  shows "fairStep A B t s (authTurn A B svc t s)"
proof (cases t)
  case (Arrived op w)
  with assms show ?thesis by (cases op) (simp_all add: fairStep_signUp fairStep_change fairStep_whole)
qed (use assms in \<open>simp_all add: fairStep_setPassword fairStep_readAddress fairStep_mail fairStep_idle\<close>)

end
