(* ===== verification/AuthRaces.thy ===== *)
theory AuthRaces
  imports AuthSteps
begin

text \<open>
  Requests to the authentication service at the same time, interleaved at the steps of \<open>AuthSteps\<close>:
  what holds of the accounts along every interleaving, and the password change that reaches an
  account it was not authorised for.
\<close>

section \<open>Interleaving\<close>

text \<open>A request may arrive at any time, and any goroutine may take its next step.\<close>

inductive authTogether ::
  "authLib \<Rightarrow> 'db bolt \<Rightarrow> authService \<Rightarrow> authTask list \<times> 'db authState \<Rightarrow> authTask list \<times> 'db authState \<Rightarrow> bool"
  for A B svc where
  arrive: "opOk A op \<Longrightarrow> openWriter w \<Longrightarrow> authTogether A B svc (ts, s) (ts @ [Arrived op w], s)"
| turn: "authTurn A B svc t s = (t', s') \<Longrightarrow> authTogether A B svc (xs @ t # ys, s) (xs @ t' # ys, s')"

inductive_cases authTogetherE [consumes 1, case_names arrive turn]: "authTogether A B svc (ts, s) (ts', s')"

lemma authTogether_turns:
  "(authTogether A B svc)\<^sup>*\<^sup>* (xs @ t # ys, s)
     (xs @ fst (turns A B svc n (t, s)) # ys, snd (turns A B svc n (t, s)))"
proof (induction n arbitrary: t s)
  case 0
  then show ?case by (simp add: turns_0)
next
  case (Suc n)
  obtain t' s' where go: "authTurn A B svc t s = (t', s')" by force
  then have "authTogether A B svc (xs @ t # ys, s) (xs @ t' # ys, s')" by (rule authTogether.turn)
  with Suc [of t' s'] go show ?case by (simp add: turns_Suc)
qed

section \<open>What every interleaving keeps\<close>

lemma wellFormed_written:
  assumes "bolt_ok B" "validator_ok A" "taskOk A t" "writes A t e" "wellFormedUsers A B db"
    and "performUser B e db = (Ok (), db')"
  shows "wellFormedUsers A B db'"
  using assms(4)
proof (cases rule: writes.elims(2))
  case (1 W r w)
  then obtain user password salt hsh where form: "validSignUp A user" "madeSecrets W password salt hsh"
    and e: "e = SInsert (suUsername user) \<lparr>acSalt = salt, acHash = hsh, acEmail = suEmail user\<rparr>"
    by blast
  have tag: "vTag A usernameTag (suUsername user) []" using form(1) by (simp add: validSignUp_def)
  have "rand_ok W" "bcrypt_ok A W" using assms(3) 1 by simp_all
  moreover from this have "length salt = 28" "awBcrypt W (password @ salt) = Inr hsh"
    using form(2) generateSalt_plain(1) by (auto simp: madeSecrets_def)
  ultimately show ?thesis
    using wellFormed_insert [OF assms(1) validator_name(2) [OF assms(2) tag], where A = A] tag assms(5,6)
    by (auto simp: e)
next
  case (2 r w)
  with assms(1,5,6) show ?thesis by (auto simp: wellFormedUsers_def dbDeleteUser_ok(2) split: if_splits)
next
  case (3 W u salt hsh w)
  with assms(6) have run: "dbChangePassword B u salt hsh db = (Ok (), db')" by simp
  obtain a where a: "userOf B db u = Some a"
    and users: "userOf B db' = (userOf B db)(u \<mapsto> a\<lparr>acSalt := salt, acHash := hsh\<rparr>)"
    by (rule dbChangePassword_ok [OF assms(1) run])
  have "goodAccount A u a" using a assms(5) by (simp add: wellFormedUsers_def)
  moreover have "length salt = 28" "\<exists>p. bcryptCompare A hsh (p @ salt) = None"
    using assms(3) 3(1) by (simp_all add: openedBySome_def)
  ultimately have "goodAccount A u (a\<lparr>acSalt := salt, acHash := hsh\<rparr>)"
    by (simp add: goodAccount_def opens_def)
  then show ?thesis by (rule wellFormed_update [OF assms(5) users])
qed

text \<open>The goroutines stay as they should be and the outbox grows; the accounts stay well formed.\<close>

lemma turn_fair:
  assumes "authTurn A B svc t s = (t', s')" "taskOk A t"
  shows "taskOk A t'" "\<exists>ms. asOutbox s' = asOutbox s @ ms"
    "asDb s' = asDb s \<or> (\<exists>e. writes A t e \<and> performUser B e (asDb s) = (Ok (), asDb s'))"
  using authTurn_fair [OF assms(2), of B s svc] assms(1) by (simp_all add: fairStep_def)

interpretation goroutines: stable_relation "authTogether A B svc"
  "\<lambda>(ts, s). list_all (taskOk A) ts \<and> (\<exists>ms. asOutbox s = ms0 @ ms)" for A B svc ms0
proof (unfold_locales, elim authTogether.cases)
  fix tss tss' :: "authTask list \<times> 'a authState" and xs ys t t' s s'
  assume "tss = (xs @ t # ys, s)" "tss' = (xs @ t' # ys, s')" "authTurn A B svc t s = (t', s')"
    and "case tss of (ts, s) \<Rightarrow> list_all (taskOk A) ts \<and> (\<exists>ms. asOutbox s = ms0 @ ms)"
  with turn_fair(1,2) [of A B svc t s t' s']
  show "case tss' of (ts, s) \<Rightarrow> list_all (taskOk A) ts \<and> (\<exists>ms. asOutbox s = ms0 @ ms)" by auto
qed auto

definition serviceOk :: "authLib \<Rightarrow> 'db bolt \<Rightarrow> authTask list \<times> 'db authState \<Rightarrow> bool" where
  "serviceOk A B tss \<longleftrightarrow> list_all (taskOk A) (fst tss) \<and> wellFormedUsers A B (asDb (snd tss))"

lemma serviceOk_step:
  assumes "bolt_ok B" "validator_ok A" "authTogether A B svc tss tss'" "serviceOk A B tss"
  shows "serviceOk A B tss'"
  using assms(3)
proof cases
  case (arrive op w ts s)
  with assms(4) show ?thesis by (simp add: serviceOk_def)
next
  case (turn t s t' s' xs ys)
  with assms(4) have ok: "taskOk A t" "wellFormedUsers A B (asDb s)" by (simp_all add: serviceOk_def)
  have "wellFormedUsers A B (asDb s')"
    using turn_fair(3) [OF turn(3) ok(1)] ok wellFormed_written [OF assms(1,2) ok(1)] by auto
  with turn_fair(1) [OF turn(3) ok(1)] turn(1,2) assms(4) show ?thesis by (auto simp: serviceOk_def)
qed

interpretation requests: stable_relation "authTogether A B svc"
  "\<lambda>tss. bolt_ok B \<and> validator_ok A \<and> serviceOk A B tss" for A B svc
  by unfold_locales (auto intro: serviceOk_step)

text \<open>C15: Whatever requests run at the same time and however their database transactions and mails
  interleave, the accounts stay well formed, no account is ever one that nobody can open, mails that
  were sent stay sent, and every request that has ended has ended without a panic and with an
  answer.\<close>
theorem concurrent_users:
  assumes "bolt_ok B" "validator_ok A" "wellFormedUsers A B (asDb s)"
    and "(authTogether A B svc)\<^sup>*\<^sup>* ([], s) (ts, s')"
  shows "wellFormedUsers A B (asDb s') \<and> (\<exists>ms. asOutbox s' = asOutbox s @ ms) \<and>
    (\<forall>x w. Answered x w \<in> set ts \<longrightarrow> x = Ok () \<and> rwStatus w \<noteq> None)"
  using requests.reachable [OF assms(4)] goroutines.reachable [OF assms(4), of "asOutbox s"] assms(1-3)
  by (auto simp: serviceOk_def list_all_iff)

section \<open>How an account can change\<close>

lemma written_spec:
  assumes "bolt_ok B" "validator_ok A" "writes A t e" "performUser B e db = (Ok (), db')"
  shows "specStep e (userOf B db) = Some (userOf B db')"
  using assms(3)
proof (cases rule: writes.elims(2))
  case (1 W r w)
  then have "validName (eventUser e)" using validator_name(2) [OF assms(2)] by (auto simp: validSignUp_def)
  with assms(1,4) show ?thesis by (intro performUser_succeeds)
next
  case (2 r w)
  with assms(4) dbDeleteUser_ok [OF assms(1), of "queryGet A (reqURL r) usernameKey" db db'] show ?thesis by simp
next
  case (3 W u salt hsh w)
  with assms(4) show ?thesis by (auto elim!: dbChangePassword_ok [OF assms(1)])
qed

text \<open>A request of the run asked for this change, in the name of the account and with a password that
  opened it when the request was looked at.\<close>

definition askedFor ::
  "authLib \<Rightarrow> 'db bolt \<Rightarrow> authService \<Rightarrow> 'db authState \<Rightarrow> authTask list \<times> 'db authState \<Rightarrow> string \<Rightarrow> string \<Rightarrow> string \<Rightarrow> bool" where
  "askedFor A B svc s0 tss u salt hsh \<longleftrightarrow>
     (\<exists>ts1 s1 W r w user.
        (authTogether A B svc)\<^sup>*\<^sup>* ([], s0) (ts1, s1) \<and> (authTogether A B svc)\<^sup>*\<^sup>* (ts1, s1) tss \<and>
        Arrived (OpChange W r) w \<in> set ts1 \<and> ctxUser r = Some u \<and> decodeChange (reqBody r) = (None, user) \<and>
        isAuthorized A B u (cpOldPassword user) (asDb s1) \<and>
        generateSalt W 0 = Inr salt \<and> awBcrypt W (cpNewPassword user @ salt) = Inr hsh)"

lemma askedFor_later:
  "askedFor A B svc s0 tss u salt hsh \<Longrightarrow> authTogether A B svc tss tss' \<Longrightarrow> askedFor A B svc s0 tss' u salt hsh"
  unfolding askedFor_def by (blast intro: rtranclp.rtrancl_into_rtrancl)

lemma changeStep_sets:
  assumes "changeStep A B W w r s = (SetPassword W' u salt hsh w', s')"
  obtains user where "ctxUser r = Some u" "decodeChange (reqBody r) = (None, user)"
    "isAuthorized A B u (cpOldPassword user) (asDb s)" "generateSalt W 0 = Inr salt"
    "awBcrypt W (cpNewPassword user @ salt) = Inr hsh"
  using assms by (auto simp: changeStep_def reply_def replyError_def split: if_splits prod.splits option.splits sum.splits)

lemma ended_not_SetPassword:
  "ended xws \<noteq> (SetPassword W u salt hsh w, s)" "(SetPassword W u salt hsh w, s) \<noteq> ended xws"
  by (cases xws, simp)+

lemma authTurn_sets:
  assumes "authTurn A B svc t s = (SetPassword W u salt hsh w, s')"
  obtains W' r w' where "t = Arrived (OpChange W' r) w'" "changeStep A B W' w' r s = (SetPassword W u salt hsh w, s')"
  using assms
proof (cases rule: authTurn.elims)
  case (3 W' r w')
  then show ?thesis by (intro that) auto
qed (auto simp: signUpStep_def mailUpStep_def setPasswordStep_def readAddressStep_def mailChangedStep_def
    ended_not_SetPassword split: if_splits prod.splits option.splits sum.splits res.splits)

lemma pending_askedFor:
  assumes "(authTogether A B svc)\<^sup>*\<^sup>* ([], s0) (ts, s)" "SetPassword W u salt hsh w \<in> set ts"
  shows "askedFor A B svc s0 (ts, s) u salt hsh"
  using assms
proof (induction arbitrary: W u salt hsh w rule: rtranclp_induct2)
  case refl
  then show ?case by simp
next
  case (step ts1 s1 ts2 s2)
  show ?case
  proof (cases "SetPassword W u salt hsh w \<in> set ts1")
    case True
    from askedFor_later [OF step.IH [OF this] step.hyps(2)] show ?thesis .
  next
    case new: False
    from step.hyps(2) show ?thesis
    proof (cases rule: authTogetherE)
      case (arrive op w')
      with new step.prems show ?thesis by simp
    next
      case (turn t t' xs ys)
      with new step.prems have "authTurn A B svc t s1 = (SetPassword W u salt hsh w, s2)" by auto
      then obtain W' r w' where t: "t = Arrived (OpChange W' r) w'"
        and go: "changeStep A B W' w' r s1 = (SetPassword W u salt hsh w, s2)" by (rule authTurn_sets)
      from go obtain user where "ctxUser r = Some u" "decodeChange (reqBody r) = (None, user)"
        "isAuthorized A B u (cpOldPassword user) (asDb s1)" "generateSalt W' 0 = Inr salt"
        "awBcrypt W' (cpNewPassword user @ salt) = Inr hsh" by (rule changeStep_sets)
      with step.hyps turn t show ?thesis
        unfolding askedFor_def
        by (intro exI [of _ ts1] exI [of _ s1] exI [of _ W'] exI [of _ r] exI [of _ w'] exI [of _ user])
          (auto intro: r_into_rtranclp)
    qed
  qed
qed

text \<open>C16: Whatever requests run at the same time, a step changes the accounts only as the specification
  of the user database allows for one operation of one of them: a valid form creates an account that
  was not there, a DELETE removes the one it names, and a password change replaces salt and hash of
  the account of its token, whose password it presented at some moment of the run (not
  necessarily of the account that is there by now).\<close>
theorem accounts_change_only:
  assumes "bolt_ok B" "validator_ok A" "(authTogether A B svc)\<^sup>*\<^sup>* ([], s0) (ts, s)"
    and "authTogether A B svc (ts, s) (ts', s')"
  shows "userOf B (asDb s') = userOf B (asDb s) \<or>
    (\<exists>t e. t \<in> set ts \<and> writes A t e \<and> specStep e (userOf B (asDb s)) = Some (userOf B (asDb s')) \<and>
       (\<forall>u salt hsh. e = SChange u salt hsh \<longrightarrow> askedFor A B svc s0 (ts, s) u salt hsh))"
proof (cases "asDb s' = asDb s")
  case False
  from assms(4) show ?thesis
  proof (cases rule: authTogetherE)
    case (arrive op w)
    with False show ?thesis by simp
  next
    case (turn t t' xs ys)
    have "taskOk A t"
      using goroutines.reachable [OF assms(3), of "asOutbox s0"] turn(1) by simp
    from authTurn_fair [OF this, of B s svc] turn(3) False obtain e where
      e: "writes A t e" "performUser B e (asDb s) = (Ok (), asDb s')" by (auto simp: fairStep_def)
    have "askedFor A B svc s0 (ts, s) u salt hsh" if "e = SChange u salt hsh" for u salt hsh
    proof -
      from e(1) that obtain W w where "t = SetPassword W u salt hsh w" by (cases rule: writes.elims(2)) auto
      with turn(1) have "SetPassword W u salt hsh w \<in> set ts" by simp
      then show ?thesis by (rule pending_askedFor [OF assms(3)])
    qed
    moreover have "t \<in> set ts" using turn(1) by simp
    ultimately show ?thesis using written_spec [OF assms(1,2) e] e(1) by blast
  qed
qed simp

section \<open>Requests that go through\<close>

text \<open>In an open database, with a mail server that takes every message.\<close>

lemma secret_fits:
  assumes "rand_ok W" "bcrypt_ok A W" "generateSalt W k = Inr salt" "awBcrypt W (p @ salt) = Inr hsh"
  shows "length salt \<le> maxValueSize" "length hsh \<le> maxValueSize"
proof -
  have "length hsh \<le> 72" using assms(2,4) unfolding bcrypt_ok_def by blast
  then show "length hsh \<le> maxValueSize" by (simp add: maxValueSize_def)
  show "length salt \<le> maxValueSize"
    using generateSalt_plain(1) [OF assms(1,3)] by (simp add: maxValueSize_def)
qed

lemma performUser_done:
  assumes "bolt_ok B" "bolt_live B" "validName (eventUser e)" "eventFits e" "specStep e (userOf B db) = Some m"
  obtains db' where "performUser B e db = (Ok (), db')" "userOf B db' = m"
proof -
  obtain db' where run: "performUser B e db = (Ok (), db')"
    using performUser_live [OF assms(1-4), of db] assms(5) by (cases "performUser B e db") auto
  with performUser_succeeds [OF assms(1,3) run] assms(5) show thesis by (intro that) auto
qed

lemma DeleteUser_live:
  assumes "bolt_ok B" "bolt_live B" "validName name" "reqMethod r = ''DELETE''"
    and "queryGet A (reqURL r) usernameKey = name" "userOf B (asDb s) name \<noteq> None"
  obtains s' where "DeleteUser A B w r s = (Ok (), writeHeader 204 w, s')"
    "userOf B (asDb s') = (userOf B (asDb s))(name := None)"
proof -
  have "specStep (SDelete name) (userOf B (asDb s)) = Some ((userOf B (asDb s))(name := None))"
    using assms(6) by simp
  from performUser_done [OF assms(1,2) _ _ this] assms(3) obtain db' where
    "dbDeleteUser B name (asDb s) = (Ok (), db')" "userOf B db' = (userOf B (asDb s))(name := None)" by auto
  with assms(4,5) that [of "s\<lparr>asDb := db'\<rparr>"] show thesis by (simp add: DeleteUser_def reply_def)
qed

lemma SignUp_live:
  assumes "bolt_ok B" "bolt_live B" "rand_ok W" "bcrypt_ok A W" "validator_ok A" "\<forall>m. awPost W m = None"
    and "reqMethod r = ''POST''" "decodeSignUp (reqBody r) = (None, user)" "validSignUp A user"
    and "madeSecrets W password salt hsh" "length (suEmail user) \<le> maxValueSize"
    and "userOf B (asDb s) (suUsername user) = None"
  obtains s' where "SignUp A B svc W w r s = (Ok (), writeHeader 201 w, s')"
    "userOf B (asDb s') =
       (userOf B (asDb s))(suUsername user \<mapsto> \<lparr>acSalt = salt, acHash = hsh, acEmail = suEmail user\<rparr>)"
proof -
  let ?a = "\<lparr>acSalt = salt, acHash = hsh, acEmail = suEmail user\<rparr>"
  have "validName (suUsername user)"
    using assms(9) validator_name(2) [OF assms(5)] by (auto simp: validSignUp_def)
  with assms(11,12) secret_fits [OF assms(3,4), of 1 salt password hsh] assms(10)
    performUser_done [OF assms(1,2), of "SInsert (suUsername user) ?a" "asDb s"] obtain db' where
    run: "InsertUser B (suUsername user) salt hsh (suEmail user) (asDb s) = (Ok (), db')"
      "userOf B db' = (userOf B (asDb s))(suUsername user \<mapsto> ?a)" by (auto simp: madeSecrets_def)
  obtain out where
    "SendSignUpEmail (awPost W) (asSender svc) (suEmail user) (suUsername user) password (asOutbox s) = (None, out)"
    using assms(6) by (simp add: SendSignUpEmail_def send_def Let_def)
  with assms(7-10) run that [of "s\<lparr>asDb := db', asOutbox := out\<rparr>"] show thesis
    by (simp add: SignUp_def registerUser_def madeSecrets_def reply_def)
qed

lemma storePassword_live:
  assumes "bolt_ok B" "bolt_live B" "rand_ok W" "bcrypt_ok A W" "\<forall>m. awPost W m = None" "validName u"
    and "generateSalt W k = Inr salt" "awBcrypt W (p @ salt) = Inr hsh" "userOf B (asDb s) u = Some a"
  obtains s' where "storePassword B svc W u salt hsh w s = (Ok (), writeHeader 200 w, s')"
    "userOf B (asDb s') = (userOf B (asDb s))(u \<mapsto> a\<lparr>acSalt := salt, acHash := hsh\<rparr>)"
proof -
  from secret_fits [OF assms(3,4,7,8)] assms(6,9) performUser_done [OF assms(1,2), of "SChange u salt hsh" "asDb s"]
  obtain db' where run: "dbChangePassword B u salt hsh (asDb s) = (Ok (), db')"
    "userOf B db' = (userOf B (asDb s))(u \<mapsto> a\<lparr>acSalt := salt, acHash := hsh\<rparr>)" by auto
  then have mail: "GetEmail B u db' = Ok (acEmail a)" by (simp add: GetEmail_live [OF assms(2)])
  obtain out where "SendChangedPasswordEmail (awPost W) (asSender svc) (acEmail a) (asOutbox s) = (None, out)"
    using assms(5) by (simp add: SendChangedPasswordEmail_def send_def Let_def)
  with run mail that [of "s\<lparr>asDb := db', asOutbox := out\<rparr>"] show thesis
    by (simp add: storePassword_def reply_def)
qed

section \<open>A password change overtaken\<close>

lemma changeStep_live:
  assumes "reqMethod r = ''PATCH''" "decodeChange (reqBody r) = (None, user)" "validChange A user"
    and "ctxUser r = Some name" "generateSalt W 0 = Inr salt" "awBcrypt W (cpNewPassword user @ salt) = Inr hsh"
  shows "changeStep A B W w r s =
    (if isAuthorized A B name (cpOldPassword user) (asDb s) then (SetPassword W name salt hsh w, s)
     else (Answered (Ok ()) (writeHeader 401 w), s))"
  using assms by (simp add: changeStep_def reply_def)

text \<open>One goroutine of a list finishes.\<close>

lemma finish_turns:
  assumes "turns A B svc n (t, s) = ended (x, w, s')"
  shows "(authTogether A B svc)\<^sup>*\<^sup>* (xs @ t # ys, s) (xs @ Answered x w # ys, s')"
  using authTogether_turns [of A B svc xs t ys s n] assms by simp

lemma finish_request:
  assumes "handle A B svc op w s = (x, w', s')"
  shows "(authTogether A B svc)\<^sup>*\<^sup>* (xs @ Arrived op w # ys, s) (xs @ Answered x w' # ys, s')"
  using assms by (intro finish_turns [of _ _ _ 4]) (simp add: turns_handle)

text \<open>The change is authorised, the account is deleted and made anew, and only then is the password stored.\<close>

lemma overtaking_run:
  assumes "changeStep A B W1 w1 r1 s = (SetPassword W1 u salt hsh w1, s)"
    and "DeleteUser A B w2 r2 s = (Ok (), w2', d2)" "SignUp A B svc W3 w3 r3 d2 = (Ok (), w3', d3)"
    and "storePassword B svc W1 u salt hsh w1 d3 = (Ok (), w1', s')"
  shows "(authTogether A B svc)\<^sup>*\<^sup>*
      ([Arrived (OpChange W1 r1) w1, Arrived (OpDelete r2) w2, Arrived (OpSignUp W3 r3) w3], s)
      ([Answered (Ok ()) w1', Answered (Ok ()) w2', Answered (Ok ()) w3'], s')"
proof -
  let ?t1 = "SetPassword W1 u salt hsh w1" and ?t2 = "Arrived (OpDelete r2) w2" and ?t3 = "Arrived (OpSignUp W3 r3) w3"
  let ?e2 = "Answered (Ok ()) w2'" and ?e3 = "Answered (Ok ()) w3'"
  have "(authTogether A B svc)\<^sup>*\<^sup>* ([Arrived (OpChange W1 r1) w1, ?t2, ?t3], s) ([?t1, ?t2, ?t3], s)"
    using authTogether.turn [of A B svc "Arrived (OpChange W1 r1) w1" s ?t1 s "[]" "[?t2, ?t3]"] assms(1) by auto
  also have "(authTogether A B svc)\<^sup>*\<^sup>* ([?t1, ?t2, ?t3], s) ([?t1, ?e2, ?t3], d2)"
    using finish_request [of A B svc "OpDelete r2" w2 s _ _ d2 "[?t1]" "[?t3]"] assms(2) by simp
  also have "(authTogether A B svc)\<^sup>*\<^sup>* ([?t1, ?e2, ?t3], d2) ([?t1, ?e2, ?e3], d3)"
    using finish_request [of A B svc "OpSignUp W3 r3" w3 d2 _ _ d3 "[?t1, ?e2]" "[]"] assms(3) by simp
  also have "(authTogether A B svc)\<^sup>*\<^sup>* ([?t1, ?e2, ?e3], d3) ([Answered (Ok ()) w1', ?e2, ?e3], s')"
    using finish_turns [of A B svc 3 ?t1 d3 _ _ s' "[]" "[?e2, ?e3]"] assms(4) turns_setPassword [of A B svc 0]
    by (simp add: numeral_3_eq_3)
  finally show ?thesis .
qed

text \<open>C30: The password is checked and replaced in two transactions. If in between the account is deleted and
  its name signed up anew, the change goes through: all three requests succeed, and the new account,
  with the address of its own owner, opens with the password of the former owner and no other one,
  not with the one just mailed. Run one after the other the same change is refused.\<close>
theorem change_password_overtaken:
  assumes "bolt_ok B" "bolt_live B" "validator_ok A" "rand_ok W1" "rand_ok W3"
    and "bcrypt_ok A W1" "bcrypt_ok A W3" "bcrypt_strong A W1" "bcrypt_strong A W3"
    and "\<forall>m. awPost W1 m = None" "\<forall>m. awPost W3 m = None" "openWriter w1" "openWriter w2" "openWriter w3"
    and "reqMethod r1 = ''PATCH''" "decodeChange (reqBody r1) = (None, cu)" "validChange A cu"
    and "ctxUser r1 = Some (suUsername su)" "isAuthorized A B (suUsername su) (cpOldPassword cu) (asDb s)"
    and "generateSalt W1 0 = Inr salt1" "awBcrypt W1 (cpNewPassword cu @ salt1) = Inr hsh1"
    and "CHR 0x00 \<notin> set (cpNewPassword cu)"
    and "reqMethod r2 = ''DELETE''" "queryGet A (reqURL r2) usernameKey = suUsername su"
    and "reqMethod r3 = ''POST''" "decodeSignUp (reqBody r3) = (None, su)" "validSignUp A su"
    and "madeSecrets W3 password salt hsh" "length (suEmail su) \<le> maxValueSize"
  shows "\<exists>w1' w2' w3' s'.
      (authTogether A B svc)\<^sup>*\<^sup>*
        ([Arrived (OpChange W1 r1) w1, Arrived (OpDelete r2) w2, Arrived (OpSignUp W3 r3) w3], s)
        ([Answered (Ok ()) w1', Answered (Ok ()) w2', Answered (Ok ()) w3'], s') \<and>
      rwStatus w1' = Some 200 \<and> rwStatus w2' = Some 204 \<and> rwStatus w3' = Some 201 \<and>
      (\<exists>b. userOf B (asDb s') (suUsername su) = Some b \<and> acEmail b = suEmail su) \<and>
      (\<forall>q. plainPassword q \<longrightarrow> (isAuthorized A B (suUsername su) q (asDb s') \<longleftrightarrow> q = cpNewPassword cu)) \<and>
      (\<exists>d2 d3. handle A B svc (OpDelete r2) w2 s = (Ok (), w2', d2) \<and>
         handle A B svc (OpSignUp W3 r3) w3 d2 = (Ok (), w3', d3) \<and>
         (plainPassword (cpOldPassword cu) \<and> cpOldPassword cu \<noteq> password \<longrightarrow>
           handle A B svc (OpChange W1 r1) w1 d3 = (Ok (), writeHeader 401 w1, d3)))"
proof -
  let ?u = "suUsername su" and ?a = "\<lparr>acSalt = salt, acHash = hsh, acEmail = suEmail su\<rparr>"
  let ?b = "?a\<lparr>acSalt := salt1, acHash := hsh1\<rparr>"
  have name: "validName ?u"
    using assms(27) validator_name(2) [OF assms(3)] by (auto simp: validSignUp_def)
  note step1 = changeStep_live [OF assms(15-18,20,21), where B = B and w = w1]
  from assms(19) have "userOf B (asDb s) ?u \<noteq> None"
    by (auto simp: isAuthorized_live [OF assms(2)] split: option.splits)
  from DeleteUser_live [OF assms(1,2) name assms(23,24) this] obtain d2 where
    del: "DeleteUser A B w2 r2 s = (Ok (), writeHeader 204 w2, d2)" "userOf B (asDb d2) = (userOf B (asDb s))(?u := None)"
    by metis
  from del(2) have "userOf B (asDb d2) ?u = None" by simp
  from SignUp_live [OF assms(1,2,5,7,3,11,25-29) this] obtain d3 where
    up: "SignUp A B svc W3 w3 r3 d2 = (Ok (), writeHeader 201 w3, d3)" "userOf B (asDb d3) = (userOf B (asDb d2))(?u \<mapsto> ?a)"
    by metis
  from up(2) have "userOf B (asDb d3) ?u = Some ?a" by simp
  from storePassword_live [OF assms(1,2,4,6,10) name assms(20,21) this] obtain s' where
    set: "storePassword B svc W1 ?u salt1 hsh1 w1 d3 = (Ok (), writeHeader 200 w1, s')"
      "userOf B (asDb s') = (userOf B (asDb d3))(?u \<mapsto> ?b)" by metis
  from step1 assms(19) have "changeStep A B W1 w1 r1 s = (SetPassword W1 ?u salt1 hsh1 w1, s)" by simp
  note run = overtaking_run [OF this del(1) up(1) set(1)]
  have opens: "\<forall>q. plainPassword q \<longrightarrow> (isAuthorized A B ?u q (asDb s') \<longleftrightarrow> q = cpNewPassword cu)"
    using chosen_opens [OF assms(4,6,8,20-22), of ?b] by (simp add: isAuthorized_live [OF assms(2)] set(2))
  have refused: "\<not> isAuthorized A B ?u q (asDb d3)" if "plainPassword q" "q \<noteq> password" for q
    using made_opens [OF assms(5,7,9,28), of ?a] that by (simp add: isAuthorized_live [OF assms(2)] up(2))
  have "ChangePassword A B svc W1 w1 r1 d3 = (Ok (), writeHeader 401 w1, d3)"
    if "plainPassword (cpOldPassword cu)" "cpOldPassword cu \<noteq> password"
    using refused [OF that] assms(15-18) by (simp add: ChangePassword_def reply_def)
  with run opens set(2) del(1) up(1) assms(12-14) show ?thesis by (auto intro!: exI)
qed

section \<open>The properties at concrete inputs\<close>

lemma other_post:
  "rand_ok (W\<lparr>awPost := f\<rparr>) = rand_ok W" "bcrypt_ok A (W\<lparr>awPost := f\<rparr>) = bcrypt_ok A W"
  "bcrypt_strong A (W\<lparr>awPost := f\<rparr>) = bcrypt_strong A W" "generateSalt (W\<lparr>awPost := f\<rparr>) k = generateSalt W k"
  "generateRandomPassword (W\<lparr>awPost := f\<rparr>) k = generateRandomPassword W k"
  "madeSecrets (W\<lparr>awPost := f\<rparr>) p salt hsh = madeSecrets W p salt hsh"
  by (simp_all add: rand_ok_def bcrypt_ok_def bcrypt_strong_def madeSecrets_def generateSalt_def
      generateRandomPassword_def)

lemma arrived_answered:
  assumes "opOk A op" "openWriter w" "handle A B svc op w s = (x, w', s')"
  shows "(authTogether A B svc)\<^sup>*\<^sup>* ([], s) ([Answered x w'], s')"
  using authTogether.arrive [OF assms(1,2), of B svc "[]" s] finish_request [OF assms(3), of "[]" "[]"]
  by (auto intro: converse_rtranclp_into_rtranclp)

theorem concurrent_users_witness:
  "\<exists>w s'. (authTogether sampleLib refBolt sampleService)\<^sup>*\<^sup>* ([], emptyState) ([Answered (Ok ()) w], s') \<and>
     rwStatus w = Some 201 \<and> wellFormedUsers sampleLib refBolt (asDb s')"
proof -
  obtain w s' where up: "SignUp sampleLib refBolt sampleService (sampleAuthWorld 0) newWriter
      (jsonRequest ''POST'' (signUpBody annaFlags)) emptyState = (Ok (), w, s')" "rwStatus w = Some 201"
    using signUp_anna_created by blast
  have run: "(authTogether sampleLib refBolt sampleService)\<^sup>*\<^sup>* ([], emptyState) ([Answered (Ok ()) w], s')"
    using up(1) by (intro arrived_answered [of _ "OpSignUp (sampleAuthWorld 0) (jsonRequest ''POST'' (signUpBody annaFlags))"
          newWriter]) (simp_all add: rand_ok_sample bcrypt_ok_sample)
  with concurrent_users [OF bolt_ok_ref validator_ok_sample _ run] up(2) show ?thesis
    by (auto simp: wellFormedUsers_def users_emptyState)
qed

theorem accounts_change_only_witness:
  "\<exists>t s'. authTogether sampleLib refBolt sampleService
       ([Arrived (OpDelete (jsonRequest ''DELETE'' [])) newWriter], annaState) ([t], s') \<and>
     userOf refBolt (asDb s') = Map.empty"
proof -
  let ?t = "Arrived (OpDelete (jsonRequest ''DELETE'' [])) newWriter"
  obtain s' where del: "DeleteUser sampleLib refBolt newWriter (jsonRequest ''DELETE'' []) annaState =
      (Ok (), writeHeader 204 newWriter, s')"
    by (rule DeleteUser_live [OF bolt_ok_ref bolt_live_ref, of "''anna''"])
      (auto simp: validName_def users_annaState)
  have start: "(authTogether sampleLib refBolt sampleService)\<^sup>*\<^sup>* ([], annaState) ([?t], annaState)"
    using authTogether.arrive [of sampleLib "OpDelete (jsonRequest ''DELETE'' [])" newWriter refBolt sampleService "[]"]
    by auto
  have step: "authTogether sampleLib refBolt sampleService ([?t], annaState)
      ([Answered (Ok ()) (writeHeader 204 newWriter)], s')"
    using authTogether.turn [of sampleLib refBolt sampleService ?t annaState _ _ "[]" "[]"] del by auto
  have gone: "userOf refBolt (asDb s') \<noteq> userOf refBolt (asDb annaState)"
    using delete_user_functional [OF bolt_ok_ref bolt_live_ref openWriter_new _ refl _ del]
    by (auto simp: validName_def users_annaState fun_eq_iff)
  from accounts_change_only [OF bolt_ok_ref validator_ok_sample start step] gone step show ?thesis
    by (auto simp: users_annaState usernameKey_def)
qed

theorem change_password_overtaken_witness:
  "\<exists>w1' w2' w3' s'.
      (authTogether sampleLib refBolt sampleService)\<^sup>*\<^sup>*
        ([Arrived (OpChange ((sampleAuthWorld 0)\<lparr>awPost := \<lambda>_. None\<rparr>)
             ((jsonRequest ''PATCH'' (changeBody annaFlags))\<lparr>ctxUser := Some ''anna''\<rparr>)) newWriter,
          Arrived (OpDelete (jsonRequest ''DELETE'' [])) newWriter,
          Arrived (OpSignUp ((sampleAuthWorld 0)\<lparr>awPost := \<lambda>_. None\<rparr>)
             (jsonRequest ''POST'' (signUpBody annaFlags))) newWriter], annaState)
        ([Answered (Ok ()) w1', Answered (Ok ()) w2', Answered (Ok ()) w3'], s') \<and>
      isAuthorized sampleLib refBolt ''anna'' ''new secret'' (asDb s') \<and>
      \<not> isAuthorized sampleLib refBolt ''anna'' samplePassword (asDb s')"
proof -
  let ?W = "(sampleAuthWorld 0)\<lparr>awPost := \<lambda>_. None\<rparr>"
  let ?r1 = "(jsonRequest ''PATCH'' (changeBody annaFlags))\<lparr>ctxUser := Some ''anna''\<rparr>"
  let ?r2 = "jsonRequest ''DELETE'' []" and ?r3 = "jsonRequest ''POST'' (signUpBody annaFlags)"
  have W: "rand_ok ?W" "bcrypt_ok sampleLib ?W" "bcrypt_strong sampleLib ?W" "generateSalt ?W k = Inr sampleSalt"
    "madeSecrets ?W samplePassword sampleSalt (samplePassword @ sampleSalt)" for k
    by (simp_all only: other_post rand_ok_sample bcrypt_ok_sample bcrypt_strong_sample madeSecrets_sample sample_secrets)
  have plain: "plainPassword samplePassword"
    using base64_no_nul [of "replicate passwordLength CHR 0x00"] length_sample(1)
    by (simp only: plainPassword_def samplePassword_def [symmetric]) simp
  have "length samplePassword \<noteq> length ''new secret''" by (simp add: length_sample(1))
  then have differ: "samplePassword \<noteq> ''new secret''" by (rule contrapos_nn) (rule arg_cong)
  let ?su = "\<lparr>suUsername = ''anna'', suEmail = ''a@b''\<rparr>"
  let ?cu = "\<lparr>cpOldPassword = ''old secret'', cpNewPassword = ''new secret'', cpNewPasswordConfirm = ''new secret''\<rparr>"
  have post: "\<forall>m. awPost ?W m = None" by simp
  have change: "reqMethod ?r1 = ''PATCH''" "decodeChange (reqBody ?r1) = (None, ?cu)" "validChange sampleLib ?cu"
    "ctxUser ?r1 = Some (suUsername ?su)"
    "isAuthorized sampleLib refBolt (suUsername ?su) (cpOldPassword ?cu) (asDb annaState)"
    "awBcrypt ?W (cpNewPassword ?cu @ sampleSalt) = Inr (''new secret'' @ sampleSalt)"
    "CHR 0x00 \<notin> set (cpNewPassword ?cu)"
    by (simp_all add: anna_forms anna_valid authorized_anna length_sample)
  have others: "reqMethod ?r2 = ''DELETE''" "queryGet sampleLib (reqURL ?r2) usernameKey = suUsername ?su"
    "reqMethod ?r3 = ''POST''" "decodeSignUp (reqBody ?r3) = (None, ?su)" "validSignUp sampleLib ?su"
    "length (suEmail ?su) \<le> maxValueSize"
    by (simp_all add: anna_forms anna_valid maxValueSize_def)
  from change_password_overtaken [where svc = sampleService, OF bolt_ok_ref bolt_live_ref validator_ok_sample
      W(1,1,2,2,3,3) post post openWriter_new openWriter_new openWriter_new change(1-5) W(4) change(6,7)
      others(1-5) W(5) others(6)]
  obtain w1' w2' w3' s' where
    "(authTogether sampleLib refBolt sampleService)\<^sup>*\<^sup>*
       ([Arrived (OpChange ?W ?r1) newWriter, Arrived (OpDelete ?r2) newWriter, Arrived (OpSignUp ?W ?r3) newWriter], annaState)
       ([Answered (Ok ()) w1', Answered (Ok ()) w2', Answered (Ok ()) w3'], s')"
    "\<forall>q. plainPassword q \<longrightarrow> (isAuthorized sampleLib refBolt (suUsername ?su) q (asDb s') \<longleftrightarrow> q = cpNewPassword ?cu)"
    by blast
  moreover have "plainPassword ''new secret''" by (simp add: plainPassword_def)
  ultimately show ?thesis using plain differ by (metis SignUpUser.select_convs(1) ChangePasswordUser.select_convs(2))
qed

end
