(* ===== verification/AdminSteps.thy ===== *)
theory AdminSteps
  imports AdminHandlers
begin

text \<open>
  The handlers of \<open>lb/adminHandlers.go\<close> that touch the server pool, cut where goroutines interleave.
  \<open>AddServer\<close> and \<open>RemoveServerByUrl\<close> hold the pool's lock and are a step each. \<open>FindServerByUrl\<close> and
  the list handler hold no lock: they read the slice once and then walk its array, a server per
  step, while a removal shifts that array in place and an addition may extend it in place or leave
  it for a new one. Undisturbed, the steps of a request come to what its handler in
  \<open>AdminHandlers\<close> computes in one go.
\<close>

section \<open>Slices that are being read\<close>

text \<open>What a goroutine still sees of the slice it read: as many elements as there were then, and
  whether the pool still writes to their array.\<close>

datatype view = View "nat list" bool

text \<open>What a step has written from the start of the pool's array.\<close>

datatype edit = Nothing | Extended "nat list" | Shifted "nat list"

fun overwritten :: "nat list \<Rightarrow> view \<Rightarrow> view" where
  "overwritten ys (View arr shared) =
     View (if shared then take (length arr) ys @ drop (length ys) arr else arr) shared"

fun seen :: "bool \<Rightarrow> edit \<Rightarrow> view \<Rightarrow> view" where
  "seen moved Nothing v = v"
| "seen moved (Extended ys) (View arr shared) =
     (if moved then View arr False else overwritten ys (View arr shared))"
| "seen moved (Shifted ys) v = overwritten ys v"

definition readSlice :: "ServerPool \<Rightarrow> view" where
  "readSlice p = View (servers p) True"

section \<open>Steps\<close>

datatype adminOp =
    OpAdd request
  | OpRemove request
  | OpList "goerror option" request

text \<open>
  What a goroutine has still to do: everything, look for the server of its form from a position of
  the slice on, list the backend it made, check the health of the backend it listed, collect the
  rows from a position of the slice on, or nothing.
\<close>

datatype adminTask =
    Came adminOp rwriter
  | Finding AddForm nat view rwriter
  | Adding Backend rwriter
  | Dialling nat rwriter
  | Listing "goerror option" nat view "getResponseJSON list" rwriter
  | Gone "unit res" rwriter

definition addStart :: "adminLib \<Rightarrow> request \<Rightarrow> rwriter \<Rightarrow> ServerPool \<Rightarrow> adminTask" where
  "addStart L req rw p =
     (if reqMethod req = ''POST'' then
        let (err, form) = decodeAdd (reqBody req);
            rw = (if err \<noteq> None then httpError ''Couldn't parse JSON'' 400 rw else rw)
        in Finding form 0 (readSlice p) rw
      else if reqMethod req = ''GET'' then Gone (Ok ()) (serveFile L ''views/add.html'' rw)
      else Gone (Ok ()) (httpError ''Only POST and GET requests are supported'' 405 rw))"

definition acceptForm :: "adminLib \<Rightarrow> AddForm \<Rightarrow> rwriter \<Rightarrow> adminTask" where
  "acceptForm L form rw =
     (if sint (afHealthCheckTcpTimeout form) \<le> 0 then
        Gone (Ok ()) (httpError ''Bad Request: timeout is below zero or equal'' 400 rw)
      else if sint (afMaximalRequests form) \<le> 0 then
        Gone (Ok ()) (httpError ''Bad Request: maxReq is below zero or equal'' 400 rw)
      else
        let maxReq = goRem (afMaximalRequests form) (2 ^ 31);
            server = \<lparr>scURL = afUrl form, scHealthCheckTcpTimeout = afHealthCheckTcpTimeout form,
                      scMaximalRequests = toInt32 maxReq\<rparr>
        in (case NewBackendConfig (alUrls L) server of
              Panic m \<Rightarrow> Gone (Panic m) rw
            | Err e \<Rightarrow> Gone (Err e) rw
            | Ok None \<Rightarrow> Gone (Ok ()) (httpError ''Bad URL'' 400 rw)
            | Ok (Some b) \<Rightarrow> Adding b rw))"

fun findStep :: "adminLib \<Rightarrow> AddForm \<Rightarrow> nat \<Rightarrow> view \<Rightarrow> rwriter \<Rightarrow> ServerPool \<Rightarrow> adminTask" where
  "findStep L form j (View arr shared) rw p =
     (if length arr \<le> j then acceptForm L form rw
      else if serverURL (alUrls L) p (arr ! j) = afUrl form
      then Gone (Ok ()) (httpError ''Server already exists'' 412 rw)
      else Finding form (Suc j) (View arr shared) rw)"

text \<open>A removal is one step: decoding is local, and \<open>RemoveServerByUrl\<close> holds the lock.\<close>

definition removeServerStep :: "adminLib \<Rightarrow> request \<Rightarrow> rwriter \<Rightarrow> ServerPool \<Rightarrow> adminTask \<times> ServerPool \<times> edit" where
  "removeServerStep L req rw p =
     (let (rw, p') = RemoveServerHandler L req rw p
      in (Gone (Ok ()) rw, p',
          if length (servers p') < length (servers p) then Shifted (servers p' @ [last (servers p)]) else Nothing))"

definition listStart :: "goerror option \<Rightarrow> request \<Rightarrow> rwriter \<Rightarrow> ServerPool \<Rightarrow> adminTask" where
  "listStart fault req rw p =
     (if reqMethod req \<noteq> ''GET'' then Gone (Ok ()) (httpError ''Only GET requests are supported'' 405 rw)
      else Listing fault 0 (readSlice p) [] rw)"

definition sendRows :: "goerror option \<Rightarrow> getResponseJSON list \<Rightarrow> rwriter \<Rightarrow> rwriter" where
  "sendRows fault rows rw =
     (case encodeServers rows of
        Inl e \<Rightarrow> httpError (''Internal Server Error: '' @ errText e) 500 rw
      | Inr b \<Rightarrow>
          (case writeBody fault b rw of
             (Some e, rw) \<Rightarrow> httpErrorTo fault ''Internal Server Error'' 500 rw
           | (None, rw) \<Rightarrow> setHeader ''Content-Type'' ''application/json; charset=utf-8'' rw))"

fun listStep ::
  "adminLib \<Rightarrow> goerror option \<Rightarrow> nat \<Rightarrow> view \<Rightarrow> getResponseJSON list \<Rightarrow> rwriter \<Rightarrow> ServerPool \<Rightarrow> adminTask" where
  "listStep L fault j (View arr shared) rows rw p =
     (if length arr \<le> j then Gone (Ok ()) (sendRows fault rows rw)
      else Listing fault (Suc j) (View arr shared) (rows @ [serverRow L p (arr ! j)]) rw)"

fun adminTurn :: "adminLib \<Rightarrow> adminTask \<Rightarrow> ServerPool \<Rightarrow> adminTask \<times> ServerPool \<times> edit" where
  "adminTurn L (Came (OpAdd req) rw) p = (addStart L req rw p, p, Nothing)"
| "adminTurn L (Came (OpRemove req) rw) p = removeServerStep L req rw p"
| "adminTurn L (Came (OpList fault req) rw) p = (listStart fault req rw p, p, Nothing)"
| "adminTurn L (Finding form j v rw) p = (findStep L form j v rw p, p, Nothing)"
| "adminTurn L (Adding b rw) p =
     (Dialling (length (backends p)) rw, AddServer b p, Extended (servers (AddServer b p)))"
| "adminTurn L (Dialling i rw) p =
     (Gone (Ok ()) (snd (writeBody None ''Success!'' rw)), healthCheckFunc (alDial L) i p, Nothing)"
| "adminTurn L (Listing fault j v rows rw) p = (listStep L fault j v rows rw p, p, Nothing)"
| "adminTurn L (Gone x rw) p = (Gone x rw, p, Nothing)"

section \<open>Undisturbed, the steps are the handlers\<close>

fun adminHandle :: "adminLib \<Rightarrow> adminOp \<Rightarrow> rwriter \<Rightarrow> ServerPool \<Rightarrow> unit res \<times> rwriter \<times> ServerPool" where
  "adminHandle L (OpAdd req) rw p = AddServerHandler L req rw p"
| "adminHandle L (OpRemove req) rw p = (case RemoveServerHandler L req rw p of (rw, p') \<Rightarrow> (Ok (), rw, p'))"
| "adminHandle L (OpList fault req) rw p = (Ok (), GetServersHandler L fault req rw p, p)"

definition adminTurns :: "adminLib \<Rightarrow> nat \<Rightarrow> adminTask \<times> ServerPool \<Rightarrow> adminTask \<times> ServerPool" where
  "adminTurns L n = (\<lambda>(t, p). case adminTurn L t p of (t', p', _) \<Rightarrow> (t', p')) ^^ n"

fun goneWith :: "unit res \<times> rwriter \<times> ServerPool \<Rightarrow> adminTask \<times> ServerPool" where
  "goneWith (x, rw, p) = (Gone x rw, p)"

lemma adminTurns_0 [simp]: "adminTurns L 0 tp = tp"
  by (simp add: adminTurns_def)

lemma adminTurns_Suc:
  "adminTurns L (Suc n) (t, p) = adminTurns L n (fst (adminTurn L t p), fst (snd (adminTurn L t p)))"
  by (simp only: adminTurns_def funpow_Suc_right o_apply case_prod_conv) (simp split: prod.split)

lemma adminTurns_Gone [simp]: "adminTurns L n (Gone x rw, p) = (Gone x rw, p)"
  by (induction n) (simp_all add: adminTurns_Suc)

lemma adminTurns_accept:
  assumes "FindServerByUrl (alUrls L) (afUrl form) p = None"
  shows "adminTurns L (Suc (Suc n)) (acceptForm L form rw, p) = goneWith (addForm L form rw p)"
  using assms
  by (auto simp: acceptForm_def addForm_def Let_def adminTurns_Suc split: res.split option.split)

lemma find_drop: "j < length xs \<Longrightarrow> find P (drop j xs) = (if P (xs ! j) then Some (xs ! j) else find P (drop (Suc j) xs))"
  by (simp flip: Cons_nth_drop_Suc)

text \<open>The search of a slice that nobody changes.\<close>

lemma adminTurns_finding:
  assumes "j + k = length (servers p)" "list_all (\<lambda>i. serverURL (alUrls L) p i \<noteq> afUrl form) (take j (servers p))"
  shows "adminTurns L (k + 3) (Finding form j (readSlice p) rw, p) = goneWith (addForm L form rw p)"
  using assms
proof (induction k arbitrary: j)
  case 0
  then have "FindServerByUrl (alUrls L) (afUrl form) p = None"
    by (auto simp: FindServerByUrl_def find_None_iff list_all_iff)
  with 0 show ?case by (simp add: numeral_3_eq_3 adminTurns_Suc [of _ "Suc (Suc 0)"] readSlice_def adminTurns_accept)
next
  case (Suc k)
  then have j: "j < length (servers p)" by simp
  show ?case
  proof (cases "serverURL (alUrls L) p (servers p ! j) = afUrl form")
    case True
    with j have "FindServerByUrl (alUrls L) (afUrl form) p \<noteq> None"
      unfolding FindServerByUrl_def find_None_iff using nth_mem [OF j] by blast
    with True j show ?thesis unfolding add_Suc adminTurns_Suc by (simp add: readSlice_def addForm_def)
  next
    case False
    with Suc.prems j have "list_all (\<lambda>i. serverURL (alUrls L) p i \<noteq> afUrl form) (take (Suc j) (servers p))"
      by (simp add: take_Suc_conv_app_nth)
    with Suc.IH [of "Suc j"] Suc.prems False j show ?thesis
      unfolding add_Suc adminTurns_Suc by (simp add: readSlice_def)
  qed
qed

lemma adminTurns_listing:
  assumes "j + k = length (servers p)"
  shows "adminTurns L (Suc (k + n)) (Listing fault j (readSlice p) rows rw, p) =
    (Gone (Ok ()) (sendRows fault (rows @ map (serverRow L p) (drop j (servers p))) rw), p)"
  using assms
proof (induction k arbitrary: j rows)
  case 0
  then show ?case by (simp add: adminTurns_Suc readSlice_def)
next
  case (Suc k)
  then have j: "j < length (servers p)" by simp
  with Suc show ?case by (simp add: adminTurns_Suc readSlice_def flip: Cons_nth_drop_Suc)
qed

lemma adminTurns_handle:
  "adminTurns L (length (servers p) + 4) (Came op rw, p) = goneWith (adminHandle L op rw p)"
proof (cases op)
  case (OpAdd req)
  define m where "m = length (servers p) + 3"
  then have found: "adminTurns L m (Finding form 0 (readSlice p) rw', p) = goneWith (addForm L form rw' p)" for form rw'
    using adminTurns_finding [of 0 "length (servers p)" p L] by simp
  have all: "length (servers p) + 4 = Suc m" by (simp add: m_def)
  show ?thesis
    unfolding all by (simp add: OpAdd adminTurns_Suc addStart_def AddServerHandler_def found split: prod.split)
next
  case (OpRemove req)
  then show ?thesis
    by (simp add: eval_nat_numeral adminTurns_Suc removeServerStep_def split: prod.split)
next
  case (OpList fault req)
  define m where "m = length (servers p) + 3"
  then have rows: "adminTurns L m (Listing fault 0 (readSlice p) [] rw, p) =
      (Gone (Ok ()) (sendRows fault (map (serverRow L p) (servers p)) rw), p)"
    using adminTurns_listing [of 0 "length (servers p)" p L 2] by (simp add: eval_nat_numeral)
  have all: "length (servers p) + 4 = Suc m" by (simp add: m_def)
  show ?thesis
    unfolding all by (simp add: OpList adminTurns_Suc listStart_def GetServersHandler_def rows) (simp add: sendRows_def)
qed

end
