(* ===== verification/AdminRaces.thy ===== *)
theory AdminRaces
  imports AdminSteps
begin

text \<open>
  Administration requests at the same time, interleaved at the steps of \<open>AdminSteps\<close> with each other
  and with the traffic at the pool: what every interleaving keeps, the server that is added twice, and
  the list that misses a server.
\<close>

section \<open>Interleaving\<close>

text \<open>The goroutine that holds this task looks on while another one writes to the array.\<close>

fun lookOn :: "bool \<Rightarrow> edit \<Rightarrow> adminTask \<Rightarrow> adminTask" where
  "lookOn moved e (Finding form j v rw) = Finding form j (seen moved e v) rw"
| "lookOn moved e (Listing fault j v rows rw) = Listing fault j (seen moved e v) rows rw"
| "lookOn moved e t = t"

text \<open>What requests that are being proxied and health checks do to the pool.\<close>

fun inTraffic :: "poolEvent \<Rightarrow> bool" where
  "inTraffic (PAdd b) \<longleftrightarrow> False"
| "inTraffic (PRemove u) \<longleftrightarrow> False"
| "inTraffic e \<longleftrightarrow> True"

text \<open>A request may come at any time and any goroutine may take its next step; an addition extends the
  array in place or moves the list to a new one, and the list stays shorter than an \<open>int32\<close> can count.\<close>

inductive adminTogether :: "adminLib \<Rightarrow> adminTask list \<times> ServerPool \<Rightarrow> adminTask list \<times> ServerPool \<Rightarrow> bool"
  for L where
  come: "adminTogether L (ts, p) (ts @ [Came op rw], p)"
| turn: "adminTurn L t p = (t', p', e) \<Longrightarrow> length (servers p') < 2 ^ 31 \<Longrightarrow>
    adminTogether L (xs @ t # ys, p) (map (lookOn moved e) xs @ t' # map (lookOn moved e) ys, p')"
| traffic: "inTraffic ev \<Longrightarrow> adminTogether L (ts, p) (ts, poolStep (alUrls L) ev p)"

inductive_cases adminTogetherE [consumes 1, case_names come turn traffic]:
  "adminTogether L (ts, p) (ts', p')"

section \<open>What every interleaving keeps\<close>

text \<open>The parts of a server that are set once.\<close>

definition fixedAt :: "ServerPool \<Rightarrow> nat \<Rightarrow> url \<times> int64 \<times> nat" where
  "fixedAt p i = (bUrl (backendAt p i), healthCheckTcpTimeout (backendAt p i), maximalRequests (backendAt p i))"

definition grown :: "ServerPool \<Rightarrow> ServerPool \<Rightarrow> bool" where
  "grown p p' \<longleftrightarrow> length (backends p) \<le> length (backends p') \<and>
     (\<forall>i < length (backends p). fixedAt p' i = fixedAt p i)"

lemma grown_same: "backends p' = backends p \<Longrightarrow> grown p p'"
  by (simp add: grown_def fixedAt_def backendAt_def)

lemma grown_upd:
  "(\<And>b. bUrl (f b) = bUrl b \<and> healthCheckTcpTimeout (f b) = healthCheckTcpTimeout b \<and>
     maximalRequests (f b) = maximalRequests b) \<Longrightarrow> grown p (updBackend i f p)"
  by (cases "i < length (backends p)")
    (auto simp: grown_def fixedAt_def backendAt_def updBackend_def nth_list_update list_update_beyond)

lemma grown_AddServer: "grown p (AddServer b p)"
  by (simp add: grown_def fixedAt_def backendAt_AddServer) (simp add: AddServer_def)

lemma RemoveServerByUrl_backends: "backends (snd (RemoveServerByUrl U u p)) = backends p"
  by (simp add: RemoveServerByUrl_def split: option.split)

lemma grown_poolStep:
  assumes "pool_ok p"
  shows "grown p (poolStep U e p)"
proof (cases e)
  case PNext
  with GetNextPeer_frame [OF assms] show ?thesis by (simp add: grown_same)
next
  case (PRemove u)
  then show ?thesis by (simp add: RemoveServerByUrl_backends grown_same)
qed (auto simp: SetAlive_def assignAt_def freeAt_def AssignRequest_def Free_def grown_AddServer intro!: grown_upd)

lemma ServersURLs_grown:
  assumes "pool_ok p" "grown p p'" "servers p' = servers p"
  shows "ServersURLs U p' = ServersURLs U p"
  using assms by (auto simp: ServersURLs_def serverURL_def pool_ok_def list_all_iff grown_def fixedAt_def)

lemma serverRow_fixed:
  "serverRow L p i = (case fixedAt p i of (u, t, m) \<Rightarrow>
     \<lparr>grURL = urlString (alUrls L) u, grHealthCheckTcpTimeout = durMilliseconds t, grMaximalRequests = m,
      grAlive = alive (backendAt p i)\<rparr>)"
  by (simp add: serverRow_def fixedAt_def Let_def)

text \<open>A row of the list describes a server there is, in all but its being alive.\<close>

definition describes :: "adminLib \<Rightarrow> ServerPool \<Rightarrow> getResponseJSON \<Rightarrow> bool" where
  "describes L p r \<longleftrightarrow> (\<exists>i < length (backends p). r = (serverRow L p i)\<lparr>grAlive := grAlive r\<rparr>)"

lemma serverRow_grown:
  "grown p p' \<Longrightarrow> i < length (backends p) \<Longrightarrow>
     (serverRow L p' i)\<lparr>grAlive := a\<rparr> = (serverRow L p i)\<lparr>grAlive := a\<rparr>"
  by (simp add: serverRow_fixed grown_def split: prod.split)

lemma describes_grown: "describes L p r \<Longrightarrow> grown p p' \<Longrightarrow> describes L p' r"
  unfolding describes_def using serverRow_grown [of p p'] by (metis grown_def order_less_le_trans)

fun viewOk :: "ServerPool \<Rightarrow> view \<Rightarrow> bool" where
  "viewOk p (View arr shared) \<longleftrightarrow> list_all (\<lambda>i. i < length (backends p)) arr"

fun adminOk :: "adminLib \<Rightarrow> ServerPool \<Rightarrow> adminTask \<Rightarrow> bool" where
  "adminOk L p (Finding form j v rw) \<longleftrightarrow> viewOk p v"
| "adminOk L p (Adding b rw) \<longleftrightarrow> inFlight b = 0"
| "adminOk L p (Listing fault j v rows rw) \<longleftrightarrow> viewOk p v \<and> list_all (describes L p) rows"
| "adminOk L p (Gone x rw) \<longleftrightarrow> x = Ok ()"
| "adminOk L p t \<longleftrightarrow> True"

fun editOk :: "ServerPool \<Rightarrow> edit \<Rightarrow> bool" where
  "editOk p Nothing \<longleftrightarrow> True"
| "editOk p (Extended ys) \<longleftrightarrow> list_all (\<lambda>i. i < length (backends p)) ys"
| "editOk p (Shifted ys) \<longleftrightarrow> list_all (\<lambda>i. i < length (backends p)) ys"

lemma viewOk_overwritten:
  "viewOk p v \<Longrightarrow> list_all (\<lambda>i. i < length (backends p)) ys \<Longrightarrow> viewOk p (overwritten ys v)"
  by (cases v) (auto simp: list_all_iff dest: in_set_takeD in_set_dropD)

lemma viewOk_seen: "viewOk p v \<Longrightarrow> editOk p e \<Longrightarrow> viewOk p (seen moved e v)"
  by (cases v; cases e) (auto simp del: overwritten.simps intro: viewOk_overwritten)

lemma viewOk_grown: "viewOk p v \<Longrightarrow> grown p p' \<Longrightarrow> viewOk p' v"
  by (cases v) (auto simp: list_all_iff grown_def)

lemma adminOk_grown: "adminOk L p t \<Longrightarrow> grown p p' \<Longrightarrow> adminOk L p' t"
  by (cases t) (auto simp: list_all_iff intro: viewOk_grown describes_grown)

lemma adminOk_lookOn: "adminOk L p t \<Longrightarrow> editOk p e \<Longrightarrow> adminOk L p (lookOn moved e t)"
  by (cases t) (auto intro: viewOk_seen)

lemma acceptForm_ok: "adminOk L p (acceptForm L form rw)"
proof -
  have "0 \<le> sint (toInt32 (goRem (afMaximalRequests form) (2 ^ 31)))"
    if "\<not> sint (afMaximalRequests form) \<le> 0"
    using that capacity_of_limit [of "afMaximalRequests form"] by simp
  then show ?thesis
    by (auto simp: acceptForm_def NewBackendConfig_def NewBackend_def Let_def split: sum.split)
qed

lemma readSlice_ok: "pool_ok p \<Longrightarrow> viewOk p (readSlice p)"
  by (simp add: readSlice_def pool_ok_def)

lemma findStep_ok: "viewOk p v \<Longrightarrow> adminOk L p (findStep L form j v rw p)"
  by (cases v) (simp add: acceptForm_ok)

lemma listStep_ok:
  assumes "viewOk p v" "list_all (describes L p) rows"
  shows "adminOk L p (listStep L fault j v rows rw p)"
proof (cases v)
  case (View arr shared)
  have "describes L p (serverRow L p (arr ! j))" if "j < length arr"
    using that assms(1) View by (auto simp: describes_def list_all_length intro!: exI [of _ "arr ! j"])
  with assms View show ?thesis by simp
qed

text \<open>How a step of a goroutine changes the list of the URLs.\<close>

definition listChange :: "adminLib \<Rightarrow> adminTask \<Rightarrow> ServerPool \<Rightarrow> ServerPool \<Rightarrow> bool" where
  "listChange L t p p' \<longleftrightarrow>
     (let U = alUrls L in
      ServersURLs U p' = ServersURLs U p \<or>
      (\<exists>b rw. t = Adding b rw \<and> ServersURLs U p' = ServersURLs U p @ [urlString U (bUrl b)]) \<or>
      (\<exists>req rw u. t = Came (OpRemove req) rw \<and> reqMethod req = ''DELETE'' \<and>
         u = rfUrl (snd (decodeRemove (reqBody req))) \<and> u \<in> set (ServersURLs U p) \<and>
         ServersURLs U p' = remove1 u (ServersURLs U p)))"

definition keepsPool :: "adminLib \<Rightarrow> adminTask \<Rightarrow> ServerPool \<Rightarrow> adminTask \<Rightarrow> ServerPool \<Rightarrow> edit \<Rightarrow> bool" where
  "keepsPool L t p t' p' e \<longleftrightarrow>
     pool_ok p' \<and> slots_ok p' \<and> grown p p' \<and> adminOk L p' t' \<and> editOk p' e \<and> listChange L t p p'"

lemma keepsPool_local:
  "pool_ok p \<Longrightarrow> slots_ok p \<Longrightarrow> adminOk L p t' \<Longrightarrow> keepsPool L t p t' p Nothing"
  by (simp add: keepsPool_def grown_same listChange_def)

lemma RemoveServerHandler_pool:
  obtains "snd (RemoveServerHandler L req rw p) = p"
  | u where "reqMethod req = ''DELETE''" "u = rfUrl (snd (decodeRemove (reqBody req)))"
      "u \<in> set (ServersURLs (alUrls L) p)"
      "snd (RemoveServerHandler L req rw p) = snd (RemoveServerByUrl (alUrls L) u p)"
proof (cases "reqMethod req = ''DELETE'' \<and>
    removeFirst (\<lambda>i. serverURL (alUrls L) p i = rfUrl (snd (decodeRemove (reqBody req)))) (servers p) \<noteq> None")
  case True
  then have "rfUrl (snd (decodeRemove (reqBody req))) \<in> set (ServersURLs (alUrls L) p)"
    by (auto simp: ServersURLs_def dest!: removeFirst_Some)
  with True show ?thesis
    by (intro that(2)) (auto simp: RemoveServerHandler_def RemoveServerByUrl_def split: prod.split)
next
  case False
  then show ?thesis
    by (intro that(1)) (auto simp: RemoveServerHandler_def RemoveServerByUrl_def split: prod.split)
qed

lemma removeServerStep_keeps:
  assumes "pool_ok p" "slots_ok p" "removeServerStep L req rw p = (t', p', e)"
  shows "keepsPool L (Came (OpRemove req) rw) p t' p' e"
proof (cases rule: RemoveServerHandler_pool [of L req rw p])
  case 1
  with assms show ?thesis by (auto simp: removeServerStep_def intro: keepsPool_local split: prod.splits)
next
  case (2 u)
  then have p': "p' = poolStep (alUrls L) (PRemove u) p" using assms(3) by (simp add: removeServerStep_def split: prod.splits)
  then have ok: "pool_ok p'" "slots_ok p'" using pool_event_keeps [of "PRemove u" p "alUrls L"] assms(1,2) by simp_all
  have same: "backends p' = backends p" by (simp add: p' RemoveServerByUrl_backends)
  have "last (servers p) < length (backends p)" if "length (servers p') < length (servers p)"
  proof -
    have "servers p \<noteq> []" using that by auto
    then show ?thesis using assms(1) by (simp add: pool_ok_def list_all_iff)
  qed
  then have "editOk p' e" using assms(3) ok(1) same by (auto simp: removeServerStep_def pool_ok_def split: prod.splits)
  moreover have "listChange L (Came (OpRemove req) rw) p p'"
    using 2 pool_is_url_list [OF assms(1), of "alUrls L" _ u] by (simp add: listChange_def p')
  moreover have "t' = Gone (Ok ()) (fst (RemoveServerHandler L req rw p))"
    using assms(3) by (auto simp: removeServerStep_def split: prod.splits)
  ultimately show ?thesis using ok same by (simp add: keepsPool_def grown_same)
qed

lemma adminTurn_keeps:
  assumes "pool_ok p" "slots_ok p" "adminOk L p t" "adminTurn L t p = (t', p', e)" "length (servers p') < 2 ^ 31"
  shows "keepsPool L t p t' p' e"
proof (cases "(L, t, p)" rule: adminTurn.cases)
  case (2 L' req rw p'')
  with assms show ?thesis by (auto intro: removeServerStep_keeps)
next
  case (5 L' b rw p'')
  with assms have p': "p' = poolStep (alUrls L) (PAdd b) p" "t' = Dialling (length (backends p)) rw"
    "e = Extended (servers p')" "t = Adding b rw" by auto
  with assms have "pool_ok p'" "slots_ok p'"
    using pool_event_keeps [of "PAdd b" p "alUrls L"] by (simp_all add: AddServer_def)
  then show ?thesis
    using pool_is_url_list [OF assms(1), of "alUrls L" b] p'
    by (auto simp: keepsPool_def grown_poolStep [OF assms(1)] listChange_def pool_ok_def simp del: poolStep.simps)
      (simp_all add: Let_def)
next
  case (6 L' i rw p'')
  with assms have p': "p' = poolStep (alUrls L) (PSetAlive i (CheckIfAlive (alDial L) (backendAt p i))) p"
    "t' = Gone (Ok ()) (snd (writeBody None ''Success!'' rw))" "e = Nothing"
    by (auto simp: healthCheckFunc_def)
  have "grown p p'" unfolding p'(1) by (rule grown_poolStep [OF assms(1)])
  moreover have "servers p' = servers p" by (simp add: p'(1) SetAlive_def)
  moreover from calculation have "ServersURLs (alUrls L) p' = ServersURLs (alUrls L) p" by (rule ServersURLs_grown [OF assms(1)])
  ultimately show ?thesis
    using assms(1,2) p' pool_event_keeps [of "PSetAlive i (CheckIfAlive (alDial L) (backendAt p i))" p "alUrls L"]
    by (simp add: keepsPool_def listChange_def)
qed (use assms readSlice_ok [OF assms(1)] findStep_ok listStep_ok in
    \<open>auto simp: addStart_def listStart_def intro!: keepsPool_local split: prod.splits\<close>)

definition adminsOk :: "adminLib \<Rightarrow> adminTask list \<times> ServerPool \<Rightarrow> bool" where
  "adminsOk L tsp \<longleftrightarrow> pool_ok (snd tsp) \<and> slots_ok (snd tsp) \<and> list_all (adminOk L (snd tsp)) (fst tsp)"

lemma adminsOk_step:
  assumes "adminTogether L tsp tsp'" "adminsOk L tsp"
  shows "adminsOk L tsp'"
  using assms(1)
proof cases
  case (come ts p op rw)
  with assms(2) show ?thesis by (simp add: adminsOk_def)
next
  case (turn t p t' p' e xs ys moved)
  with assms(2) have ok: "pool_ok p" "slots_ok p" "adminOk L p t" by (simp_all add: adminsOk_def)
  have keeps: "keepsPool L t p t' p' e" by (rule adminTurn_keeps [OF ok turn(3,4)])
  then have "adminOk L p' (lookOn moved e t'')" if "adminOk L p t''" for t''
    using adminOk_lookOn adminOk_grown [OF that] by (simp add: keepsPool_def)
  with keeps assms(2) turn(1,2) show ?thesis by (auto simp: adminsOk_def keepsPool_def list_all_iff)
next
  case (traffic ev ts p)
  with assms(2) have ok: "pool_ok p" "slots_ok p" by (simp_all add: adminsOk_def)
  have "poolEventOk ev p" using traffic(3) by (cases ev) simp_all
  with pool_event_keeps ok have "pool_ok (poolStep (alUrls L) ev p)" "slots_ok (poolStep (alUrls L) ev p)" by blast+
  with assms(2) traffic(1,2) show ?thesis
    by (auto simp: adminsOk_def list_all_iff intro: adminOk_grown [OF _ grown_poolStep [OF ok(1)]])
qed

interpretation admins: stable_relation "adminTogether L" "adminsOk L" for L
  by unfold_locales (rule adminsOk_step)

text \<open>A step changes the list of the URLs as its goroutine may, or is traffic and leaves it.\<close>

lemma adminTogether_listChange:
  assumes "adminTogether L (ts, p) (ts', p')" "adminsOk L (ts, p)"
  obtains "ServersURLs (alUrls L) p' = ServersURLs (alUrls L) p"
  | t where "t \<in> set ts" "listChange L t p p'"
  using assms(1)
proof (cases rule: adminTogetherE)
  case (come op rw)
  then show ?thesis by (intro that(1)) simp
next
  case (turn t t' e xs ys moved)
  with assms(2) have ok: "pool_ok p" "slots_ok p" "adminOk L p t" "t \<in> set ts" by (simp_all add: adminsOk_def)
  have "length (servers p') < 2 ^ 31" using turn(4) by simp
  with adminTurn_keeps [OF ok(1-3) turn(3)] ok(4) show ?thesis by (intro that(2)) (auto simp: keepsPool_def)
next
  case (traffic ev)
  have ok: "pool_ok p" using assms(2) by (simp add: adminsOk_def)
  have "servers p' = servers p" "grown p p'"
    using traffic GetNextPeer_frame [OF ok] grown_poolStep [OF ok, of "alUrls L" ev]
    by (cases ev; simp add: SetAlive_def assignAt_def freeAt_def)+
  with ServersURLs_grown [OF ok] show ?thesis by (intro that(1)) simp
qed

section \<open>Steps without interference\<close>

lemma lookOn_Nothing [simp]: "lookOn moved Nothing t = t"
  by (cases t) simp_all

lemmas step_then = converse_rtranclp_into_rtranclp [of "adminTogether L" for L]
  and runs_trans = rtranclp_trans [of "adminTogether L" for L]

lemma turn_alone:
  "adminTurn L t p = (t', p, Nothing) \<Longrightarrow> length (servers p) < 2 ^ 31 \<Longrightarrow>
     adminTogether L (xs @ t # ys, p) (xs @ t' # ys, p)"
  using adminTogether.turn [of L t p t' p Nothing xs ys] by (simp add: map_idI)

lemma finding_alone:
  assumes "FindServerByUrl (alUrls L) (afUrl form) p = None" "length (servers p) < 2 ^ 31" "j + k = length (servers p)"
  shows "(adminTogether L)\<^sup>*\<^sup>* (xs @ Finding form j (readSlice p) rw # ys, p) (xs @ acceptForm L form rw # ys, p)"
  using assms(3)
proof (induction k arbitrary: j)
  case 0
  then have "adminTurn L (Finding form j (readSlice p) rw) p = (acceptForm L form rw, p, Nothing)"
    by (simp add: readSlice_def)
  with turn_alone [OF _ assms(2)] show ?case by blast
next
  case (Suc k)
  have "serverURL (alUrls L) p (servers p ! j) \<noteq> afUrl form"
    using assms(1) Suc.prems by (simp add: FindServerByUrl_def find_None_iff')
  with Suc.prems have "adminTurn L (Finding form j (readSlice p) rw) p = (Finding form (Suc j) (readSlice p) rw, p, Nothing)"
    by (simp add: readSlice_def)
  then show ?case
    by (rule step_then [OF turn_alone [OF _ assms(2)]]) (use Suc in simp)
qed

definition goodForm :: "adminLib \<Rightarrow> AddForm \<Rightarrow> url \<Rightarrow> bool" where
  "goodForm L form u \<longleftrightarrow> 0 < sint (afHealthCheckTcpTimeout form) \<and> 0 < sint (afMaximalRequests form) \<and>
     urlParse (alUrls L) (afUrl form) = Inr u"

lemma acceptForm_good:
  "goodForm L form u \<Longrightarrow> acceptForm L form rw = Adding (formBackend u form) rw"
  using capacity_of_limit [of "afMaximalRequests form"]
  by (simp add: goodForm_def acceptForm_def NewBackendConfig_def NewBackend_def Let_def formBackend_def)

lemma post_alone:
  assumes "FindServerByUrl (alUrls L) (afUrl form) p = None" "length (servers p) < 2 ^ 31" "goodForm L form u"
    and "reqMethod req = ''POST''" "decodeAdd (reqBody req) = (None, form)"
  shows "(adminTogether L)\<^sup>*\<^sup>* (xs @ Came (OpAdd req) rw # ys, p) (xs @ Adding (formBackend u form) rw # ys, p)"
proof -
  have "adminTurn L (Came (OpAdd req) rw) p = (Finding form 0 (readSlice p) rw, p, Nothing)"
    using assms(4,5) by (simp add: addStart_def)
  then show ?thesis
    by (rule step_then [OF turn_alone [OF _ assms(2)]])
      (use finding_alone [OF assms(1,2), of 0 _ xs rw ys] in \<open>simp add: acceptForm_good [OF assms(3)]\<close>)
qed

text \<open>The rest of an addition.\<close>

abbreviation added :: "adminLib \<Rightarrow> Backend \<Rightarrow> ServerPool \<Rightarrow> ServerPool" where
  "added L b p \<equiv> healthCheckFunc (alDial L) (length (backends p)) (AddServer b p)"

lemma adding_alone:
  assumes "Suc (length (servers p)) < 2 ^ 31" "\<And>m e. map (lookOn m e) xs = xs" "\<And>m e. map (lookOn m e) ys = ys"
  shows "(adminTogether L)\<^sup>*\<^sup>* (xs @ Adding b rw # ys, p)
    (xs @ Gone (Ok ()) (snd (writeBody None ''Success!'' rw)) # ys, added L b p)"
proof -
  have len: "length (servers (AddServer b p)) < 2 ^ 31" "length (servers (added L b p)) < 2 ^ 31"
    using assms(1) by (simp_all add: AddServer_def healthCheckFunc_def SetAlive_def)
  have 1: "adminTogether L (xs @ Adding b rw # ys, p) (xs @ Dialling (length (backends p)) rw # ys, AddServer b p)"
    using adminTogether.turn [OF adminTurn.simps(5) len(1), of L xs rw ys] assms(2,3) by simp
  have "adminTogether L (xs @ Dialling (length (backends p)) rw # ys, AddServer b p)
      (xs @ Gone (Ok ()) (snd (writeBody None ''Success!'' rw)) # ys, added L b p)"
    using adminTogether.turn [OF adminTurn.simps(6) len(2), of xs rw ys] by (simp add: map_idI)
  with 1 show ?thesis by (rule step_then [OF _ r_into_rtranclp])
qed

lemma ServersURLs_added:
  assumes "pool_ok p" "Suc (length (servers p)) < 2 ^ 31"
  shows "ServersURLs U (added L b p) = ServersURLs U p @ [urlString U (bUrl b)]" "pool_ok (added L b p)"
    "length (servers (added L b p)) = Suc (length (servers p))"
proof -
  have ok: "pool_ok (AddServer b p)" by (rule pool_ok_AddServer [OF assms])
  then have "ServersURLs U (added L b p) = ServersURLs U (AddServer b p)"
    using grown_poolStep [OF ok, of U "PSetAlive _ _"] by (intro ServersURLs_grown) (simp_all add: healthCheckFunc_def SetAlive_def)
  with pool_is_url_list [OF assms(1)] show "ServersURLs U (added L b p) = ServersURLs U p @ [urlString U (bUrl b)]"
    by simp
  show "pool_ok (added L b p)" "length (servers (added L b p)) = Suc (length (servers p))"
    using ok by (simp_all add: healthCheckFunc_def SetAlive_def) (simp add: AddServer_def)
qed

lemma goodForm_sample:
  "goodForm sampleAdmin (sampleForm 7) \<lparr>urlScheme = ''http'', urlHost = ''d'', urlRest = []\<rparr>"
  by (simp add: goodForm_def) (simp add: sampleUrls_def)

definition deleteForm :: "string \<Rightarrow> request" where
  "deleteForm x = (refRequest ''DELETE'' [])\<lparr>reqBody := printJson (JObj [(''Url'', JStr x)])\<rparr>"

lemma deleteForm_decodes:
  assumes "asciiString x"
  shows "reqMethod (deleteForm x) = ''DELETE''" "decodeRemove (reqBody (deleteForm x)) = (None, \<lparr>rfUrl = x\<rparr>)"
proof -
  have "asciiString ''Url''" by (simp add: asciiString_def)
  with assms have "plainJson (JObj [(''Url'', JStr x)])" by simp
  then show "decodeRemove (reqBody (deleteForm x)) = (None, \<lparr>rfUrl = x\<rparr>)"
    by (simp add: deleteForm_def decodeRemove_def decodeBody_print bindMember_def selectField_def strField_def
        del: plainJson.simps)
qed (simp add: deleteForm_def)

lemma sampleURLs: "ServersURLs sampleUrls samplePool = [''a'', ''b'', ''c'']"
  by (simp add: ServersURLs_def serverURL_def backendAt_def samplePool_def sampleUrls_def sampleBackend_def)

section \<open>What the list of servers goes through\<close>

text \<open>C17: However administration requests overlap with each other, with health checks and with requests that
  are being proxied, the pool stays sound and within its limits, every administration request that
  has ended has ended without a panic, and each row a list has collected describes a server there is.
  Each step leaves the list of URLs as it is, or it appends the URL of a
  backend that an accepted form has made, or it takes out the first occurrence of the URL of a DELETE
  request.\<close>
theorem admin_changes_only:
  assumes "pool_ok p" "slots_ok p" and "(adminTogether L)\<^sup>*\<^sup>* ([], p) (ts, p')"
  shows "pool_ok p' \<and> (\<forall>b \<in> set (backends p'). inFlight b \<le> maximalRequests b) \<and>
    (\<forall>x rw. Gone x rw \<in> set ts \<longrightarrow> x = Ok ()) \<and>
    (\<forall>fault j v rows rw. Listing fault j v rows rw \<in> set ts \<longrightarrow> list_all (describes L p') rows) \<and>
    (\<forall>ts'' p''. adminTogether L (ts, p') (ts'', p'') \<longrightarrow>
       ServersURLs (alUrls L) p'' = ServersURLs (alUrls L) p' \<or> (\<exists>t \<in> set ts. listChange L t p' p''))"
proof -
  have ok: "adminsOk L (ts, p')"
    using admins.reachable [OF assms(3)] assms(1,2) by (simp add: adminsOk_def)
  have tasks: "adminOk L p' t" if "t \<in> set ts" for t using ok that by (simp add: adminsOk_def list_all_iff)
  have "pool_ok p'" "\<forall>b \<in> set (backends p'). inFlight b \<le> maximalRequests b"
    using ok by (simp_all add: adminsOk_def slots_ok_def list_all_iff)
  moreover have "\<forall>x rw. Gone x rw \<in> set ts \<longrightarrow> x = Ok ()" using tasks by fastforce
  moreover have "list_all (describes L p') rows" if "Listing fault j v rows rw \<in> set ts" for fault j v rows rw
    using tasks [OF that] by simp
  moreover have "ServersURLs (alUrls L) p'' = ServersURLs (alUrls L) p' \<or> (\<exists>t \<in> set ts. listChange L t p' p'')"
    if "adminTogether L (ts, p') (ts'', p'')" for ts'' p''
    by (rule adminTogether_listChange [OF that ok]) blast+
  ultimately show ?thesis by blast
qed

theorem admin_changes_only_witness:
  "\<exists>p'. (adminTogether sampleAdmin)\<^sup>*\<^sup>* ([], samplePool)
      ([Gone (Ok ()) (snd (writeBody None ''Success!'' newWriter))], p') \<and>
    length (servers p') = 4 \<and> (\<forall>b \<in> set (backends p'). inFlight b \<le> maximalRequests b)"
proof -
  let ?b = "formBackend \<lparr>urlScheme = ''http'', urlHost = ''d'', urlRest = []\<rparr> (sampleForm 7)"
  have len: "length (servers samplePool) < 2 ^ 31" "Suc (length (servers samplePool)) < 2 ^ 31"
    by (simp_all add: samplePool_def)
  have find: "FindServerByUrl (alUrls sampleAdmin) (afUrl (sampleForm 7)) samplePool = None"
    by (simp add: sample_not_listed)
  have 1: "adminTogether sampleAdmin ([], samplePool) ([Came (OpAdd (postForm 7 [])) newWriter], samplePool)"
    using adminTogether.come [of _ "[]"] by simp
  note 2 = post_alone [OF find len(1) goodForm_sample _ decode_postForm(1), of "[]" newWriter "[]", unfolded append.simps]
  note 3 = adding_alone [OF len(2), of "[]" "[]" sampleAdmin ?b newWriter, unfolded append.simps]
  have run: "(adminTogether sampleAdmin)\<^sup>*\<^sup>* ([], samplePool)
      ([Gone (Ok ()) (snd (writeBody None ''Success!'' newWriter))], added sampleAdmin ?b samplePool)"
    by (rule step_then [OF 1 runs_trans [OF 2 3]]) simp_all
  moreover have "length (servers (added sampleAdmin ?b samplePool)) = 4"
    using ServersURLs_added(3) [OF pool_ok_sample len(2), of sampleAdmin ?b] by (simp add: samplePool_def)
  ultimately show ?thesis using admin_changes_only [OF pool_ok_sample slots_ok_sample run] by blast
qed

section \<open>The server that is added twice\<close>

lemma notListed_find: "pool_ok p \<Longrightarrow> FindServerByUrl U x p = None \<longleftrightarrow> x \<notin> set (ServersURLs U p)"
  using pool_is_url_list [of p U _ x] by blast

lemma delete_first:
  assumes "pool_ok p" "reqMethod del = ''DELETE''" "decodeRemove (reqBody del) = (None, \<lparr>rfUrl = x\<rparr>)"
    and "x \<in> set (ServersURLs (alUrls L) p)"
  obtains w p' where "RemoveServerHandler L del newWriter p = (w, p')" "rwStatus w = Some 200"
    "ServersURLs (alUrls L) p' = remove1 x (ServersURLs (alUrls L) p)"
proof -
  obtain p' where rem: "RemoveServerByUrl (alUrls L) x p = (None, p')"
    "ServersURLs (alUrls L) p' = remove1 x (ServersURLs (alUrls L) p)"
    using pool_is_url_list [OF assms(1), of "alUrls L" _ x] assms(4) by (metis prod.collapse snd_conv)
  with assms(2,3) show ?thesis
    by (intro that [of "snd (writeBody None ''Success!'' newWriter)" p'])
      (simp_all add: RemoveServerHandler_def rwStatus_writeBody newWriter_def)
qed

text \<open>C29: Two POST requests for the same server that is not listed yet. One after the other the first is answered
  200 and lists the server, and the second is answered 412 and changes nothing. At once, each can look
  for the server before the other has listed it; then both are answered 200 and the server is listed twice, so
  that it gets two turns in every round of the balancer, and a DELETE that is answered 200 leaves it
  listed.\<close>
theorem add_listed_twice:
  assumes "pool_ok p" "Suc (Suc (length (servers p))) < 2 ^ 31"
    and "reqMethod req = ''POST''" "decodeAdd (reqBody req) = (None, form)"
    and "goodForm L form u" "urlString (alUrls L) u = afUrl form" "afUrl form \<notin> set (ServersURLs (alUrls L) p)"
    and "reqMethod del = ''DELETE''" "decodeRemove (reqBody del) = (None, \<lparr>rfUrl = afUrl form\<rparr>)"
  shows "\<exists>w p1 w1 w2 p2 w3 p3.
    AddServerHandler L req newWriter p = (Ok (), w, p1) \<and> rwStatus w = Some 200 \<and>
    ServersURLs (alUrls L) p1 = ServersURLs (alUrls L) p @ [afUrl form] \<and>
    (\<exists>w'. AddServerHandler L req newWriter p1 = (Ok (), w', p1) \<and> rwStatus w' = Some 412) \<and>
    (adminTogether L)\<^sup>*\<^sup>* ([Came (OpAdd req) newWriter, Came (OpAdd req) newWriter], p) ([Gone (Ok ()) w1, Gone (Ok ()) w2], p2) \<and>
    rwStatus w1 = Some 200 \<and> rwStatus w2 = Some 200 \<and>
    ServersURLs (alUrls L) p2 = ServersURLs (alUrls L) p @ [afUrl form, afUrl form] \<and>
    RemoveServerHandler L del newWriter p2 = (w3, p3) \<and> rwStatus w3 = Some 200 \<and>
    ServersURLs (alUrls L) p3 = ServersURLs (alUrls L) p @ [afUrl form]"
proof -
  let ?x = "afUrl form" and ?b = "formBackend u form" and ?new = "Came (OpAdd req) newWriter"
  let ?done = "Gone (Ok ()) (snd (writeBody None ''Success!'' newWriter))"
  let ?p1 = "added L ?b p"
  let ?p2 = "added L ?b ?p1"
  have find: "FindServerByUrl (alUrls L) ?x p = None" using assms(1,7) by (simp add: notListed_find)
  have len: "Suc (length (servers p)) < 2 ^ 31" "length (servers p) < 2 ^ 31" using assms(2) by simp_all
  have url: "urlString (alUrls L) (bUrl ?b) = ?x" using assms(6) by (simp add: formBackend_def)
  note p1 = ServersURLs_added(1) [OF assms(1) len(1), of "alUrls L" L ?b, unfolded url]
    ServersURLs_added(2,3) [OF assms(1) len(1), of L ?b]
  have len1: "Suc (length (servers ?p1)) < 2 ^ 31" using assms(2) p1(3) by simp
  note p2 = ServersURLs_added(1) [OF p1(2) len1, of "alUrls L" L ?b, unfolded url p1(1)]
    ServersURLs_added(2) [OF p1(2) len1, of L ?b]
  have first: "AddServerHandler L req newWriter p = (Ok (), snd (writeBody None ''Success!'' newWriter), ?p1)"
    using addForm_accepts [OF find] assms(3-5) by (simp add: AddServerHandler_def goodForm_def)
  have "FindServerByUrl (alUrls L) ?x ?p1 \<noteq> None" using notListed_find [OF p1(2)] p1(1) by simp
  then have second: "\<exists>w'. AddServerHandler L req newWriter ?p1 = (Ok (), w', ?p1) \<and> rwStatus w' = Some 412"
    using assms(3,4) by (simp add: AddServerHandler_def addForm_def rwStatus_httpError newWriter_def)
  note post = post_alone [OF find len(2) assms(5,3,4)]
  have looked: "(adminTogether L)\<^sup>*\<^sup>* ([?new, ?new], p) ([Adding ?b newWriter, Adding ?b newWriter], p)"
    by (rule runs_trans [OF post [of "[]" newWriter "[?new]", unfolded append.simps]
          post [of "[Adding ?b newWriter]" newWriter "[]", unfolded append.simps]])
  have "(adminTogether L)\<^sup>*\<^sup>* ([Adding ?b newWriter, Adding ?b newWriter], p) ([?done, ?done], ?p2)"
    using runs_trans [OF adding_alone [OF len(1), of "[]" "[Adding ?b newWriter]" L ?b newWriter, unfolded append.simps]
        adding_alone [OF len1, of "[?done]" "[]" L ?b newWriter, unfolded append.simps]] by simp
  from runs_trans [OF looked this] have both: "(adminTogether L)\<^sup>*\<^sup>* ([?new, ?new], p) ([?done, ?done], ?p2)" .
  have "?x \<in> set (ServersURLs (alUrls L) ?p2)" by (simp add: p2(1))
  from delete_first [OF p2(2) assms(8,9) this]
  obtain w3 p3 where del: "RemoveServerHandler L del newWriter ?p2 = (w3, p3)" "rwStatus w3 = Some 200"
    "ServersURLs (alUrls L) p3 = remove1 ?x (ServersURLs (alUrls L) ?p2)" .
  have "ServersURLs (alUrls L) p3 = ServersURLs (alUrls L) p @ [?x]"
    using assms(7) by (simp add: del(3) p2(1) remove1_append)
  moreover have "rwStatus (snd (writeBody None ''Success!'' newWriter)) = Some 200"
    by (simp add: rwStatus_writeBody newWriter_def)
  moreover have "ServersURLs (alUrls L) ?p2 = ServersURLs (alUrls L) p @ [?x, ?x]" using p2(1) by simp
  ultimately show ?thesis using first second both del(1,2) p1(1) by blast
qed

theorem add_listed_twice_witness:
  "\<exists>w1 w2 p2. (adminTogether sampleAdmin)\<^sup>*\<^sup>*
      ([Came (OpAdd (postForm 7 [])) newWriter, Came (OpAdd (postForm 7 [])) newWriter], samplePool)
      ([Gone (Ok ()) w1, Gone (Ok ()) w2], p2) \<and>
    ServersURLs sampleUrls p2 = [''a'', ''b'', ''c'', ''d'', ''d'']"
proof -
  have "asciiString ''d''" by (simp add: asciiString_def)
  note del = deleteForm_decodes [OF this]
  have "Suc (Suc (length (servers samplePool))) < 2 ^ 31" by (simp add: samplePool_def)
  from add_listed_twice [OF pool_ok_sample this _ decode_postForm(1) goodForm_sample _ _ del(1)] del(2) show ?thesis
    by (auto simp: sampleURLs) (auto simp: sampleUrls_def)
qed

section \<open>The list that misses a server\<close>

lemma listing_alone:
  assumes "length (servers p) < 2 ^ 31" "j + k = length arr"
  shows "(adminTogether L)\<^sup>*\<^sup>* (xs @ Listing fault j (View arr shared) rows rw # ys, p)
    (xs @ Gone (Ok ()) (sendRows fault (rows @ map (serverRow L p) (drop j arr)) rw) # ys, p)"
  using assms(2)
proof (induction k arbitrary: j rows)
  case 0
  then have "adminTurn L (Listing fault j (View arr shared) rows rw) p = (Gone (Ok ()) (sendRows fault rows rw), p, Nothing)"
    by simp
  from turn_alone [OF this assms(1)] 0 show ?case by (simp add: r_into_rtranclp)
next
  case (Suc k)
  then have j: "j < length arr" by simp
  then have "adminTurn L (Listing fault j (View arr shared) rows rw) p =
      (Listing fault (Suc j) (View arr shared) (rows @ [serverRow L p (arr ! j)]) rw, p, Nothing)" by simp
  then show ?case
    by (rule step_then [OF turn_alone [OF _ assms(1)]])
      (use Suc.IH [of "Suc j" "rows @ [serverRow L p (arr ! j)]"] Suc.prems j in \<open>simp flip: Cons_nth_drop_Suc\<close>)
qed

text \<open>The list handler walks the array of the slice without the lock while a removal shifts it. When the first
  server is removed after its row has been read, the list is answered 200 with the row of the removed
  server, without the row of the second server, which is listed before and after, and with the
  last server twice.\<close>
theorem list_misses_server:
  assumes "pool_ok p" "servers p = a # b # rest" "rest \<noteq> []" "distinct (ServersURLs (alUrls L) p)"
    and "reqMethod req = ''GET''"
    and "reqMethod del = ''DELETE''" "decodeRemove (reqBody del) = (None, \<lparr>rfUrl = serverURL (alUrls L) p a\<rparr>)"
  shows "\<exists>rows w p'.
    (adminTogether L)\<^sup>*\<^sup>* ([Came (OpList None req) newWriter, Came (OpRemove del) newWriter], p)
      ([Gone (Ok ()) (sendRows None rows newWriter), Gone (Ok ()) w], p') \<and>
    rwStatus (sendRows None rows newWriter) = Some 200 \<and> rwStatus w = Some 200 \<and> servers p' = b # rest \<and>
    map grURL rows = map (serverURL (alUrls L) p) (a # rest @ [last rest]) \<and>
    serverURL (alUrls L) p b \<notin> set (map grURL rows)"
proof -
  let ?url = "serverURL (alUrls L) p" and ?v = "View (servers p) True"
  let ?ok = "snd (writeBody None ''Success!'' newWriter)" and ?p = "p\<lparr>servers := b # rest\<rparr>"
  let ?arr = "b # rest @ [last rest]" and ?came = "Came (OpRemove del) newWriter"
  let ?rows = "serverRow L p a # map (serverRow L ?p) (rest @ [last rest])"
  let ?open = "Listing None 1 ?v [serverRow L p a] newWriter"
  have len: "length (servers p) < 2 ^ 31" using assms(1) by (simp add: pool_ok_def)
  have "adminTurn L (Came (OpList None req) newWriter) p = (Listing None 0 ?v [] newWriter, p, Nothing)"
    using assms(5) by (simp add: listStart_def readSlice_def)
  note 1 = turn_alone [OF this len, of "[]" "[?came]", unfolded append.simps]
  have "adminTurn L (Listing None 0 ?v [] newWriter) p = (?open, p, Nothing)" using assms(2) by simp
  note 2 = turn_alone [OF this len, of "[]" "[?came]", unfolded append.simps]
  have "RemoveServerHandler L del newWriter p = (?ok, ?p)"
    using assms(2,6,7) by (simp add: RemoveServerHandler_def RemoveServerByUrl_def)
  then have "adminTurn L ?came p = (Gone (Ok ()) ?ok, ?p, Shifted ?arr)"
    using assms(2,3) by (simp add: removeServerStep_def)
  from adminTogether.turn [OF this, of "[?open]" "[]" False]
  have 3: "adminTogether L ([?open, ?came], p) ([Listing None 1 (View ?arr True) [serverRow L p a] newWriter, Gone (Ok ()) ?ok], ?p)"
    using assms(2) len by simp
  have 4: "(adminTogether L)\<^sup>*\<^sup>* ([Listing None 1 (View ?arr True) [serverRow L p a] newWriter, Gone (Ok ()) ?ok], ?p)
      ([Gone (Ok ()) (sendRows None ?rows newWriter), Gone (Ok ()) ?ok], ?p)"
    using listing_alone [of ?p 1 "Suc (length rest)" ?arr L "[]" None True "[serverRow L p a]" newWriter "[Gone (Ok ()) ?ok]"]
      assms(2) len by simp
  note run = step_then [OF 1 step_then [OF 2 step_then [OF 3 4]]]
  have "serverURL (alUrls L) ?p = ?url" by (simp add: fun_eq_iff serverURL_def backendAt_def)
  then have urls: "map grURL ?rows = map ?url (a # rest @ [last rest])"
    by (simp add: serverRow_def serverURL_def Let_def fun_eq_iff)
  have "?url b \<notin> set (map ?url (a # rest @ [last rest]))"
    using assms(2-4) by (auto simp: ServersURLs_def)
  moreover have "rwStatus (sendRows None ?rows newWriter) = Some 200" "rwStatus ?ok = Some 200"
    by (simp_all add: sendRows_def encodeServers_def writeBody_def writeHeader_def newWriter_def)
  ultimately show ?thesis using run urls by (intro exI [of _ ?rows] exI [of _ ?ok] exI [of _ ?p]) simp
qed

theorem list_misses_server_witness:
  "\<exists>rows w p'. (adminTogether sampleAdmin)\<^sup>*\<^sup>*
      ([Came (OpList None (refRequest ''GET'' [])) newWriter, Came (OpRemove (deleteForm ''a'')) newWriter], samplePool)
      ([Gone (Ok ()) (sendRows None rows newWriter), Gone (Ok ()) w], p') \<and>
    map grURL rows = [''a'', ''c'', ''c'']"
proof -
  have servers: "servers samplePool = 0 # 1 # [2]" by (simp add: samplePool_def)
  have urls: "map (serverURL sampleUrls samplePool) [0, 1, 2] = [''a'', ''b'', ''c'']"
    using sampleURLs by (simp add: ServersURLs_def servers)
  have "asciiString ''a''" by (simp add: asciiString_def)
  note del = deleteForm_decodes [OF this]
  have form: "decodeRemove (reqBody (deleteForm ''a'')) = (None, \<lparr>rfUrl = serverURL (alUrls sampleAdmin) samplePool 0\<rparr>)"
    "distinct (ServersURLs (alUrls sampleAdmin) samplePool)" "reqMethod (refRequest ''GET'' []) = ''GET''"
    using del(2) urls by (simp_all add: sampleURLs)
  show ?thesis
    using list_misses_server [OF pool_ok_sample servers not_Cons_self2 form(2,3) del(1) form(1)] urls
    by (elim exE conjE) (intro exI conjI, assumption, simp)
qed

end
