(* ===== verification/Launch.thy ===== *)
theory Launch
  imports Startup CacheRaces
begin

text \<open>
  The rest of \<open>main\<close> after the balancer is made (\<open>main.go\<close> from \<open>go loadBalancer.CacheProps().Observe()\<close>
  on), with the goroutines it has started running beside it: the cleaner ticks, and from \<open>http.Serve\<close>
  on requests arrive, while \<open>metrics.GlobalMetrics\<close> stays nil until \<open>metrics.Init\<close>, the last stage.
  \<open>Startup\<close> computes the same start in one go.
\<close>

section \<open>The process\<close>

text \<open>Where \<open>main\<close> is. \<open>metrics.Init\<close> takes the size and the number of pages when it is called, replaces
  the metrics, and then sets the two gauges of the cache. At \<open>StWait\<close> the goroutine that serves the
  metrics has been started and \<open>main\<close> waits.\<close>

datatype stage =
    StUsers
  | StCert
  | StListen
  | StServe
  | StInit
  | StNew int64 int
  | StSize int64 int
  | StPages int
  | StWait

record ('db, 'u) process =
  prStage :: stage
  prUsers :: "'u option"
  prService :: "(authService \<times> 'u authState) option"
  prLb :: "'db LoadBalancer"
  prServing :: bool
  prNil :: bool
  prCleaner :: task
  prEnd :: "unit res option"

definition onCache :: "('db CachingProperties \<Rightarrow> 'db CachingProperties) \<Rightarrow> 'db LoadBalancer \<Rightarrow> 'db LoadBalancer" where
  "onCache f lb = lb\<lparr>lbCache := map_option f (lbCache lb)\<rparr>"

definition stageOr ::
  "unit res \<Rightarrow> stage \<Rightarrow> ('db, 'u) process \<Rightarrow> ('db, 'u) process" where
  "stageOr r goal s = (case r of Ok u \<Rightarrow> s\<lparr>prStage := goal\<rparr> | _ \<Rightarrow> s\<lparr>prEnd := Some r\<rparr>)"

definition usersStage :: "('db, 'u) bootWorld \<Rightarrow> ('db, 'u) process \<Rightarrow> ('db, 'u) process" where
  "usersStage W s =
     (case startUsers W (prUsers s) of
        (Ok sa, users) \<Rightarrow> s\<lparr>prStage := StCert, prUsers := users, prService := Some sa\<rparr>
      | (Err e, users) \<Rightarrow> s\<lparr>prUsers := users, prEnd := Some (Err e)\<rparr>
      | (Panic m, users) \<Rightarrow> s\<lparr>prUsers := users, prEnd := Some (Panic m)\<rparr>)"

text \<open>A balancer always has a cache here; the nil case is the one of \<open>CacheProps()\<close>.\<close>

definition initStage :: "('db, 'u) process \<Rightarrow> ('db, 'u) process" where
  "initStage s =
     (case lbCache (prLb s) of
        None \<Rightarrow> s\<lparr>prEnd := Some (Panic ''nil pointer dereference'')\<rparr>
      | Some c \<Rightarrow> s\<lparr>prStage := StNew (Size c) (PagesCount c)\<rparr>)"

fun mainStep :: "('db, 'u) bootWorld \<Rightarrow> stage \<Rightarrow> ('db, 'u) process \<Rightarrow> ('db, 'u) process" where
  "mainStep W StUsers s = usersStage W s"
| "mainStep W StCert s = stageOr (checkFatal ''Failed to load crt and key'' (bwCert W)) StListen s"
| "mainStep W StListen s = stageOr (checkFatal ''Failed to start tcp listener'' (bwListen W)) StServe s"
| "mainStep W StServe s = s\<lparr>prServing := True, prStage := StInit\<rparr>"
| "mainStep W StInit s = initStage s"
| "mainStep W (StNew n k) s =
     s\<lparr>prNil := False, prLb := onCache (\<lambda>c. c\<lparr>gaugeSize := 0, gaugePages := 0\<rparr>) ((prLb s)\<lparr>lbMetrics := NewMetrics\<rparr>),
       prStage := StSize n k\<rparr>"
| "mainStep W (StSize n k) s = s\<lparr>prLb := onCache (UpdateCacheSize n) (prLb s), prStage := StPages k\<rparr>"
| "mainStep W (StPages k) s = s\<lparr>prLb := onCache (UpdateCachePagesCount k) (prLb s), prStage := StWait\<rparr>"
| "mainStep W StWait s = s"

text \<open>A step of the cleaner that touches a metric panics as long as there are none; a panic of its
  goroutine ends the process.\<close>

fun onGauge :: "instr \<Rightarrow> bool" where
  "onGauge (ISetGauge v) \<longleftrightarrow> True"
| "onGauge (IAddPages k) \<longleftrightarrow> True"
| "onGauge _ \<longleftrightarrow> False"

definition execNil ::
  "bool \<Rightarrow> 'db cacheEnv \<Rightarrow> instr \<Rightarrow> instr list \<Rightarrow> Page option res \<Rightarrow> 'db CachingProperties \<Rightarrow> task \<times> 'db CachingProperties" where
  "execNil noMetrics E i rest out c =
     (if noMetrics \<and> onGauge i then (([], Panic ''nil pointer dereference''), c) else exec E i rest out c)"

definition cleanerStep ::
  "'db cacheEnv \<Rightarrow> instr \<Rightarrow> instr list \<Rightarrow> Page option res \<Rightarrow> 'db CachingProperties \<Rightarrow> ('db, 'u) process \<Rightarrow> ('db, 'u) process" where
  "cleanerStep E i rest out c s =
     (case execNil (prNil s) E i rest out c of
        ((code, r), c') \<Rightarrow>
          s\<lparr>prLb := onCache (\<lambda>_. c') (prLb s), prCleaner := (code, r),
            prEnd := (case (code, r) of ([], Panic m) \<Rightarrow> Some (Panic m) | _ \<Rightarrow> None)\<rparr>)"

text \<open>
  A request that goes to the backends while there are no metrics: as \<open>backendHandler\<close> up to
  \<open>metrics.GlobalMetrics.RequestsNow.Inc()\<close>, which panics before anything is deferred; net/http
  recovers the panic of a handler. \<open>None\<close> is out of fuel.
\<close>

fun earlyBackend :: "'db lbWorld \<Rightarrow> nat \<Rightarrow> nat \<Rightarrow> 'db hstate \<Rightarrow> (unit res \<times> 'db hstate) option" where
  "earlyBackend V 0 k h = None"
| "earlyBackend V (Suc fuel) k h =
     (let h = others V k 0 h in
      case GetNextPeer (lbPool (hLb h)) of
        (Err e, p) \<Rightarrow> Some (Err e, onRw (httpError (errText e) 503) (onPool (\<lambda>_. p) h))
      | (Panic m, p) \<Rightarrow> Some (Panic m, onPool (\<lambda>_. p) h)
      | (Ok server, p) \<Rightarrow>
          (let h = others V k 1 (onPool (\<lambda>_. p) h) in
           case assignAt server (lbPool (hLb h)) of
             (False, p) \<Rightarrow> earlyBackend V fuel (Suc k) (onPool (\<lambda>_. p) h)
           | (True, p) \<Rightarrow> Some (Panic ''nil pointer dereference'', onPool (\<lambda>_. p) h)))"

inductive procStep :: "('db, 'u) bootWorld \<Rightarrow> ('db, 'u) process \<Rightarrow> ('db, 'u) process \<Rightarrow> bool" for W where
  main: "prEnd s = None \<Longrightarrow> procStep W s (mainStep W (prStage s) s)"
| tick: "prEnd s = None \<Longrightarrow> prCleaner s = ([], out) \<Longrightarrow> procStep W s (s\<lparr>prCleaner := launch (EvTick clk)\<rparr>)"
| clean: "prEnd s = None \<Longrightarrow> prCleaner s = (i # rest, out) \<Longrightarrow> lbCache (prLb s) = Some c \<Longrightarrow>
    procStep W s (cleanerStep (bwCache W) i rest out c s)"
| request: "prEnd s = None \<Longrightarrow> prServing s \<Longrightarrow> prNil s \<Longrightarrow> h = \<lparr>hRw = newWriter, hReq = r, hLb = prLb s\<rparr> \<Longrightarrow>
    earlyBackend V fuel 0 h = Some (x, h') \<Longrightarrow> procStep W s (s\<lparr>prLb := hLb h'\<rparr>)"
| serveFails: "prEnd s = None \<Longrightarrow> prServing s \<Longrightarrow>
    procStep W s (s\<lparr>prEnd := Some (Err (ErrWrap ''Failed to serve tcp listener: '' e))\<rparr>)"
| promFails: "prEnd s = None \<Longrightarrow> prStage s = StWait \<Longrightarrow>
    procStep W s (s\<lparr>prEnd := Some (Err (ErrWrap ''Failed to start prometheus server: '' e))\<rparr>)"

text \<open>What \<open>main\<close> begins with: the balancer as \<open>startBalancer\<close> made it.\<close>

definition launched :: "'db LoadBalancer \<Rightarrow> 'u option \<Rightarrow> ('db, 'u) process" where
  "launched lb users =
     \<lparr>prStage = StUsers, prUsers = users, prService = None, prLb = lb, prServing = False, prNil = True,
      prCleaner = ([], Ok None), prEnd = None\<rparr>"

section \<open>Undisturbed, the stages are the start\<close>

definition mainRun :: "('db, 'u) bootWorld \<Rightarrow> nat \<Rightarrow> ('db, 'u) process \<Rightarrow> ('db, 'u) process" where
  "mainRun W n = (\<lambda>s. if prEnd s = None then mainStep W (prStage s) s else s) ^^ n"

lemma mainRun_Suc:
  "mainRun W (Suc n) s = mainRun W n (if prEnd s = None then mainStep W (prStage s) s else s)"
  by (simp only: mainRun_def funpow_Suc_right o_apply)

lemma mainRun_0 [simp]: "mainRun W 0 s = s"
  by (simp add: mainRun_def)

lemma mainRun_ended: "prEnd s \<noteq> None \<Longrightarrow> mainRun W n s = s"
  by (induction n) (auto simp: mainRun_Suc)

lemma mainRun_go: "prEnd s = None \<Longrightarrow> mainRun W (Suc n) s = mainRun W n (mainStep W (prStage s) s)"
  by (simp add: mainRun_Suc)

lemma launched_simps [simp]:
  "prStage (launched lb users) = StUsers" "prEnd (launched lb users) = None" "prUsers (launched lb users) = users"
  "prLb (launched lb users) = lb"
  by (simp_all add: launched_def)

lemma mainRun_steps: "(procStep W)\<^sup>*\<^sup>* s (mainRun W n s)"
proof (induction n arbitrary: s)
  case 0
  then show ?case by simp
next
  case (Suc n)
  show ?case
  proof (cases "prEnd s = None")
    case True
    with Suc [of "mainStep W (prStage s) s"] show ?thesis
      by (auto simp: mainRun_Suc intro: converse_rtranclp_into_rtranclp procStep.main)
  next
    case False
    then show ?thesis by (simp add: mainRun_ended)
  qed
qed

definition endsAs ::
  "(LoadBalancerConfig \<times> authService \<times> ('db, 'u) bduts) res \<times> 'u option \<Rightarrow> LoadBalancerConfig \<Rightarrow> ('db, 'u) process \<Rightarrow> bool" where
  "endsAs ru cfg s \<longleftrightarrow>
     prUsers s = snd ru \<and>
     (case fst ru of
        Ok (cfg', svc, st) \<Rightarrow>
          prEnd s = None \<and> prStage s = StWait \<and> prServing s \<and> \<not> prNil s \<and> cfg' = cfg \<and>
          prLb s = bdLb st \<and> prService s = Some (svc, bdAuth st)
      | Err e \<Rightarrow> prEnd s = Some (Err e)
      | Panic m \<Rightarrow> prEnd s = Some (Panic m))"

text \<open>Left alone, \<open>main\<close> ends after its eight stages where \<open>startProgram\<close> ends: waiting, with the balancer
  whose metrics are set and the users, or with the same error or panic.\<close>
lemma start_in_stages:
  assumes "startBalancer W = Ok (cfg, lb)"
  shows "(procStep W)\<^sup>*\<^sup>* (launched lb users) (mainRun W 8 (launched lb users)) \<and>
    endsAs (startProgram W users) cfg (mainRun W 8 (launched lb users))"
proof (rule conjI [OF mainRun_steps])
  define s where "s = mainRun W 8 (launched lb users)"
  obtain c where cache: "lbCache lb = Some c" by (rule startBalancer_Ok [OF assms])
  obtain r users' where users: "startUsers W users = (r, users')" by (rule prod.exhaust)
  have eight: "(8 :: nat) = Suc (Suc (Suc (Suc (Suc (Suc (Suc (Suc 0)))))))" by simp
  show "endsAs (startProgram W users) cfg (mainRun W 8 (launched lb users))"
    unfolding s_def [symmetric]
  proof (cases r)
    case (Ok sa)
    obtain svc a where sa: "sa = (svc, a)" by (rule prod.exhaust)
    have first: "usersStage W (launched lb users) =
        (launched lb users)\<lparr>prStage := StCert, prUsers := users', prService := Some (svc, a)\<rparr>"
      using users Ok sa by (simp add: usersStage_def)
    have run: "s = mainRun W 7 ((launched lb users)\<lparr>prStage := StCert, prUsers := users', prService := Some (svc, a)\<rparr>)"
      using s_def first unfolding eight by (simp add: mainRun_go eval_nat_numeral)
    show "endsAs (startProgram W users) cfg s"
    proof (cases "bwCert W = None \<and> bwListen W = None")
      case True
      with run assms cache users Ok sa show ?thesis
        by (simp add: endsAs_def eval_nat_numeral mainRun_go stageOr_def initStage_def checkFatal_def startProgram_def
            withMetrics_def metricsInit_def onCache_def)
    next
      case False
      with run assms users Ok sa show ?thesis
        by (cases "bwCert W"; cases "bwListen W")
          (simp_all add: endsAs_def eval_nat_numeral mainRun_go mainRun_ended stageOr_def checkFatal_def startProgram_def)
    qed
  next
    case (Err e)
    with users have "usersStage W (launched lb users) = (launched lb users)\<lparr>prUsers := users', prEnd := Some (Err e)\<rparr>"
      by (simp add: usersStage_def)
    with assms users Err s_def show "endsAs (startProgram W users) cfg s"
      unfolding eight by (auto simp: endsAs_def mainRun_go mainRun_ended startProgram_def)
  next
    case (Panic m)
    with users have "usersStage W (launched lb users) = (launched lb users)\<lparr>prUsers := users', prEnd := Some (Panic m)\<rparr>"
      by (simp add: usersStage_def)
    with assms users Panic s_def show "endsAs (startProgram W users) cfg s"
      unfolding eight by (auto simp: endsAs_def mainRun_go mainRun_ended startProgram_def)
  qed
qed

section \<open>A tick before the metrics\<close>

inductive early :: "'db cacheEnv \<Rightarrow> task \<times> 'db CachingProperties \<Rightarrow> task \<times> 'db CachingProperties \<Rightarrow> bool" for E where
  early: "execNil True E i rest out c = (t, c') \<Longrightarrow> early E ((i # rest, out), c) (t, c')"

lemma early_exec: "\<not> onGauge i \<Longrightarrow> exec E i rest out c = s \<Longrightarrow> early E ((i # rest, out), c) s"
  by (cases s) (auto simp: execNil_def intro: early.intros)

lemma early_then:
  "\<not> onGauge i \<Longrightarrow> exec E i rest out c = s \<Longrightarrow> (early E)\<^sup>*\<^sup>* s s' \<Longrightarrow> (early E)\<^sup>*\<^sup>* ((i # rest, out), c) s'"
  using early_exec by (rule converse_rtranclp_into_rtranclp)

lemma early_gauge: "onGauge i \<Longrightarrow> early E ((i # rest, out), c) (([], Panic ''nil pointer dereference''), c)"
  by (auto simp: execNil_def intro: early.intros)

lemma removeTx_empty:
  assumes "bolt_ok (ceBolt E)" "bolt_live (ceBolt E)"
  shows "removeTx E [] db = (TxErr (ErrMsg ''there's no page to delete'') None, db)"
  using bolt_names(3) [OF assms(1), of db] by (simp add: removeTx_def boltUpdate_live [OF assms(2)])

lemma early_nothing_expired:
  assumes "bolt_ok (ceBolt E)" "bolt_live (ceBolt E)" "\<forall>(key, _) \<in> set items. key = []"
  shows "(early E)\<^sup>*\<^sup>* ((map (\<lambda>(key, _). IRemoveMeta key True) items @ rest, out), c) ((rest, out), c)"
  using assms(3)
proof (induction items)
  case Nil
  then show ?case by simp
next
  case (Cons it items)
  then obtain n where it: "it = ([], n)" by (cases it) auto
  have "exec E (IRemoveMeta [] True) more out c = ((more, out), c)" for more
    by (simp add: exec_eqs removeTx_empty [OF assms(1,2)])
  with Cons it show ?case
    by (auto intro!: early_then)
qed

lemma early_expire:
  assumes "bolt_ok (ceBolt E)" "bolt_live (ceBolt E)"
  shows "(early E)\<^sup>*\<^sup>* ((IExpire clk # rest, out), c) ((rest, out), c)"
proof -
  let ?r = "forEach (\<lambda>(i, name). addExpiredKeys E (clk i) (cpDb c) name) (enumerate 0 (txNames (ceBolt E) (cpDb c))) []"
  have tx: "expiredTx E clk (cpDb c) = ?r" by (simp add: expiredTx_def boltView_live [OF assms(2)])
  show ?thesis
  proof (cases ?r)
    case (TxDone items)
    then have "\<forall>(key, _) \<in> set items. key = []"
      using addExpiredKeys_empty [of "[]" E clk "cpDb c" "enumerate 0 (txNames (ceBolt E) (cpDb c))"] by simp
    from early_nothing_expired [OF assms this, of rest out c] tx TxDone show ?thesis
      by (auto simp: exec_eqs intro!: early_then)
  next
    case (TxErr e items)
    with tx show ?thesis by (auto simp: exec_eqs intro!: r_into_rtranclp early_exec)
  next
    case (TxPanic m)
    then show ?thesis
      using addExpiredKeys_empty [of "[]" E clk "cpDb c" "enumerate 0 (txNames (ceBolt E) (cpDb c))"] by simp
  qed
qed

lemma removeTx_live:
  assumes "env_ok E" "bolt_live (ceBolt E)" "dbOk E db" "txBucket (ceBolt E) db key"
  obtains v m db' where "removeTx E key db = (TxDone v, db')"
    "unmarshalMeta (ceCodec E) (case v of None \<Rightarrow> [] | Some b \<Rightarrow> b) = Inr (Some m)"
    "metaOf E db key = Some m" "dbLoses E key db db'"
proof -
  have B: "bolt_ok (ceBolt E)" by (rule env_okD(1) [OF assms(1)])
  show thesis
  proof (cases rule: removeTx_cases [OF B assms(3), of key])
    case (1 v m db')
    then show thesis by (rule that)
  next
    case (2 e v)
    obtain d where "txDelete (ceBolt E) db key = (None, d)" by (rule bolt_delete_old [OF B assms(4)])
    with 2 assms(4) show thesis by (simp add: removeTx_def boltUpdate_live [OF assms(2)] Let_def)
  qed
qed

lemma lruTx_live:
  assumes "bolt_live (ceBolt E)" "cache_ok E c"
  shows "lruTx E (cpDb c) = TxDone (lruItemsOf E (cpDb c))"
proof -
  have "\<forall>n \<in> set (txNames (ceBolt E) (cpDb c)). bucketOk E (cpDb c) n"
    using assms(2) by (simp add: cache_ok_def list_all_iff)
  from collect_lruItems [OF this, of "[]"] show ?thesis
    by (simp add: lruTx_def boltView_live [OF assms(1)] lruItemsOf_def)
qed

text \<open>The first eviction commits, and the gauge stops it.\<close>

lemma early_evict:
  assumes "env_ok E" "bolt_live (ceBolt E)" "cache_ok E c" "txBucket (ceBolt E) (cpDb c) key" "isSizeExceeded c"
  obtains c' m where
    "(early E)\<^sup>*\<^sup>* ((IEvict ((key, u) # items) # rest, out), c) (([], Panic ''nil pointer dereference''), c')"
    "metaOf E (cpDb c) key = Some m" "dbLoses E key (cpDb c) (cpDb c')" "cpFs c' = cpFs c" "Size c' = Size c - pmSize m"
proof -
  have B: "bolt_ok (ceBolt E)" by (rule env_okD(1) [OF assms(1)])
  have "dbOk E (cpDb c)" using assms(3) cache_ok_dbOk [OF B] by blast
  then obtain v m db' where rm: "removeTx E key (cpDb c) = (TxDone v, db')"
    "unmarshalMeta (ceCodec E) (case v of None \<Rightarrow> [] | Some b \<Rightarrow> b) = Inr (Some m)"
    "metaOf E (cpDb c) key = Some m" "dbLoses E key (cpDb c) db'"
    by (rule removeTx_live [OF assms(1,2) _ assms(4)])
  let ?c = "c\<lparr>cpDb := db', Size := Size c - pmSize m\<rparr>"
  have last: "(early E)\<^sup>*\<^sup>* ((ISetGauge (Size ?c) # more, out), ?c) (([], Panic ''nil pointer dereference''), ?c)" for more
    by (rule r_into_rtranclp, rule early_gauge) simp
  have "(early E)\<^sup>*\<^sup>* ((IEvict ((key, u) # items) # rest, out), c) (([], Panic ''nil pointer dereference''), ?c)"
    by (rule early_then, simp, simp add: exec_eqs assms(5), rule early_then, simp,
        simp add: exec_eqs rm(1,2) counters_def, rule early_then, simp, simp add: exec_eqs,
        rule early_then, simp, simp add: exec_eqs, use last in simp)
  with rm(3,4) show thesis by (intro that [of ?c m]) simp_all
qed

lemma early_tick:
  assumes "env_ok E" "bolt_live (ceBolt E)" "sort_ok (ceSort E)" "cache_ok E c"
    and "0 \<le> sint (maxFileSize (cpCleaner c))" "isSizeExceeded c"
  obtains key c' m where "(early E)\<^sup>*\<^sup>* (launch (EvTick clk), c) (([], Panic ''nil pointer dereference''), c')"
    "metaOf E (cpDb c) key = Some m" "dbLoses E key (cpDb c) (cpDb c')" "cpFs c' = cpFs c" "Size c' = Size c - pmSize m"
proof -
  have B: "bolt_ok (ceBolt E)" by (rule env_okD(1) [OF assms(1)])
  have "\<exists>n. txBucket (ceBolt E) (cpDb c) n"
    using no_buckets_no_bytes [OF B assms(4)] empty_not_exceeded [OF assms(5)] assms(6) by blast
  then obtain key u items where order: "lruOrder E (cpDb c) = (key, u) # items"
    using lruOrder_names(2) [OF assms(3) B, of "cpDb c"] by (cases "lruOrder E (cpDb c)") auto
  then have "txBucket (ceBolt E) (cpDb c) key"
    using lruOrder_names(2) [OF assms(3) B, of "cpDb c"] by auto
  from early_evict [OF assms(1,2,4) this assms(6), of u items "[]" "Ok None"] obtain c' m where
    end_: "(early E)\<^sup>*\<^sup>* (([IEvict (lruOrder E (cpDb c))], Ok None), c) (([], Panic ''nil pointer dereference''), c')"
      "metaOf E (cpDb c) key = Some m" "dbLoses E key (cpDb c) (cpDb c')" "cpFs c' = cpFs c" "Size c' = Size c - pmSize m"
    unfolding order by metis
  have "(early E)\<^sup>*\<^sup>* (([ILru], Ok None), c) (([], Panic ''nil pointer dereference''), c')"
    by (rule early_then [OF _ _ end_(1)]) (simp_all add: exec_eqs lruTx_live [OF assms(2,4)] lruOrder_def)
  then have "(early E)\<^sup>*\<^sup>* (([IExpire clk, ILru], Ok None), c) (([], Panic ''nil pointer dereference''), c')"
    by (rule rtranclp_trans [OF early_expire [OF B assms(2)]])
  then have "(early E)\<^sup>*\<^sup>* (launch (EvTick clk), c) (([], Panic ''nil pointer dereference''), c')"
    using assms(6) by (auto simp: exec_eqs intro!: early_then)
  with end_(2-5) show thesis by (intro that) auto
qed

text \<open>The same in the process.\<close>

definition cleanedTo :: "('db, 'u) process \<Rightarrow> task \<times> 'db CachingProperties \<Rightarrow> ('db, 'u) process" where
  "cleanedTo s tc =
     s\<lparr>prLb := (prLb s)\<lparr>lbCache := Some (snd tc)\<rparr>, prCleaner := fst tc,
       prEnd := (case fst tc of ([], Panic m) \<Rightarrow> Some (Panic m) | _ \<Rightarrow> None)\<rparr>"

lemma early_process:
  assumes "(early (bwCache W))\<^sup>*\<^sup>* tc tc'"
  shows "prNil s \<Longrightarrow> prEnd s = None \<Longrightarrow> prCleaner s = fst tc \<Longrightarrow> lbCache (prLb s) = Some (snd tc) \<Longrightarrow>
    s = cleanedTo s tc \<Longrightarrow> (procStep W)\<^sup>*\<^sup>* s (cleanedTo s tc')"
  using assms
proof (induction arbitrary: s rule: converse_rtranclp_induct)
  case base
  then show ?case by simp
next
  case (step tc1 tc2)
  from step.hyps(1) obtain i rest out c code r c' where
    tc: "tc1 = ((i # rest, out), c)" "tc2 = ((code, r), c')" "execNil True (bwCache W) i rest out c = ((code, r), c')"
    by cases auto
  have stepped: "cleanerStep (bwCache W) i rest out c s = cleanedTo s tc2"
    using tc step.prems by (simp add: cleanerStep_def cleanedTo_def onCache_def)
  from procStep.clean [of s i rest out c W] have one: "procStep W s (cleanedTo s tc2)"
    using tc step.prems stepped by simp
  have again: "cleanedTo (cleanedTo s tc2) tc' = cleanedTo s tc'" by (simp add: cleanedTo_def)
  show ?case
  proof (cases "prEnd (cleanedTo s tc2) = None")
    case True
    have "(procStep W)\<^sup>*\<^sup>* (cleanedTo s tc2) (cleanedTo (cleanedTo s tc2) tc')"
      by (rule step.IH) (use True step.prems in \<open>simp_all add: cleanedTo_def\<close>)
    with one again show ?thesis by (simp add: converse_rtranclp_into_rtranclp)
  next
    case False
    then have "code = []" using tc by (cases code) (auto simp: cleanedTo_def)
    with step.hyps(2) tc have "tc' = tc2" by (auto elim: converse_rtranclpE early.cases)
    with one show ?thesis by simp
  qed
qed

lemma ended_stuck: "prEnd s \<noteq> None \<Longrightarrow> \<not> procStep W s s'"
  by (auto elim: procStep.cases)

text \<open>While \<open>main\<close> has not come to \<open>metrics.Init\<close>, a tick of the cleaner on a cache above its watermark
  crashes the program: the transaction of the first eviction commits, then the gauge is nil. The
  page is gone from the database, its file stays, and no step of the process follows.\<close>
theorem tick_before_metrics:
  assumes "env_ok (bwCache W)" "bolt_live (ceBolt (bwCache W))" "sort_ok (ceSort (bwCache W))"
    and "prEnd s = None" "prNil s" "prCleaner s = ([], out)" "lbCache (prLb s) = Some c"
    and "cache_ok (bwCache W) c" "0 \<le> sint (maxFileSize (cpCleaner c))" "isSizeExceeded c"
  shows "\<exists>s' c' key m. (procStep W)\<^sup>*\<^sup>* s s' \<and> prEnd s' = Some (Panic ''nil pointer dereference'') \<and>
      prStage s' = prStage s \<and> (\<forall>s2. \<not> procStep W s' s2) \<and> lbCache (prLb s') = Some c' \<and>
      cacheMap (bwCache W) (cpDb c) key = Some m \<and>
      cacheMap (bwCache W) (cpDb c') = (cacheMap (bwCache W) (cpDb c))(key := None) \<and>
      Size c' = Size c - pmSize m \<and> cpFs c' = cpFs c"
proof -
  let ?t = "launch (EvTick (\<lambda>_. 0))"
  obtain key c' m where crash: "(early (bwCache W))\<^sup>*\<^sup>* (?t, c) (([], Panic ''nil pointer dereference''), c')"
    and what: "metaOf (bwCache W) (cpDb c) key = Some m" "dbLoses (bwCache W) key (cpDb c) (cpDb c')"
      "cpFs c' = cpFs c" "Size c' = Size c - pmSize m"
    by (rule early_tick [OF assms(1-3,8-10)])
  let ?s = "s\<lparr>prCleaner := ?t\<rparr>" and ?crashed = "cleanedTo (s\<lparr>prCleaner := ?t\<rparr>) (([], Panic ''nil pointer dereference''), c')"
  have "procStep W s ?s" using assms(4,6) by (rule procStep.tick)
  moreover have "(procStep W)\<^sup>*\<^sup>* ?s ?crashed"
    by (rule early_process [OF crash]) (use assms in \<open>simp_all add: cleanedTo_def\<close>)
  ultimately have "(procStep W)\<^sup>*\<^sup>* s ?crashed" by (rule converse_rtranclp_into_rtranclp)
  moreover have "cacheMap (bwCache W) (cpDb c) key = Some m"
    using what(1,2) by (simp add: cacheMap_def dbLoses_def)
  moreover have "prEnd ?crashed = Some (Panic ''nil pointer dereference'')" by (simp add: cleanedTo_def)
  moreover from this have "\<not> procStep W ?crashed s2" for s2 by (intro ended_stuck) simp
  ultimately show ?thesis
    using cacheMap_loses [OF what(2)] what(3,4)
    by (intro exI [of _ ?crashed] exI [of _ c'] exI [of _ key] exI [of _ m]) (simp add: cleanedTo_def)
qed

section \<open>Requests before the metrics\<close>

text \<open>The free slots of the living servers.\<close>

definition freeSlots :: "ServerPool \<Rightarrow> nat" where
  "freeSlots p = (\<Sum>i \<in> set (liveOrder p). maximalRequests (backendAt p i) - inFlight (backendAt p i))"

definition hasRoom :: "ServerPool \<Rightarrow> nat \<Rightarrow> bool" where
  "hasRoom p i \<longleftrightarrow> inFlight (backendAt p i) < maximalRequests (backendAt p i)"

text \<open>A request takes a slot of the first living server in the cyclic order that has one.\<close>

lemma earlyBackend_takes:
  assumes "quiet V"
  shows "pool_ok (lbPool (hLb h)) \<Longrightarrow> liveOrder (lbPool (hLb h)) = xs @ x # ys \<Longrightarrow>
      \<forall>y \<in> set xs. \<not> hasRoom (lbPool (hLb h)) y \<Longrightarrow> hasRoom (lbPool (hLb h)) x \<Longrightarrow> length xs < fuel \<Longrightarrow>
      \<exists>p'. earlyBackend V fuel k h =
          Some (Panic ''nil pointer dereference'', onPool (\<lambda>_. snd (assignAt x p')) h) \<and>
        pool_ok p' \<and> servers p' = servers (lbPool (hLb h)) \<and> backends p' = backends (lbPool (hLb h))"
proof (induction fuel arbitrary: k h xs ys)
  case 0
  then show ?case by simp
next
  case (Suc fuel)
  let ?p = "lbPool (hLb h)"
  obtain z zs where live: "liveOrder ?p = z # zs" using Suc.prems(2) by (cases xs) auto
  then obtain p' where pick: "GetNextPeer ?p = (Ok z, p')" and p': "pool_ok p'" "servers p' = servers ?p"
    "backends p' = backends ?p" "liveOrder p' = zs @ [z]"
    using GetNextPeer_cases [OF Suc.prems(1)] by auto
  have at: "backendAt p' i = backendAt ?p i" for i using p'(3) by (simp add: backendAt_def)
  have z: "z < length (backends p')"
    using live_index [OF Suc.prems(1), of z] live p'(3) by simp
  show ?case
  proof (cases xs)
    case Nil
    with live Suc.prems(2) have "z = x" by simp
    with assign_free(1) [OF z] Suc.prems(4) at obtain p1 where "assignAt x p' = (True, p1)"
      by (cases "assignAt x p'") (simp add: hasRoom_def)
    with pick \<open>z = x\<close> p' show ?thesis
      by (intro exI [of _ p']) (simp add: others_quiet [OF assms] onPool_twice Let_def)
  next
    case (Cons y ys')
    with live Suc.prems(2) have zs: "z = y" "zs = ys' @ x # ys" by simp_all
    then have "assignAt z p' = (False, p')"
      using assign_full [OF z] Suc.prems(3) Cons at by (simp add: hasRoom_def)
    then have "earlyBackend V (Suc fuel) k h = earlyBackend V fuel (Suc k) (onPool (\<lambda>_. p') h)"
      using pick by (simp add: others_quiet [OF assms] onPool_twice Let_def)
    moreover have "\<exists>q. earlyBackend V fuel (Suc k) (onPool (\<lambda>_. p') h) =
          Some (Panic ''nil pointer dereference'', onPool (\<lambda>_. snd (assignAt x q)) (onPool (\<lambda>_. p') h)) \<and>
        pool_ok q \<and> servers q = servers (lbPool (hLb (onPool (\<lambda>_. p') h))) \<and>
        backends q = backends (lbPool (hLb (onPool (\<lambda>_. p') h)))"
      by (rule Suc.IH [of _ ys' "ys @ [z]"]) (use Suc.prems Cons p' zs at in \<open>simp_all add: hasRoom_def\<close>)
    ultimately show ?thesis using p' by (auto simp: onPool_twice)
  qed
qed

lemma assignAt_slots:
  assumes "pool_ok p" "x \<in> set (liveOrder p)" "hasRoom p x" "p' = snd (assignAt x p)"
  shows "set (liveOrder p') = set (liveOrder p)" "Suc (freeSlots p') = freeSlots p" "pool_ok p'"
proof -
  have x: "x < length (backends p)" by (rule live_index [OF assms(1,2)])
  have p': "p' = updBackend x (\<lambda>b. b\<lparr>inFlight := inFlight b + 1\<rparr>) p"
    using assms(3,4) x by (simp add: assignAt_def AssignRequest_def hasRoom_def updBackend_def backendAt_def)
  have at: "backendAt p' i = (if i = x then (backendAt p x)\<lparr>inFlight := inFlight (backendAt p x) + 1\<rparr> else backendAt p i)" for i
    using x by (simp add: p' backendAt_updBackend)
  have servers: "servers p' = servers p" by (simp add: p')
  show live: "set (liveOrder p') = set (liveOrder p)" by (auto simp: set_liveOrder at servers)
  let ?free = "\<lambda>q i. maximalRequests (backendAt q i) - inFlight (backendAt q i)"
  have "sum (?free p') (set (liveOrder p) - {x}) = sum (?free p) (set (liveOrder p) - {x})"
    by (rule sum.cong) (simp_all add: at)
  moreover have "Suc (?free p' x) = ?free p x" using assms(3) by (simp add: at hasRoom_def)
  ultimately show "Suc (freeSlots p') = freeSlots p"
    using assms(2) by (simp add: freeSlots_def live sum.remove [of _ x])
  show "pool_ok p'" using assms(1) by (simp add: p')
qed

lemma early_request:
  assumes "prEnd s = None" "prServing s" "prNil s" "pool_ok (lbPool (prLb s))" "0 < freeSlots (lbPool (prLb s))"
  obtains p' where "procStep W s (s\<lparr>prLb := (prLb s)\<lparr>lbPool := p'\<rparr>\<rparr>)" "pool_ok p'"
    "set (liveOrder p') = set (liveOrder (lbPool (prLb s)))" "Suc (freeSlots p') = freeSlots (lbPool (prLb s))"
proof -
  let ?p = "lbPool (prLb s)"
  let ?V = "\<lparr>lwCache = bwCache W, lwUrls = bwUrls W, lwSend = \<lambda>_ _. DoOtherError ErrEOF, lwOthers = \<lambda>_ _. [],
      lwWrite = \<lambda>_. None, lwElapsed = \<lambda>_. 0, lwClock = \<lambda>_. 0, lwNow = (0, 0)\<rparr>"
  have V: "quiet ?V" by (simp add: quiet_def)
  have "\<exists>x \<in> set (liveOrder ?p). hasRoom ?p x"
  proof (rule ccontr)
    assume "\<not> (\<exists>x \<in> set (liveOrder ?p). hasRoom ?p x)"
    then have "freeSlots ?p = 0" by (auto simp: freeSlots_def hasRoom_def)
    with assms(5) show False by simp
  qed
  then obtain xs x ys where x: "liveOrder ?p = xs @ x # ys" "\<forall>y \<in> set xs. \<not> hasRoom ?p y" "hasRoom ?p x"
    by (auto elim!: split_list_first_propE)
  let ?h = "\<lparr>hRw = newWriter, hReq = jsonRequest ''GET'' [], hLb = prLb s\<rparr>"
  from earlyBackend_takes [OF V, of ?h xs x ys "Suc (length xs)" 0] assms(4) x obtain q where
    run: "earlyBackend ?V (Suc (length xs)) 0 ?h =
        Some (Panic ''nil pointer dereference'', onPool (\<lambda>_. snd (assignAt x q)) ?h)"
      "pool_ok q" "servers q = servers ?p" "backends q = backends ?p" by auto
  have live: "set (liveOrder q) = set (liveOrder ?p)" by (rule set_liveOrder_cong [OF run(3,4)])
  have "backendAt q = backendAt ?p" by (simp add: fun_eq_iff backendAt_def run(4))
  with live x(3) have q: "set (liveOrder q) = set (liveOrder ?p)" "freeSlots q = freeSlots ?p" "hasRoom q x"
    by (simp_all add: freeSlots_def hasRoom_def)
  have "x \<in> set (liveOrder q)" using q(1) x(1) by simp
  from assignAt_slots [OF run(2) this q(3) refl] q procStep.request [OF assms(1-3) refl run(1)]
  show thesis by (intro that [of "snd (assignAt x q)"]) (simp_all add: onPool_def)
qed

lemma early_requests:
  "prEnd s = None \<Longrightarrow> prServing s \<Longrightarrow> prNil s \<Longrightarrow> pool_ok (lbPool (prLb s)) \<Longrightarrow>
     \<exists>p'. (procStep W ^^ freeSlots (lbPool (prLb s))) s (s\<lparr>prLb := (prLb s)\<lparr>lbPool := p'\<rparr>\<rparr>) \<and>
       pool_ok p' \<and> set (liveOrder p') = set (liveOrder (lbPool (prLb s))) \<and> freeSlots p' = 0"
proof (induction "freeSlots (lbPool (prLb s))" arbitrary: s)
  case 0
  then show ?case by (intro exI [of _ "lbPool (prLb s)"]) auto
next
  case (Suc n)
  from Suc.hyps(2) have "0 < freeSlots (lbPool (prLb s))" by simp
  from early_request [OF Suc.prems this, of W] obtain p1 where
    1: "procStep W s (s\<lparr>prLb := (prLb s)\<lparr>lbPool := p1\<rparr>\<rparr>)" "pool_ok p1"
      "set (liveOrder p1) = set (liveOrder (lbPool (prLb s)))" "Suc (freeSlots p1) = freeSlots (lbPool (prLb s))" .
  let ?s = "s\<lparr>prLb := (prLb s)\<lparr>lbPool := p1\<rparr>\<rparr>"
  have "n = freeSlots (lbPool (prLb ?s))" using 1(4) Suc.hyps(2) by simp
  from Suc.hyps(1) [OF this] Suc.prems 1(2) this obtain p' where
    "(procStep W ^^ n) ?s (s\<lparr>prLb := (prLb s)\<lparr>lbPool := p'\<rparr>\<rparr>)" "pool_ok p'"
    "set (liveOrder p') = set (liveOrder p1)" "freeSlots p' = 0"
    by auto
  moreover from relpowp_Suc_I2 [of "procStep W", OF 1(1) this(1)] have
    "(procStep W ^^ freeSlots (lbPool (prLb s))) s (s\<lparr>prLb := (prLb s)\<lparr>lbPool := p'\<rparr>\<rparr>)"
    using Suc.hyps(2) by simp
  ultimately show ?case using 1(3) by (intro exI [of _ p']) simp
qed

text \<open>C33: A request that comes between \<open>http.Serve\<close> and \<open>metrics.Init\<close> panics after it has taken a slot of a
  backend and before it has arranged to give it back. As many such requests as the living backends
  have free slots fill them for ever: with no request running, no later one returns on its own.\<close>
theorem early_requests_leak:
  assumes "prEnd s = None" "prServing s" "prNil s" "pool_ok (lbPool (prLb s))"
    and "\<exists>i \<in> set (servers (lbPool (prLb s))). alive (backendAt (lbPool (prLb s)) i)"
  shows "\<exists>p'. (procStep W ^^ freeSlots (lbPool (prLb s))) s (s\<lparr>prLb := (prLb s)\<lparr>lbPool := p'\<rparr>\<rparr>) \<and>
    (\<forall>V fuel h. quiet V \<and> lbPool (hLb h) = p' \<longrightarrow> backendHandler V fuel h = None)"
proof -
  obtain p' where p': "(procStep W ^^ freeSlots (lbPool (prLb s))) s (s\<lparr>prLb := (prLb s)\<lparr>lbPool := p'\<rparr>\<rparr>)"
    "pool_ok p'" "set (liveOrder p') = set (liveOrder (lbPool (prLb s)))" "freeSlots p' = 0"
    using early_requests [OF assms(1-4)] by metis
  have "set (liveOrder p') \<noteq> {}" using assms(5) unfolding p'(3) by (auto simp: set_liveOrder)
  then have "liveOrder p' \<noteq> []" by auto
  moreover have "\<forall>i \<in> set (liveOrder p'). \<not> inFlight (backendAt p' i) < maximalRequests (backendAt p' i)"
    using p'(4) by (auto simp: freeSlots_def)
  ultimately have "backendHandler V fuel h = None" if "quiet V" "lbPool (hLb h) = p'" for V fuel and h :: "'c hstate"
    using loop_spins [OF that(1), of h] that(2) p'(2) by (simp add: backendHandler_def)
  with p'(1) show ?thesis by blast
qed

section \<open>The properties at concrete inputs\<close>

theorem tick_before_metrics_witness:
  "\<exists>(s :: (refDb, refDb) process) s'. prEnd s = None \<and> (procStep (sampleBoot fullEnv))\<^sup>*\<^sup>* s s' \<and>
     prEnd s' = Some (Panic ''nil pointer dereference'')"
proof -
  obtain p where p: "cache_ok refEnv p" "isSizeExceeded p" "sint (maxFileSize (cpCleaner p)) = 2"
    by (rule refExceeded) blast
  let ?s = "launched (NewLoadBalancer (Some p)) None :: (refDb, refDb) process"
  have world: "env_ok (bwCache (sampleBoot fullEnv))" "bolt_live (ceBolt (bwCache (sampleBoot fullEnv)))"
    "sort_ok (ceSort (bwCache (sampleBoot fullEnv)))"
    using sort_ok_ref by (simp_all add: env_ok_ref bolt_live_ref)
  have s: "prEnd ?s = None" "prNil ?s" "prCleaner ?s = ([], Ok None)" "lbCache (prLb ?s) = Some p"
    by (simp_all add: NewLoadBalancer_def launched_def)
  have "cache_ok (bwCache (sampleBoot fullEnv)) p" "0 \<le> sint (maxFileSize (cpCleaner p))"
    using p(1,3) by simp_all
  from tick_before_metrics [OF world s this p(2)] s(1) show ?thesis by blast
qed

theorem early_requests_leak_witness:
  "\<exists>(s :: (refDb, refDb) process) s'. (procStep (sampleBoot fullEnv) ^^ 3) s s' \<and>
     backendHandler (sampleWorld (\<lambda>_ _. DoOtherError ErrEOF)) 1000
       \<lparr>hRw = newWriter, hReq = refRequest ''GET'' [], hLb = prLb s'\<rparr> = None"
proof -
  let ?s = "(launched ((NewLoadBalancer None)\<lparr>lbPool := samplePool\<rparr>) None)\<lparr>prServing := True\<rparr> :: (refDb, refDb) process"
  let ?V = "sampleWorld (\<lambda>_ _. DoOtherError ErrEOF)"
  have s: "prEnd ?s = None" "prServing ?s" "prNil ?s" "lbPool (prLb ?s) = samplePool"
    by (simp_all add: launched_def)
  have "freeSlots samplePool = 3"
    by (simp add: freeSlots_def liveOrder_sample) (simp add: samplePool_def sampleBackend_def backendAt_def)
  moreover have "\<exists>i \<in> set (servers samplePool). alive (backendAt samplePool i)"
    by (simp add: samplePool_def sampleBackend_def backendAt_def)
  ultimately obtain p' where
    run: "(procStep (sampleBoot fullEnv) ^^ 3) ?s (?s\<lparr>prLb := (prLb ?s)\<lparr>lbPool := p'\<rparr>\<rparr>)"
    and spin: "\<forall>(V :: refDb lbWorld) fuel h. quiet V \<and> lbPool (hLb h) = p' \<longrightarrow> backendHandler V fuel h = None"
    using early_requests_leak [OF s(1-3), of "sampleBoot fullEnv"] pool_ok_sample unfolding s(4) by metis
  have "quiet ?V" by (simp add: quiet_def sampleWorld_def)
  with spin have "backendHandler ?V 1000 \<lparr>hRw = newWriter, hReq = refRequest ''GET'' [],
      hLb = prLb (?s\<lparr>prLb := (prLb ?s)\<lparr>lbPool := p'\<rparr>\<rparr>)\<rparr> = None" by simp
  with run show ?thesis by blast
qed

end
