(* ===== verification/HealthLoop.thy ===== *)
theory HealthLoop
  imports PoolProps LoadBalancer
begin

text \<open>
  The loop of \<open>HealthChecker\<close> (\<open>lb/loadBalancer.go\<close>) against changes of the pool. The wait group gets
  the length of the server list, the list is then read a second time and ranged over with a
  goroutine per server, and the loop waits. The list is a slice: \<open>range\<close> reads an array that
  \<open>RemoveServerByUrl\<close> shifts in place and \<open>AddServer\<close> may extend in place or leave for a new one.
\<close>

section \<open>The checker\<close>

datatype hcPlace = Idle | Counted | Ranging nat | Waiting | Crashed

text \<open>A goroutine that has its server still to check, and one that has only \<open>wg.Done()\<close> to do.\<close>

datatype check = Checking nat | Checked

record checker =
  hcPlace :: hcPlace
  hcWg :: int
  hcArr :: "nat list"
  hcShared :: bool
  hcGo :: "check list"
  hcPool :: ServerPool

definition startChecker :: "ServerPool \<Rightarrow> checker" where
  "startChecker p = \<lparr>hcPlace = Idle, hcWg = 0, hcArr = [], hcShared = False, hcGo = [], hcPool = p\<rparr>"

text \<open>What the ranged-over array holds after \<open>ys\<close> has been written from its start.\<close>

definition overwrite :: "nat list \<Rightarrow> checker \<Rightarrow> nat list" where
  "overwrite ys s = (if hcShared s then take (length (hcArr s)) ys @ drop (length ys) (hcArr s) else hcArr s)"

definition wgDone :: "checker \<Rightarrow> checker" where
  "wgDone s = s\<lparr>hcWg := hcWg s - 1, hcPlace := (if hcWg s - 1 < 0 then Crashed else hcPlace s)\<rparr>"

text \<open>The steps of the checker itself.\<close>

inductive hcOwn :: "(string \<Rightarrow> int64 \<Rightarrow> bool) \<Rightarrow> checker \<Rightarrow> checker \<Rightarrow> bool" for dial where
  range: "hcPlace s = Counted \<Longrightarrow>
    hcOwn dial s (s\<lparr>hcPlace := Ranging 0, hcArr := servers (hcPool s), hcShared := True\<rparr>)"
| spawn: "hcPlace s = Ranging j \<Longrightarrow> j < length (hcArr s) \<Longrightarrow>
    hcOwn dial s (s\<lparr>hcPlace := Ranging (Suc j), hcGo := hcGo s @ [Checking (hcArr s ! j)]\<rparr>)"
| over: "hcPlace s = Ranging j \<Longrightarrow> length (hcArr s) \<le> j \<Longrightarrow> hcOwn dial s (s\<lparr>hcPlace := Waiting\<rparr>)"
| check: "hcPlace s \<noteq> Crashed \<Longrightarrow> hcGo s = xs @ Checking i # ys \<Longrightarrow>
    hcOwn dial s (s\<lparr>hcGo := xs @ Checked # ys, hcPool := healthCheckFunc dial i (hcPool s)\<rparr>)"
| finish: "hcPlace s \<noteq> Crashed \<Longrightarrow> hcGo s = xs @ Checked # ys \<Longrightarrow> hcOwn dial s (wgDone (s\<lparr>hcGo := xs @ ys\<rparr>))"
| wait: "hcPlace s = Waiting \<Longrightarrow> hcWg s = 0 \<Longrightarrow> hcOwn dial s (s\<lparr>hcPlace := Idle\<rparr>)"

text \<open>With the ticker and the administrators; \<open>w\<close> says whether the pool may change between \<open>wg.Add\<close> and
  the second reading of the list.\<close>

inductive hcStep :: "bool \<Rightarrow> checker \<Rightarrow> checker \<Rightarrow> bool" for w where
  own: "hcOwn dial s s' \<Longrightarrow> hcStep w s s'"
| tick: "hcPlace s = Idle \<Longrightarrow>
    hcStep w s (s\<lparr>hcPlace := Counted, hcWg := hcWg s + int (length (servers (hcPool s)))\<rparr>)"
| add: "hcPlace s \<noteq> Crashed \<Longrightarrow> w \<or> hcPlace s \<noteq> Counted \<Longrightarrow>
    arr = (if new then hcArr s else overwrite (servers (AddServer b (hcPool s))) s) \<Longrightarrow>
    hcStep w s (s\<lparr>hcPool := AddServer b (hcPool s), hcArr := arr, hcShared := (hcShared s \<and> \<not> new)\<rparr>)"
| remove: "hcPlace s \<noteq> Crashed \<Longrightarrow> w \<or> hcPlace s \<noteq> Counted \<Longrightarrow> RemoveServerByUrl U u (hcPool s) = (None, p') \<Longrightarrow>
    hcStep w s (s\<lparr>hcPool := p', hcArr := overwrite (servers p' @ [last (servers (hcPool s))]) s\<rparr>)"

section \<open>The wait group\<close>

fun toStart :: "checker \<Rightarrow> nat" where
  "toStart s = (case hcPlace s of
      Counted \<Rightarrow> length (servers (hcPool s))
    | Ranging j \<Rightarrow> length (hcArr s) - j
    | _ \<Rightarrow> 0)"

text \<open>By how much the counter is off.\<close>

definition drift :: "checker \<Rightarrow> int" where
  "drift s = hcWg s - int (length (hcGo s) + toStart s)"

lemma servers_healthCheck [simp]: "servers (healthCheckFunc dial i p) = servers p"
  by (simp add: healthCheckFunc_def SetAlive_def)

lemma length_overwrite [simp]: "length (overwrite ys s) = length (hcArr s)"
  by (auto simp: overwrite_def)

lemma drift_own: "hcOwn dial s s' \<Longrightarrow> drift s' = drift s \<or> hcPlace s' = Crashed"
  by (induction rule: hcOwn.induct) (auto simp: drift_def wgDone_def split: hcPlace.splits)

lemma drift_step: "hcStep False s s' \<Longrightarrow> drift s' = drift s \<or> hcPlace s' = Crashed"
  by (induction rule: hcStep.induct) (auto simp: drift_def dest!: drift_own split: hcPlace.splits)

lemma drift_remove_window:
  assumes "hcPlace s = Counted" "RemoveServerByUrl U u (hcPool s) = (None, p')"
  shows "drift (s\<lparr>hcPool := p', hcArr := arr\<rparr>) = drift s + 1"
proof -
  obtain ss where "removeFirst (\<lambda>i. serverURL U (hcPool s) i = u) (servers (hcPool s)) = Some ss"
    "p' = (hcPool s)\<lparr>servers := ss\<rparr>"
    using assms(2) by (auto simp: RemoveServerByUrl_def split: option.splits)
  moreover from this(1) have "length (servers (hcPool s)) = Suc (length ss)" by (auto dest!: removeFirst_Some)
  ultimately show ?thesis using assms(1) by (simp add: drift_def)
qed

text \<open>Where the wait group is in step with the goroutines.\<close>

definition inStep :: "checker \<Rightarrow> bool" where
  "inStep s \<longleftrightarrow> hcPlace s \<noteq> Crashed \<and> drift s = 0"

lemma startChecker_simps [simp]:
  "inStep (startChecker p)" "hcPlace (startChecker p) = Idle" "hcPool (startChecker p) = p"
  by (simp_all add: inStep_def drift_def startChecker_def)

lemma not_crashed: "hcOwn dial s s' \<Longrightarrow> 0 \<le> drift s \<Longrightarrow> hcPlace s' = Crashed \<Longrightarrow> hcPlace s = Crashed"
  by (induction rule: hcOwn.induct) (auto simp: drift_def wgDone_def split: if_splits)

lemma inStep_own: "hcOwn dial s s' \<Longrightarrow> inStep s \<Longrightarrow> inStep s'"
  using drift_own [of dial s s'] not_crashed [of dial s s'] by (auto simp: inStep_def)

lemma inStep_step: "hcStep False s s' \<Longrightarrow> inStep s \<Longrightarrow> inStep s'"
proof (induction rule: hcStep.induct)
  case (own dial s s')
  then show ?case by (rule inStep_own)
qed (auto simp: inStep_def drift_def split: hcPlace.splits)

interpretation in_step: stable_relation "hcStep False" inStep
  by unfold_locales (rule inStep_step)

section \<open>Rounds\<close>

text \<open>C23: Invariant. From the start, as long as no server is added or removed between the two readings of
  the list, the wait group's counter is the number of goroutines that have still to report and
  those that have still to be started; so it never becomes negative, and a loop that waits goes on
  as soon as all the goroutines it started are done. Changes of the pool at any other moment, the
  list being ranged over included, do no harm to it.\<close>
theorem health_counter_exact:
  assumes "(hcStep False)\<^sup>*\<^sup>* (startChecker p) s"
  shows "hcWg s = int (length (hcGo s) + toStart s) \<and> hcPlace s \<noteq> Crashed \<and>
    (hcPlace s = Waiting \<and> hcGo s = [] \<longrightarrow> hcOwn dial s (s\<lparr>hcPlace := Idle\<rparr>))"
proof -
  have "inStep s" by (rule in_step.reachable [OF assms startChecker_simps(1)])
  then show ?thesis by (auto simp: inStep_def drift_def intro: hcOwn.wait)
qed

text \<open>Steps the checker has still to take, once a round has begun.\<close>

definition remaining :: "checker \<Rightarrow> nat" where
  "remaining s =
     (case hcPlace s of
        Counted \<Rightarrow> 3 * length (servers (hcPool s)) + 3
      | Ranging j \<Rightarrow> 3 * (length (hcArr s) - j) + 2
      | Waiting \<Rightarrow> 1
      | _ \<Rightarrow> 0) + (\<Sum>c \<leftarrow> hcGo s. case c of Checking i \<Rightarrow> 2 | Checked \<Rightarrow> 1)"

lemma remaining_decreases: "hcOwn dial s s' \<Longrightarrow> remaining s' < remaining s"
  by (induction rule: hcOwn.induct) (auto simp: remaining_def wgDone_def split: hcPlace.splits)

lemma remaining_bound: "(hcOwn dial ^^ n) s s' \<Longrightarrow> n + remaining s' \<le> remaining s"
proof (induction n arbitrary: s')
  case (Suc n)
  then obtain t where "(hcOwn dial ^^ n) s t" "hcOwn dial t s'" by auto
  with Suc.IH remaining_decreases [of dial t s'] show ?case by fastforce
qed simp

lemma round_over:
  assumes "inStep s" "\<And>t. \<not> hcOwn dial s t"
  shows "hcGo s = [] \<and> (hcPlace s = Idle)"
proof -
  have go: "hcGo s = []"
  proof (cases "hcGo s")
    case (Cons c cs)
    with assms(1) hcOwn.check [of s "[]" _ cs dial] hcOwn.finish [of s "[]" cs dial] assms(2)
    show ?thesis by (cases c) (auto simp: inStep_def)
  qed
  with assms have "hcPlace s \<noteq> Waiting" using hcOwn.wait [of s dial] by (auto simp: inStep_def drift_def)
  moreover have "hcPlace s \<noteq> Ranging j" for j
    using assms(2) hcOwn.spawn [of s j dial] hcOwn.over [of s j dial] by (cases "j < length (hcArr s)") auto
  moreover have "hcPlace s \<noteq> Counted" using assms(2) hcOwn.range [of s dial] by auto
  ultimately show ?thesis using go assms(1) by (cases "hcPlace s") (auto simp: inStep_def)
qed

text \<open>Servers of the round that have not been checked in it yet.\<close>

definition pending :: "checker \<Rightarrow> nat set" where
  "pending s =
     (case hcPlace s of
        Counted \<Rightarrow> set (servers (hcPool s))
      | Ranging j \<Rightarrow> set (drop j (hcArr s))
      | _ \<Rightarrow> {}) \<union> {i. Checking i \<in> set (hcGo s)}"

definition checkedSoFar :: "(string \<Rightarrow> int64 \<Rightarrow> bool) \<Rightarrow> ServerPool \<Rightarrow> checker \<Rightarrow> bool" where
  "checkedSoFar dial p s \<longleftrightarrow>
     servers (hcPool s) = servers p \<and> length (backends (hcPool s)) = length (backends p) \<and>
     (\<forall>i < length (backends p).
        (\<exists>v. backendAt (hcPool s) i = backendAt p i\<lparr>alive := v\<rparr>) \<and>
        (i \<in> set (servers p) \<longrightarrow> i \<in> pending s \<or> alive (backendAt (hcPool s) i) = CheckIfAlive dial (backendAt p i)))"

lemma checked_healthCheck:
  "i < length (backends q) \<Longrightarrow> backendAt (healthCheckFunc dial k q) i =
    (if k = i then (backendAt q i)\<lparr>alive := CheckIfAlive dial (backendAt q i)\<rparr> else backendAt q i)"
  "length (backends (healthCheckFunc dial k q)) = length (backends q)"
  by (auto simp: healthCheckFunc_def SetAlive_def updBackend_def backendAt_def nth_list_update)

lemma checkedSoFar_step: "hcOwn dial s s' \<Longrightarrow> inStep s \<Longrightarrow> checkedSoFar dial p s \<Longrightarrow> checkedSoFar dial p s'"
proof (induction rule: hcOwn.induct)
  case (spawn s j)
  then have "set (drop j (hcArr s)) = insert (hcArr s ! j) (set (drop (Suc j) (hcArr s)))"
    by (simp add: Cons_nth_drop_Suc [symmetric])
  with spawn show ?case by (fastforce simp: checkedSoFar_def pending_def)
next
  case (check s xs k ys)
  let ?q = "healthCheckFunc dial k (hcPool s)"
  let ?s' = "s\<lparr>hcGo := xs @ Checked # ys, hcPool := ?q\<rparr>"
  from check(4) have len: "length (backends (hcPool s)) = length (backends p)" by (simp add: checkedSoFar_def)
  have "(\<exists>v. backendAt ?q i = backendAt p i\<lparr>alive := v\<rparr>) \<and>
      (i \<in> set (servers p) \<longrightarrow> i \<in> pending ?s' \<or> alive (backendAt ?q i) = CheckIfAlive dial (backendAt p i))"
    if i: "i < length (backends p)" for i
  proof -
    from check(4) i obtain v where v: "backendAt (hcPool s) i = backendAt p i\<lparr>alive := v\<rparr>"
      "i \<in> set (servers p) \<longrightarrow> i \<in> pending s \<or> v = CheckIfAlive dial (backendAt p i)"
      by (auto simp: checkedSoFar_def)
    moreover have "i \<in> pending ?s' \<or> i = k" if "i \<in> pending s"
      using that check(2) by (auto simp: pending_def split: hcPlace.splits)
    ultimately show ?thesis
      using checked_healthCheck(1) [of i "hcPool s" dial k] i len by (auto simp: CheckIfAlive_def)
  qed
  with check(4) checked_healthCheck(2) [of dial k] show ?case by (simp add: checkedSoFar_def)
next
  case (finish s xs ys)
  then show ?case
    by (auto simp: checkedSoFar_def pending_def wgDone_def inStep_def drift_def split: hcPlace.splits)
next
  case (over s j)
  then show ?case by (fastforce simp: checkedSoFar_def pending_def)
qed (fastforce simp: checkedSoFar_def pending_def wgDone_def split: hcPlace.splits)+

interpretation checked: stable_relation "hcOwn dial" "\<lambda>s. inStep s \<and> checkedSoFar dial p s" for dial p
  by unfold_locales (simp add: inStep_own checkedSoFar_step)

text \<open>C24: Termination. A round that begins in step, and during which the pool does not change, takes at
  most three steps for each server and three of its own, whatever the order of the goroutines; where
  no step is left the loop waits for the ticker again, and every listed server is marked alive
  exactly when its check found it so.\<close>
theorem health_round_completes:
  assumes "inStep s" and "hcPlace s = Counted" and "hcGo s = []" and "pool_ok (hcPool s)"
    and "(hcOwn dial ^^ n) s s'"
  shows "n \<le> 3 * length (servers (hcPool s)) + 3 \<and>
    ((\<forall>t. \<not> hcOwn dial s' t) \<longrightarrow>
       hcPlace s' = Idle \<and> inStep s' \<and> servers (hcPool s') = servers (hcPool s) \<and>
       (\<forall>i \<in> set (servers (hcPool s)).
          alive (backendAt (hcPool s') i) = CheckIfAlive dial (backendAt (hcPool s) i)))"
proof -
  have "\<exists>v. b = b\<lparr>alive := v\<rparr>" for b :: Backend by (rule exI [of _ "alive b"]) simp
  then have "checkedSoFar dial (hcPool s) s" using assms(2) by (auto simp: checkedSoFar_def pending_def)
  with assms(1) checked.reachable [OF relpowp_imp_rtranclp [OF assms(5)]]
  have last: "inStep s'" "checkedSoFar dial (hcPool s) s'" by blast+
  have "alive (backendAt (hcPool s') i) = CheckIfAlive dial (backendAt (hcPool s) i)"
    if "i \<in> set (servers (hcPool s))" "hcPlace s' = Idle" "hcGo s' = []" for i
    using that last(2) assms(4) by (auto simp: checkedSoFar_def pending_def pool_ok_def list_all_iff)
  moreover have "remaining s = 3 * length (servers (hcPool s)) + 3" using assms(2,3) by (simp add: remaining_def)
  ultimately show ?thesis
    using remaining_bound [OF assms(5)] round_over [OF last(1), of dial] last(2) by (auto simp: checkedSoFar_def last(1))
qed

section \<open>A change between the two readings\<close>

text \<open>Past the second reading the drift never changes, so a positive one keeps the loop waiting.\<close>

definition stuck :: "checker \<Rightarrow> bool" where
  "stuck s \<longleftrightarrow> 0 < drift s \<and> ((\<exists>j. hcPlace s = Ranging j) \<or> hcPlace s = Waiting)"

lemma stuck_own: "hcOwn dial s s' \<Longrightarrow> stuck s \<Longrightarrow> stuck s'"
  by (induction rule: hcOwn.induct) (auto simp: stuck_def drift_def wgDone_def)

lemma stuck_step: "hcStep w s s' \<Longrightarrow> stuck s \<Longrightarrow> stuck s'"
proof (induction rule: hcStep.induct)
  case (own dial s s')
  then show ?case by (rule stuck_own)
qed (auto simp: stuck_def drift_def)

interpretation stuck: stable_relation "hcStep w" stuck for w
  by unfold_locales (rule stuck_step)

text \<open>C25: Error. When an administrator removes a server between the two readings of the list, the loop
  waits for a goroutine that is never started: from then on, whatever happens, no further round of
  health checks begins.\<close>
theorem health_checks_stop:
  assumes "inStep s" and "hcPlace s = Idle" and "RemoveServerByUrl U u (hcPool s) = (None, p')"
  shows "\<exists>s'. (hcStep True)\<^sup>*\<^sup>* s s' \<and> hcPool s' = p' \<and>
    (\<forall>s'' w. (hcStep w)\<^sup>*\<^sup>* s' s'' \<longrightarrow> hcPlace s'' \<notin> {Idle, Counted})"
proof -
  let ?s1 = "s\<lparr>hcPlace := Counted, hcWg := hcWg s + int (length (servers (hcPool s)))\<rparr>"
  let ?s2 = "?s1\<lparr>hcPool := p', hcArr := overwrite (servers p' @ [last (servers (hcPool ?s1))]) ?s1\<rparr>"
  let ?s3 = "?s2\<lparr>hcPlace := Ranging 0, hcArr := servers (hcPool ?s2), hcShared := True\<rparr>"
  have 1: "hcStep True s ?s1" using assms(2) by (rule hcStep.tick)
  have 2: "hcStep True ?s1 ?s2" using assms(3) by (intro hcStep.remove) simp_all
  have "hcStep True ?s2 ?s3" by (intro hcStep.own hcOwn.range) simp
  with 2 have "(hcStep True)\<^sup>*\<^sup>* ?s1 ?s3" by (rule converse_rtranclp_into_rtranclp [OF _ r_into_rtranclp])
  with 1 have run: "(hcStep True)\<^sup>*\<^sup>* s ?s3" by (rule converse_rtranclp_into_rtranclp)
  have "drift ?s2 = 1"
    using drift_remove_window [of ?s1 U u p'] assms by (simp add: inStep_def drift_def)
  then have "stuck ?s3" by (simp add: stuck_def drift_def)
  then have "hcPlace s'' \<notin> {Idle, Counted}" if "(hcStep w)\<^sup>*\<^sup>* ?s3 s''" for s'' w
    using stuck.reachable [OF that] by (auto simp: stuck_def)
  with run show ?thesis by (intro exI [of _ ?s3]) simp
qed

text \<open>A negative one makes the goroutine that reports last panic.\<close>

definition early :: "checker \<Rightarrow> bool" where
  "early s \<longleftrightarrow> hcPlace s = Crashed \<or> 0 \<le> hcWg s \<and> drift s < 0"

lemma early_own: "hcOwn dial s s' \<Longrightarrow> early s \<Longrightarrow> early s'"
  by (induction rule: hcOwn.induct) (auto simp: early_def drift_def wgDone_def split: hcPlace.splits)

interpretation early: stable_relation "hcOwn dial" early for dial
  by unfold_locales (rule early_own)

lemma early_over:
  assumes "early s" "\<And>t. \<not> hcOwn dial s t"
  shows "hcPlace s = Crashed"
proof (rule ccontr)
  assume on: "hcPlace s \<noteq> Crashed"
  have "hcGo s = []"
  proof (cases "hcGo s")
    case (Cons c cs)
    with on hcOwn.check [of s "[]" _ cs dial] hcOwn.finish [of s "[]" cs dial] assms(2)
    show ?thesis by (cases c) auto
  qed
  moreover have "hcPlace s \<noteq> Counted" using assms(2) hcOwn.range [of s dial] by auto
  moreover have "hcPlace s \<noteq> Ranging j" for j
    using assms(2) hcOwn.spawn [of s j dial] hcOwn.over [of s j dial] by (cases "j < length (hcArr s)") auto
  ultimately show False using on assms(1) by (cases "hcPlace s") (auto simp: early_def drift_def)
qed

lemma own_ends: "\<exists>s'. (hcOwn dial)\<^sup>*\<^sup>* s s' \<and> (\<forall>t. \<not> hcOwn dial s' t)"
proof (induction "remaining s" arbitrary: s rule: less_induct)
  case less
  show ?case
  proof (cases "\<exists>t. hcOwn dial s t")
    case True
    then obtain t where "hcOwn dial s t" by blast
    with less remaining_decreases [OF this] show ?thesis by (meson converse_rtranclp_into_rtranclp)
  qed auto
qed

text \<open>C26: Error. When an administrator adds a server between the two readings of the list, one goroutine
  too many reports to the wait group: unless the next round begins before it does, the counter
  becomes negative and the program panics.\<close>
theorem health_checks_crash:
  assumes "inStep s" and "hcPlace s = Idle"
  shows "\<exists>s1. (hcStep True)\<^sup>*\<^sup>* s s1 \<and> hcPool s1 = AddServer b (hcPool s) \<and>
    (\<exists>s'. (hcOwn dial)\<^sup>*\<^sup>* s1 s' \<and> hcPlace s' = Crashed) \<and>
    (\<forall>s'. (hcOwn dial)\<^sup>*\<^sup>* s1 s' \<and> (\<forall>t. \<not> hcOwn dial s' t) \<longrightarrow> hcPlace s' = Crashed)"
proof -
  let ?s1 = "s\<lparr>hcPlace := Counted, hcWg := hcWg s + int (length (servers (hcPool s)))\<rparr>"
  let ?s2 = "?s1\<lparr>hcPool := AddServer b (hcPool ?s1), hcArr := hcArr ?s1, hcShared := hcShared ?s1 \<and> \<not> True\<rparr>"
  have "hcStep True s ?s1" using assms(2) by (rule hcStep.tick)
  moreover have "hcStep True ?s1 ?s2" by (rule hcStep.add) simp_all
  ultimately have run: "(hcStep True)\<^sup>*\<^sup>* s ?s2" by (intro converse_rtranclp_into_rtranclp [of _ s] r_into_rtranclp)
  have "early ?s2" using assms by (simp add: early_def inStep_def drift_def AddServer_def)
  then have crash: "hcPlace s' = Crashed" if "(hcOwn dial)\<^sup>*\<^sup>* ?s2 s'" "\<forall>t. \<not> hcOwn dial s' t" for s'
    using early.reachable [OF that(1)] early_over [of s' dial] that(2) by blast
  moreover obtain s' where "(hcOwn dial)\<^sup>*\<^sup>* ?s2 s'" "\<forall>t. \<not> hcOwn dial s' t" using own_ends by blast
  ultimately show ?thesis using run by (intro exI [of _ ?s2]) auto
qed

section \<open>Witnesses\<close>

text \<open>A pool of one server.\<close>

definition onePool :: ServerPool where
  "onePool = \<lparr>backends = [sampleBackend ''a'' False 1], servers = [0], current = - 1\<rparr>"

theorem health_counter_exact_witness:
  "\<exists>s. (hcStep False)\<^sup>*\<^sup>* (startChecker samplePool) s \<and> hcPlace s = Counted \<and> hcWg s = 3"
proof -
  let ?s = "startChecker samplePool\<lparr>hcPlace := Counted, hcWg := 0 + 3\<rparr>"
  have "hcStep False (startChecker samplePool) ?s"
    using hcStep.tick [of "startChecker samplePool" False] by (simp add: startChecker_def samplePool_def)
  then have run: "(hcStep False)\<^sup>*\<^sup>* (startChecker samplePool) ?s" by (rule r_into_rtranclp)
  with health_counter_exact [OF run] show ?thesis by (intro exI [of _ ?s]) simp
qed

theorem health_round_completes_witness:
  "\<exists>s s'. inStep s \<and> hcPlace s = Counted \<and> alive (backendAt (hcPool s) 0) = False \<and>
     (hcOwn (\<lambda>_ _. True))\<^sup>*\<^sup>* s s' \<and> hcPlace s' = Idle \<and> alive (backendAt (hcPool s') 0)"
proof -
  let ?dial = "\<lambda>_ _. True" and ?s = "startChecker onePool\<lparr>hcPlace := Counted, hcWg := 1\<rparr>"
  have s: "inStep ?s" "hcPlace ?s = Counted" "hcGo ?s = []" "pool_ok (hcPool ?s)" "0 \<in> set (servers (hcPool ?s))"
    "alive (backendAt (hcPool ?s) 0) = False"
    by (simp_all add: inStep_def drift_def startChecker_def onePool_def pool_ok_def backendAt_def sampleBackend_def)
  obtain s' where run: "(hcOwn ?dial)\<^sup>*\<^sup>* ?s s'" "\<forall>t. \<not> hcOwn ?dial s' t" using own_ends by blast
  then obtain n where "(hcOwn ?dial ^^ n) ?s s'" by (auto simp: rtranclp_power)
  from health_round_completes [OF s(1-4) this] run(2) s(5) have "hcPlace s' = Idle" "alive (backendAt (hcPool s') 0)"
    by (auto simp: CheckIfAlive_def)
  with run(1) s show ?thesis by blast
qed

theorem health_checks_stop_witness:
  "\<exists>s'. (hcStep True)\<^sup>*\<^sup>* (startChecker samplePool) s' \<and> servers (hcPool s') = [0, 2] \<and>
     (\<forall>s'' w. (hcStep w)\<^sup>*\<^sup>* s' s'' \<longrightarrow> hcPlace s'' \<notin> {Idle, Counted})"
proof -
  have "RemoveServerByUrl sampleUrls ''b'' samplePool = (None, samplePool\<lparr>servers := [0, 2]\<rparr>)"
    by (simp add: RemoveServerByUrl_def serverURL_def backendAt_def samplePool_def sampleUrls_def sampleBackend_def)
  with health_checks_stop [of "startChecker samplePool" sampleUrls "''b''" "samplePool\<lparr>servers := [0, 2]\<rparr>"]
  show ?thesis by auto
qed

theorem health_checks_crash_witness:
  "\<exists>s1 s'. (hcStep True)\<^sup>*\<^sup>* (startChecker onePool) s1 \<and> length (servers (hcPool s1)) = 2 \<and>
     (hcOwn (\<lambda>_ _. True))\<^sup>*\<^sup>* s1 s' \<and> hcPlace s' = Crashed"
  using health_checks_crash [of "startChecker onePool" "sampleBackend ''b'' False 1" "\<lambda>_ _. True"]
  by (auto simp: AddServer_def onePool_def)

end
