(* ===== verification/MetricsRegistry.thy ===== *)
theory MetricsRegistry
  imports GoFloat GoStd
begin

text \<open>
  The rest of package \<open>metrics\<close> (\<open>metrics/handlerFunc.go\<close>): the metrics \<open>NewMetrics\<close> creates and
  registers, and the gauges of the host that the goroutine of \<open>Init\<close> refreshes. The Prometheus
  registry is a parameter \<open>P\<close>; what \<open>cpu.Percent\<close> and \<open>runtime.ReadMemStats\<close> deliver are arguments.
\<close>

section \<open>The registry\<close>

datatype metricKind = Gauge | Counter | Histogram | Summary

record collector =
  coKind :: metricKind
  coName :: string
  coHelp :: string

record 'r prometheus =
  promRegister :: "collector \<Rightarrow> 'r \<Rightarrow> goerror option \<times> 'r"
  promNames :: "'r \<Rightarrow> string set"

text \<open>The names Prometheus allows: letters, digits, \<open>_\<close> and \<open>:\<close>, and no digit first.\<close>

definition nameChar :: "char \<Rightarrow> bool" where
  "nameChar c \<longleftrightarrow> c \<in> set ''abcdefghijklmnopqrstuvwxyzABCDEFGHIJKLMNOPQRSTUVWXYZ_:''"

definition validMetricName :: "string \<Rightarrow> bool" where
  "validMetricName s \<longleftrightarrow>
     (case s of [] \<Rightarrow> False | c # cs \<Rightarrow> nameChar c \<and> list_all (\<lambda>c. nameChar c \<or> c \<in> set ''0123456789'') cs)"

text \<open>What the documentation of \<open>Register\<close> promises: a collector with a valid name that is not taken is
  registered; one whose name is taken is an error.\<close>

definition prom_ok :: "'r prometheus \<Rightarrow> bool" where
  "prom_ok P \<longleftrightarrow>
     (\<forall>c r. validMetricName (coName c) \<and> coName c \<notin> promNames P r \<longrightarrow>
        (\<exists>r'. promRegister P c r = (None, r') \<and> promNames P r' = insert (coName c) (promNames P r))) \<and>
     (\<forall>c r. coName c \<in> promNames P r \<longrightarrow> (\<exists>e. promRegister P c r = (Some e, r)))"

text \<open>\<open>MustRegister\<close>: panics at the first error. A collector that was never created is \<open>None\<close>.\<close>

fun mustRegister :: "'r prometheus \<Rightarrow> collector option list \<Rightarrow> 'r \<Rightarrow> unit res \<times> 'r" where
  "mustRegister P [] r = (Ok (), r)"
| "mustRegister P (None # cs) r = (Panic ''nil pointer dereference'', r)"
| "mustRegister P (Some c # cs) r =
     (case promRegister P c r of
        (None, r) \<Rightarrow> mustRegister P cs r
      | (Some e, r) \<Rightarrow> (Panic ''duplicate metrics collector registration attempted'', r))"

section \<open>The metrics\<close>

record metricSet =
  mtCPU :: "collector option"
  mtMaxMemory :: "collector option"
  mtAllocatedMemory :: "collector option"
  mtCacheSize :: "collector option"
  mtCachePagesCount :: "collector option"
  mtRequestsNow :: "collector option"
  mtRequests :: "collector option"
  mtRequestsByCache :: "collector option"
  mtRequestBodySize :: "collector option"
  mtResponseBodySize :: "collector option"
  mtBackendProcessingTime :: "collector option"
  mtCacheProcessingTime :: "collector option"
  mtFullTripTime :: "collector option"

abbreviation metric :: "metricKind \<Rightarrow> string \<Rightarrow> string \<Rightarrow> collector option" where
  "metric k n h \<equiv> Some \<lparr>coKind = k, coName = n, coHelp = h\<rparr>"

definition theMetrics :: metricSet where
  "theMetrics =
     \<lparr>mtCPU = metric Gauge ''bduts_cpu_usage'' ''CPU usage'',
      mtMaxMemory = None,
      mtAllocatedMemory = metric Gauge ''bduts_allocated_memory'' ''How many memory is allocated now'',
      mtCacheSize = metric Gauge ''bduts_cache_size_used'' ''The usage of cache. Shows its occupancy in bytes'',
      mtCachePagesCount = metric Gauge ''bduts_cache_pages_count'' ''How many pages are stored in cache now?'',
      mtRequestsNow = metric Gauge ''bduts_requests_are_being_processed'' ''How many requests are being processed'',
      mtRequests = metric Counter ''bduts_requests_were_processed''
        ''How many requests were processed on the backends summary'',
      mtRequestsByCache = metric Counter ''bduts_requests_by_cache_were_processed''
        ''How many requests were processed by the cache summary'',
      mtRequestBodySize = metric Histogram ''bduts_request_body_size'' ''A histogram of request body sizes'',
      mtResponseBodySize = metric Histogram ''bduts_response_body_size'' ''A histogram of response body sizes'',
      mtBackendProcessingTime = metric Histogram ''bduts_backend_processing_time'' [],
      mtCacheProcessingTime = metric Histogram ''bduts_cache_processing_time'' [],
      mtFullTripTime = metric Summary ''bduts_full_trip_time'' []\<rparr>"

definition registeredMetrics :: "metricSet \<Rightarrow> collector option list" where
  "registeredMetrics m =
     [mtCPU m, mtRequests m, mtRequestsNow m, mtAllocatedMemory m, mtCacheSize m, mtCachePagesCount m,
      mtRequestsByCache m, mtRequestBodySize m, mtResponseBodySize m, mtBackendProcessingTime m,
      mtCacheProcessingTime m, mtFullTripTime m]"

definition newMetrics :: "'r prometheus \<Rightarrow> 'r \<Rightarrow> metricSet res \<times> 'r" where
  "newMetrics P reg =
     (case mustRegister P (registeredMetrics theMetrics) reg of
        (Ok (), reg) \<Rightarrow> (Ok theMetrics, reg)
      | (Err e, reg) \<Rightarrow> (Err e, reg)
      | (Panic m, reg) \<Rightarrow> (Panic m, reg))"

section \<open>The gauges of the host\<close>

record 'f hostGauges =
  hgCPU :: 'f
  hgAllocated :: int

text \<open>\<open>p[0]\<close> of an empty slice is a panic.\<close>

definition UpdateCPU :: "goerror + 'f list \<Rightarrow> 'f hostGauges \<Rightarrow> unit res \<times> 'f hostGauges" where
  "UpdateCPU percent h =
     (case percent of
        Inl e \<Rightarrow> (Ok (), h)
      | Inr p \<Rightarrow> (case p of [] \<Rightarrow> (Panic ''index out of range'', h) | x # _ \<Rightarrow> (Ok (), h\<lparr>hgCPU := x\<rparr>)))"

definition UpdateMemory :: "64 word \<Rightarrow> 'f hostGauges \<Rightarrow> 'f hostGauges" where
  "UpdateMemory alloc h = h\<lparr>hgAllocated := toFloat (uint alloc)\<rparr>"

text \<open>The goroutine of \<open>Init\<close>, tick by tick.\<close>

fun observeHost :: "((goerror + 'f list) \<times> 64 word) list \<Rightarrow> 'f hostGauges \<Rightarrow> unit res \<times> 'f hostGauges" where
  "observeHost [] h = (Ok (), h)"
| "observeHost ((percent, alloc) # ticks) h =
     (case UpdateCPU percent h of
        (Ok (), h) \<Rightarrow> observeHost ticks (UpdateMemory alloc h)
      | (r, h) \<Rightarrow> (r, h))"

section \<open>What they come to\<close>

lemma mustRegister_fresh:
  assumes "prom_ok P"
  shows "list_all (\<lambda>c. validMetricName (coName c)) cs \<Longrightarrow> distinct (map coName cs) \<Longrightarrow>
    coName ` set cs \<inter> promNames P r = {} \<Longrightarrow>
    \<exists>r'. mustRegister P (map Some cs) r = (Ok (), r') \<and> promNames P r' = promNames P r \<union> coName ` set cs"
proof (induction cs arbitrary: r)
  case (Cons c cs)
  then have "validMetricName (coName c) \<and> coName c \<notin> promNames P r" by auto
  with assms obtain r1 where "promRegister P c r = (None, r1)" "promNames P r1 = insert (coName c) (promNames P r)"
    unfolding prom_ok_def by blast
  moreover from this(2) Cons.prems have "coName ` set cs \<inter> promNames P r1 = {}" by auto
  ultimately show ?case using Cons.IH [of r1] Cons.prems by auto
qed simp

lemma registered_map: "registeredMetrics theMetrics = map Some (map the (registeredMetrics theMetrics))"
  by (simp add: registeredMetrics_def theMetrics_def)

lemma registered_names:
  "list_all (\<lambda>c. validMetricName (coName c)) (map the (registeredMetrics theMetrics))"
  "distinct (map coName (map the (registeredMetrics theMetrics)))"
  by (simp_all add: registeredMetrics_def theMetrics_def validMetricName_def nameChar_def)

text \<open>With a registry that keeps the promises of its documentation, \<open>NewMetrics\<close> registers its twelve
  metrics, all of them under names Prometheus allows, and does not panic; every metric but
  \<open>MaxMemory\<close>, which is never created, is among them. On a registry that has them already it
  panics, which is why \<open>Init\<close> makes a new one.\<close>
theorem metrics_registered:
  assumes "prom_ok P" and "promNames P reg = {}"
  shows "\<exists>reg'. newMetrics P reg = (Ok theMetrics, reg') \<and>
    promNames P reg' = coName ` the ` (set (registeredMetrics theMetrics)) \<and> card (promNames P reg') = 12 \<and>
    (\<exists>msg. fst (newMetrics P reg') = Panic msg)"
proof -
  let ?cs = "map the (registeredMetrics theMetrics)"
  obtain reg' where r: "mustRegister P (map Some ?cs) reg = (Ok (), reg')" "promNames P reg' = coName ` set ?cs"
    using mustRegister_fresh [OF assms(1) registered_names, of reg] assms(2) by auto
  have "card (coName ` set ?cs) = length ?cs"
    using distinct_card [OF registered_names(2)] by (simp only: set_map length_map)
  also have "\<dots> = 12" by (simp add: registeredMetrics_def)
  finally have "card (promNames P reg') = 12" using r(2) by simp
  moreover have "coName (hd ?cs) \<in> promNames P reg'" unfolding r(2) by (simp add: registeredMetrics_def)
  with assms(1) obtain e where "promRegister P (hd ?cs) reg' = (Some e, reg')" unfolding prom_ok_def by blast
  then have "\<exists>msg. fst (newMetrics P reg') = Panic msg"
    by (simp add: newMetrics_def registeredMetrics_def theMetrics_def)
  moreover have "newMetrics P reg = (Ok theMetrics, reg')"
    using r(1) unfolding newMetrics_def by (subst registered_map) simp
  ultimately show ?thesis using r(2) by (simp add: image_image)
qed

text \<open>The registry as the set of the names in it.\<close>

definition refProm :: "string set prometheus" where
  "refProm = \<lparr>promRegister = \<lambda>c r. if coName c \<in> r then (Some (ErrMsg ''duplicate''), r) else (None, insert (coName c) r),
     promNames = \<lambda>r. r\<rparr>"

theorem metrics_registered_witness:
  "\<exists>reg. newMetrics refProm {} = (Ok theMetrics, reg) \<and> card reg = 12"
proof -
  have "prom_ok refProm" "promNames refProm {} = {}" by (simp_all add: prom_ok_def refProm_def)
  from metrics_registered [OF this] show ?thesis by (auto simp: refProm_def)
qed

text \<open>As long as \<open>cpu.Percent\<close> answers with a value or an error, the goroutine goes on, and the gauges
  show the last answers.\<close>
theorem host_observed:
  assumes "\<forall>(percent, alloc) \<in> set ticks. percent \<noteq> Inr []"
  shows "\<exists>h'. observeHost (ticks @ [(Inr (x # p), alloc)]) h = (Ok (), h') \<and> hgCPU h' = x \<and>
    hgAllocated h' = toFloat (uint alloc)"
  using assms
proof (induction ticks arbitrary: h)
  case (Cons t ticks)
  then show ?case
    by (cases t) (auto simp: UpdateCPU_def split: sum.split list.split)
qed (simp add: UpdateCPU_def UpdateMemory_def)

end
