(* ===== verification/Spec2Isabelle.thy ===== *)
theory Spec2Isabelle
  imports System CacheOrigin PageFile AuthRaces AdminRaces Launch HealthLoop MetricsRegistry
begin

text \<open>
  A model of BDUTS, an HTTP load balancer with a page cache written in Go. The program receives
  a client's request in \<open>lb/lbHandlers.go\<close>, answers it from the cache of package \<open>cache\<close> when a
  fresh page is there, and otherwise forwards it to one of the servers of package \<open>backend\<close>,
  chosen in turn by \<open>GetNextPeer\<close>; the response goes to the client and is saved in the cache
  by a goroutine. A timer (\<open>Observe\<close>) evicts pages when the cache is nearly full, another one
  (\<open>HealthChecker\<close>) marks the servers that can be dialled, and the administration handlers of
  \<open>lb/adminHandlers.go\<close> change the server list and clear the cache while all of this runs. These
  handlers are behind the authentication service of package \<open>auth\<close>, which keeps its users in the
  database of package \<open>db\<close> and mails them their passwords; \<open>main.go\<close> reads the configuration,
  starts everything and sets the routes, and \<open>admin_app/main.go\<close> is a client for the
  administration routes.

  Parts and theories.

  \<^item> \<open>Prelude\<close>: Go's errors and \<open>errors.Is\<close>, the outcome \<open>res\<close> of a call (a value, a returned
    error or a panic), byte strings, the locale \<open>invariant_machine\<close> of state machines that keep
    an invariant along every run.
  \<^item> \<open>GoStd\<close>, \<open>GoHttp\<close>, \<open>GoFloat\<close>: what the sources use of the standard library: \<open>strings\<close>,
    \<open>strconv\<close>, \<open>encoding/binary\<close> and \<open>hex\<close>, \<open>time\<close> (an instant is its nanoseconds since the zero
    \<open>time.Time\<close>,
    unbounded, and a \<open>Duration\<close> is a \<open>64 word\<close>), headers, requests, the response writer, and the
    rounding of \<open>float64\<close>.
  \<^item> \<open>Backend\<close> and \<open>PoolProps\<close>: \<open>backend/serverPool.go\<close> and the state of a server in
    \<open>backend/backend.go\<close>. A server is shared by pointer, so a pool has the list of servers ever
    created and the list of positions now served; the cursor is a \<open>32 word\<close>. A server's request
    channel is its length and its capacity. The locale \<open>fair_chooser\<close> states what the handler
    needs of a chooser; \<open>GetNextPeer\<close> interprets it.
  \<^item> \<open>Bolt\<close>, \<open>RefBolt\<close>: the database library bolt is outside the repository: a record of its
    operations is an argument, its documented laws are \<open>bolt_ok\<close>, and \<open>RefBolt\<close> is an instance
    on which the witnesses evaluate.
  \<^item> \<open>Directives\<close>: the Cache-Control loaders of \<open>cache/cache.go\<close>.
  \<^item> \<open>Disk\<close>: \<open>makePath\<close>, \<open>writePageToDisk\<close>, \<open>readPageFromDisk\<close>, \<open>removePageFromDisk\<close> and the walk
    of \<open>ClearCache\<close>, over a model of the system calls in which any call may fail. The locale
    \<open>blob_store\<close> states what the cache needs of a store of files; the page tree interprets it.
  \<^item> \<open>CacheStore\<close>, \<open>Cleaner\<close>, \<open>CacheProps\<close>: \<open>CachingProperties\<close> and every operation on it
    (\<open>cache/insert.go\<close>, \<open>read.go\<close>, \<open>remove.go\<close>, \<open>cacheCleaner.go\<close>, \<open>cache.go\<close>). \<open>RefEnv\<close> is a
    concrete environment for the witnesses.
  \<^item> \<open>CacheSteps\<close>, \<open>CacheRaces\<close>, \<open>CacheOrigin\<close>: the same operations cut into the steps at which goroutines
    interleave (a bolt transaction, an addition to \<open>Size\<close>, a reading of it, a setting of a gauge, an
    operation on a page file), one definition per step, and a goroutine as the stack of its steps.
    \<open>alone_operation\<close> ties them to the operations of \<open>CacheStore\<close> and \<open>Cleaner\<close>; \<open>together\<close> lets any
    number of goroutines take turns, and \<open>ran\<close> is the same with the list of operations started.
  \<^item> \<open>PageFile\<close>: one page file below these steps: \<open>writePageToDisk\<close> cut into the creation of the file and
    the writes of the operating system, \<open>readPageFromDisk\<close> into the opening of the file and the fillings of its
    buffer, with the data an open file keeps when its name goes (\<open>fileRun\<close>).
  \<^item> \<open>LoadBalancer\<close>, \<open>LbProps\<close>: the request path (\<open>lb/lbHandlers.go\<close>, \<open>lb/saveToCache.go\<close>, the
    sending half of \<open>backend/backend.go\<close>, \<open>timer/timer.go\<close>, the counters of
    \<open>metrics/handlerFunc.go\<close>) and the health check.
  \<^item> \<open>HealthLoop\<close>: the loop of \<open>HealthChecker\<close> in \<open>lb/loadBalancer.go\<close> as a step relation with its wait
    group, its goroutines and the array its \<open>range\<close> reads, against administrators who change the pool.
  \<^item> \<open>MetricsRegistry\<close>: the metrics \<open>NewMetrics\<close> creates and registers and the host's gauges, the rest of
    \<open>metrics/handlerFunc.go\<close>; the Prometheus registry is an argument.
  \<^item> \<open>GoJson\<close>: \<open>encoding/json\<close> as the sources use it: a parser with fuel and the lemma that its fuel
    is enough, decoding into structs with Go's case folding of names, the printer, and the round
    trip between them.
  \<^item> \<open>AdminHandlers\<close>: \<open>lb/adminHandlers.go\<close>. \<open>AdminSteps\<close> cuts its handlers of the server list where goroutines
    interleave, down to the single readings of a slice that is walked without the lock
    (\<open>adminTurns_handle\<close>: undisturbed they are the handlers), and \<open>AdminRaces\<close> lets any number of requests
    take turns with each other and with the traffic at the pool (\<open>adminTogether\<close>).
  \<^item> \<open>UserDb\<close>: \<open>db/db.go\<close>, over the same contract with bolt. The locale \<open>user_store\<close> states what the
    service needs of a store of accounts; the database interprets it.
  \<^item> \<open>Email\<close>, \<open>Auth\<close>: \<open>email/email.go\<close> and \<open>auth/auth.go\<close>, one definition per handler. \<open>AuthLaws\<close> holds
    the documented laws of bcrypt, JWT, the validator and the random source and an instance that
    satisfies them; \<open>AuthProps\<close> the outcomes of the handlers, the step relation \<open>authStep\<close> of the
    service and its invariant.
  \<^item> \<open>AuthSteps\<close>, \<open>AuthRaces\<close>: the handlers of \<open>auth/auth.go\<close> cut at their database transactions and mails
    (\<open>authTurn\<close>, with \<open>turns_handle\<close> that undisturbed the steps come to the handler), and
    \<open>authTogether\<close>, any number of requests taking turns.
  \<^item> \<open>AdminClient\<close>: \<open>admin_app/main.go\<close>, every command with what it sends and prints.
  \<^item> \<open>Server\<close>, \<open>ServerProps\<close>: the routes, the CORS wrapper and the guard of \<open>main.go\<close> over one state of
    balancer and accounts, with the path cleaning and pattern matching of \<open>http.ServeMux\<close>; and the
    client against this server.
  \<^item> \<open>Config\<close>, \<open>Startup\<close>: package \<open>config\<close>, and the start of \<open>main.go\<close> up to listening, with every
    \<open>logger.Fatal\<close> and panic as an outcome.
  \<^item> \<open>Launch\<close>: the end of \<open>main\<close> stage by stage, from the start of the cleaner to \<open>metrics.Init\<close> and the
    waiting, beside the goroutines that run by then.
  \<^item> \<open>System\<close>: the running program as a step relation (answered requests, saves, ticks, health rounds,
    requests in progress) and the invariant that holds from its start on.

  What the lemmas show. The pool keeps its cursor in range along every interleaving of its
  operations and serves the living servers in turn. The cache, seen as a map from keys to
  metadata, changes only as each operation promises; \<open>Size\<close> is always the sum of the sizes of
  its pages (\<open>cache_ok\<close>); a stored page comes back as it was stored; a tick of the cleaner ends
  at or below the watermark and removes a shortest prefix of the least used pages. When operations
  overlap, \<open>Size\<close> and the page gauge differ from the database by exactly what goroutines still have
  to add, and are right again when all have finished; a lookup returns only pages inserted under its
  key, also when it reads a file that is still being written, as long as no file is written again while it
  exists; but a file that is written again can be read as the beginning of one page and the rest of another,
  a lookup can panic when its page is removed between its two transactions, insertions
  can exceed the limit together, and a clearing that meets a page still being inserted leaves \<open>Size\<close>
  wrong for good. A round of health checks ends, with every server marked, unless the
  list changes between its two readings, when the checks stop for good or the program panics. Overlapping
  administration requests change the list one locked operation at a time and never panic, but
  two of them can list a server twice, and a listing can miss a server. A request
  is answered from the cache or by one server, every slot it takes is given back, and it ends
  within a bounded number of attempts when the servers have room. The user database is the map
  its specification describes; a sign-up mails the one password of the account it creates, a
  sign-in issues a token that is good for twenty minutes, without an accepted token no request
  changes accounts or the administration's state, and however requests overlap the accounts
  stay well formed and change one specified operation at a time; but a password change that is overtaken by
  a deletion and a sign-up of the same name takes the new account over. A program that has started runs what its files describe, and along everything it
  may do afterwards the pool, the slots, the gauge of running requests, the accounts and, unless a
  clearing fails half-way, the size of the cache stay right; there requests run with other
  goroutines at the pool between their steps. Before \<open>metrics.Init\<close>, the last stage of the start, a tick of the
  cleaner can crash the program and requests lose slots for good. The remaining properties
  state what the code does at the edges: where a directive, a failed transaction, an oversized
  number or a missing \<open>return\<close> leads to something its author did not mean.

  Fuel and bounds. \<open>backendLoop\<close> is the \<open>goto ChooseServer\<close> loop, which need not end; it takes the
  number of passes as fuel and is \<open>None\<close> when that runs out. \<open>handler_terminates\<close> shows that one
  pass more than there are servers is enough when the living ones have room, and
  \<open>handler_spins_when_full\<close> that no number is enough when none has. Every other loop of the
  sources is structural or has a measure. \<open>Size\<close>, sizes and durations are \<open>64 word\<close>, the cursor
  and the request limit \<open>32 word\<close>, use counters \<open>32 word\<close>; they wrap as in Go.

  Hypotheses about what is outside the repository: \<open>bolt_ok\<close>, with \<open>bolt_live\<close> where transactions
  are to open and commit; \<open>codec_ok\<close>, that JSON of a page or of metadata decodes to what was
  encoded (for text in the range JSON keeps) and contains no NUL byte; \<open>codec_whole\<close>, that no proper prefix
  of the JSON of a page decodes; SHA-1 yields 20 bytes;
  \<open>sort_ok\<close>, that \<open>sort.Slice\<close> permutes and sorts; \<open>noFaults\<close>, that the operating system fails no
  call for a reason of its own. \<open>env_ok\<close> bundles those the cache always needs. For the service:
  \<open>bcrypt_ok\<close>, that a hash accepts its password and passwords have at most 72 bytes, and, where a
  property says which passwords open an account, the idealisation \<open>bcrypt_strong\<close> that a hash
  accepts no other; \<open>jwt_ok\<close>, that a signed token is one word, accepted with its key until it
  expires and refused from then on; \<open>validator_ok\<close> and \<open>rand_ok\<close>. The HTTP client, the TCP dial, URL
  parsing and printing, the mail server and \<open>http.ServeFile\<close> are arguments without laws unless a
  property names one.

  Simplifications. \<open>System\<close> takes an operation of the cache as one step; overlapping operations are
  the subject of \<open>CacheRaces\<close> and \<open>CacheOrigin\<close>, where an operation on a page file is still one step (\<open>PageFile\<close> cuts those of a single file further), as is
  the transaction of a clearing with its looks at the disk and its additions, and \<open>CalculateSize\<close>, which
  runs at start-up, takes no part. An \<open>os.RemoveAll\<close> that fails is taken to remove nothing. Values read from bolt are copies, also after their
  transaction has ended. The capacity of the server slice is left open: an append may go to the
  same array or to a new one. The goroutines that touch
  the pool while a request is in progress are arguments of the handler, as lists of pool
  events between its steps; properties that bound an exchange assume there are none, \<open>System\<close> and the properties of the
  reply allow any. The health checker's ticker, which panics in its goroutine when its period is not positive,
  is checked where the goroutine is started. Of the requests before \<open>metrics.Init\<close>, \<open>Launch\<close> follows those that go to
  a backend; all others panic too, after the lookup in the cache at most. The panic of a handler is recovered
  by net/http. \<open>AssignRequest\<close>'s wait of 100 ms is one step that succeeds when the
  channel has room. \<open>TrimSpace\<close> trims ASCII space, time zones are UTC, a bufio reader's errors
  are the end of the file. \<open>ForEach\<close> over buckets that the callback deletes visits an
  unspecified subset, which is an argument of \<open>ClearCache\<close>. Logging is left out, as are file modes.

  Not modelled: the handler that serves the metrics, which is one call into a library; the getters
  and the setting up of loggers; \<open>http.Serve\<close> itself and TLS; the parsing of command-line flags; the web front end, which is not Go; and the files of the deployment.
\<close>

end
